(* ===== verification/Script_Num.thy ===== *)
theory Script_Num
  imports Prelude
begin

text \<open>
  The number and boolean encodings of the script language: the error type of the engine
  (\<^verbatim>\<open>crypto/txscript/errors/src/lib.rs\<close>) and the \<open>OpcodeData\<close> conversions of
  \<^verbatim>\<open>crypto/txscript/src/data_stack.rs\<close>.  A number on the stack is a little-endian
  sign-and-magnitude byte string of minimal length; the lemmas show that encoding and
  decoding are inverse to each other, so that every number has exactly one accepted encoding.
\<close>

section \<open>Opcodes and errors\<close>

text \<open>An opcode instance is its code byte and its immediate data (\<open>struct OpCode<CODE> { data }\<close>).\<close>

datatype opcode = OpCode (op_value: u8) (op_data: bytes)

datatype serialization_error = NumberTooLong int

text \<open>
  The constructors are those of the source, with one more for a panic of the thread.  Where the source carries a formatted message,
  the model keeps the value that is formatted when it is an opcode, and drops pure text.
\<close>

datatype tx_script_error =
    MalformedPushSize bytes
  | MalformedPush nat nat
  | InvalidInputIndex int nat
  | StackSizeExceeded nat nat
  | InvalidOpcode opcode
  | OpcodeReserved opcode
  | OpcodeDisabled opcode
  | EmptyStack
  | CleanStack nat
  | EvalFalse
  | EarlyReturn
  | VerifyError
  | InvalidState
  | InvalidSignature
  | SigcacheSignatureInvalid
  | TooManyOperations int
  | NotATransactionInput
  | ElementTooBig nat nat
  | NotMinimalData
  | InvalidSource
  | UnsatisfiedLockTime
  | NumberTooBig
  | NullFail
  | InvalidSignatureCount
  | InvalidPubKeyCount
  | InvalidSigHashType u8
  | PubKeyFormat
  | SigLength nat
  | NoScripts
  | SignatureScriptNotPushOnly
  | ErrUnbalancedConditional
  | InvalidStackOperation nat nat
  | ScriptSize nat nat
  | InvalidOutputIndex int nat
  | Serialization serialization_error
  | ExceededSigOpLimit u8
  | Panicked  \<comment> \<open>not in the source: the thread panicked\<close>

section \<open>Numbers\<close>

definition i64_min :: int where "i64_min = - (2 ^ 63)"
definition i64_max :: int where "i64_max = 2 ^ 63 - 1"

definition in_i64 :: "int \<Rightarrow> bool" where
  "in_i64 n \<longleftrightarrow> i64_min \<le> n \<and> n \<le> i64_max"

definition in_i32 :: "int \<Rightarrow> bool" where
  "in_i32 n \<longleftrightarrow> - (2 ^ 31) \<le> n \<and> n \<le> 2 ^ 31 - 1"

definition check_minimal_data_encoding :: "bytes \<Rightarrow> (tx_script_error, unit) result" where
  "check_minimal_data_encoding v =
     (if v = [] then Inr ()
      else if v ! (length v - 1) AND 0x7f = 0
        then (if length v = 1 \<or> v ! (length v - 2) AND 0x80 = 0
              then Inl NotMinimalData else Inr ())
      else Inr ())"

text \<open>
  The generator passed to \<open>iter::from_fn\<close>: its captured variables are the remaining
  magnitude and the flag \<open>last_saturated\<close>.
\<close>

function serialize_magnitude :: "nat \<Rightarrow> bool \<Rightarrow> bytes" where
  "serialize_magnitude positive last_saturated =
     (if positive = 0 then (if last_saturated then [0] else [])
      else let value = word_of_nat (positive mod 256) :: u8
           in value # serialize_magnitude (positive div 256) (value AND 0x80 \<noteq> 0))"
  by pat_completeness auto
termination
  by (relation "measure fst") auto

declare serialize_magnitude.simps [simp del]

definition serialize_i64 :: "int \<Rightarrow> bytes" where
  "serialize_i64 from =
     (let number_vec = serialize_magnitude (nat \<bar>from\<bar>) False
      in if sgn from = -1
         then number_vec[length number_vec - 1 := last number_vec OR 0x80]
         else number_vec)"

definition deserialize_i64 :: "bytes \<Rightarrow> (tx_script_error, int) result" where
  "deserialize_i64 v =
     (if length v > 8 then Inl NotMinimalData
      else if length v = 0 then Inr 0
      else rbind (check_minimal_data_encoding v) (\<lambda>_.
        let msb = v ! (length v - 1);
            sgn' = 1 - 2 * uint (drop_bit 7 msb);
            first_byte = uint (msb AND 0x7f)
        in Inr (foldl (\<lambda>accum item. accum * 256 + uint item) first_byte
                 (rev (take (length v - 1) v)) * sgn')))"

text \<open>\<open>SizedEncodeInt<LEN>\<close>: at most \<open>LEN\<close> bytes.\<close>

definition deserialize_sized :: "nat \<Rightarrow> bytes \<Rightarrow> (tx_script_error, int) result" where
  "deserialize_sized len v = (if length v > len then Inl NumberTooBig else deserialize_i64 v)"

definition serialize_sized :: "nat \<Rightarrow> int \<Rightarrow> (serialization_error, bytes) result" where
  "serialize_sized len n =
     (let bs = serialize_i64 n in if length bs > len then Inl (NumberTooLong n) else Inr bs)"

definition deserialize_num64 :: "bytes \<Rightarrow> (tx_script_error, int) result" where
  "deserialize_num64 = deserialize_sized 8"

definition serialize_num64 :: "int \<Rightarrow> (serialization_error, bytes) result" where
  "serialize_num64 = serialize_sized 8"

definition deserialize_num32 :: "bytes \<Rightarrow> (tx_script_error, int) result" where
  "deserialize_num32 = deserialize_sized 4"

definition deserialize_bool :: "bytes \<Rightarrow> (tx_script_error, bool) result" where
  "deserialize_bool v =
     (if v = [] then Inr False
      else Inr (v ! (length v - 1) AND 0x7f \<noteq> 0 \<or>
                list_ex (\<lambda>b. b \<noteq> 0) (take (length v - 1) v)))"

definition serialize_bool :: "bool \<Rightarrow> (serialization_error, bytes) result" where
  "serialize_bool b = Inr (if b then [1] else [])"

section \<open>Single bytes\<close>

lemma unat_drop_bit7: "unat (drop_bit 7 (b :: u8)) = unat b div 128"
  by (simp add: drop_bit_eq_div unat_div)

lemma unat_and_7f: "unat (b AND 0x7f :: u8) = unat b mod 128"
proof -
  have "b AND 0x7f = b mod 128"
    using take_bit_eq_mask [of 7 b] by (simp add: take_bit_eq_mod mask_eq_exp_minus_1)
  then show ?thesis
    by (simp add: unat_mod)
qed

lemma and_7f_iff: "b AND 0x7f = (0 :: u8) \<longleftrightarrow> unat b mod 128 = 0"
  by (metis unat_0 unat_and_7f word_unat_eq_iff)

lemma and_80_iff: "b AND 0x80 = (0 :: u8) \<longleftrightarrow> unat b < 128"
proof -
  have "(b AND 0x7f) OR (b AND 0x80) = b AND (0x7f OR 0x80)"
    by (rule bit.conj_disj_distrib [symmetric])
  moreover have "0x7f OR 0x80 = (- 1 :: u8)"
    by simp
  ultimately have split: "(b AND 0x7f) OR (b AND 0x80) = b"
    by (simp only: bit.conj_one_right)
  have "b AND 0x80 = 0 \<longleftrightarrow> b AND 0x7f = b"
  proof
    assume "b AND 0x80 = 0"
    with split show "b AND 0x7f = b" by simp
  next
    assume "b AND 0x7f = b"
    then have "b AND 0x80 = b AND (0x7f AND 0x80)"
      by (metis and.assoc)
    then show "b AND 0x80 = 0" by simp
  qed
  also have "\<dots> \<longleftrightarrow> unat b mod 128 = unat b"
    by (metis unat_and_7f word_unat_eq_iff)
  also have "\<dots> \<longleftrightarrow> unat b < 128"
    by (metis mod_less mod_less_divisor zero_less_numeral)
  finally show ?thesis .
qed

lemma unat_or_80: "unat b < 128 \<Longrightarrow> unat (b OR 0x80 :: u8) = unat b + 128"
proof -
  assume "unat b < 128"
  then have "b AND 0x80 = 0" by (simp add: and_80_iff)
  then have "b OR 0x80 = b + 0x80"
    by (simp add: disjunctive_add_eq_or)
  with \<open>unat b < 128\<close> show ?thesis
    by (simp add: unat_word_ariths)
qed

section \<open>Magnitudes\<close>

lemma le_nat_append: "le_nat (xs @ ys) = le_nat xs + 256 ^ length xs * le_nat ys"
  by (induction xs) (auto simp: algebra_simps)

lemma serialize_magnitude_0 [simp]: "serialize_magnitude 0 f = (if f then [0] else [])"
  by (simp add: serialize_magnitude.simps)

lemma serialize_magnitude_pos:
  "0 < m \<Longrightarrow> serialize_magnitude m f =
     word_of_nat (m mod 256) # serialize_magnitude (m div 256) (128 \<le> m mod 256)"
  by (subst serialize_magnitude.simps) (simp add: Let_def and_80_iff not_less)

lemma le_nat_serialize_magnitude: "le_nat (serialize_magnitude m f) = m"
proof (induction m arbitrary: f rule: less_induct)
  case (less m)
  show ?case
  proof (cases "m = 0")
    case False
    then have "m div 256 < m" by simp
    then have "le_nat (serialize_magnitude (m div 256) (128 \<le> m mod 256)) = m div 256"
      by (rule less)
    with False show ?thesis by (simp add: serialize_magnitude_pos)
  qed simp
qed

text \<open>
  A byte string is a minimal magnitude when its last byte has the sign bit clear and is needed,
  either because it is not zero or because the byte before it has the top bit set.
\<close>

definition minimal_magnitude :: "bytes \<Rightarrow> bool" where
  "minimal_magnitude v \<longleftrightarrow> v \<noteq> [] \<and> unat (last v) < 128 \<and>
     (last v \<noteq> 0 \<or> (butlast v \<noteq> [] \<and> 128 \<le> unat (last (butlast v))))"

lemma minimal_magnitude_Cons:
  "minimal_magnitude (b # v) \<longleftrightarrow>
     (if v = [] then 0 < unat b \<and> unat b < 128
      else if v = [0] then 128 \<le> unat b else minimal_magnitude v)"
  by (cases v rule: rev_cases)
     (auto simp: minimal_magnitude_def unat_gt_0 butlast_append)

lemma minimal_magnitude_pos: "minimal_magnitude v \<Longrightarrow> 0 < le_nat v"
  by (induction v) (auto simp: minimal_magnitude_Cons split: if_splits, simp add: minimal_magnitude_def)

lemma minimal_serialize_magnitude: "0 < m \<Longrightarrow> minimal_magnitude (serialize_magnitude m f)"
proof (induction m arbitrary: f rule: less_induct)
  case (less m)
  show ?case
  proof (cases "m div 256 = 0")
    case True
    then have "m < 256" by simp
    with less.prems True show ?thesis
      by (auto simp: serialize_magnitude_pos minimal_magnitude_Cons unat_of_nat)
  next
    case False
    then have "minimal_magnitude (serialize_magnitude (m div 256) (128 \<le> m mod 256))"
      using less by simp
    moreover have "serialize_magnitude (m div 256) (128 \<le> m mod 256) \<noteq> [0]"
      using False le_nat_serialize_magnitude by (metis add_0 le_nat.simps mult_zero_right unat_0)
    ultimately show ?thesis
      using less.prems
      by (auto simp: serialize_magnitude_pos minimal_magnitude_Cons minimal_magnitude_def)
  qed
qed

lemma serialize_magnitude_le_nat:
  "minimal_magnitude v \<or> (v = [0] \<and> f) \<Longrightarrow> serialize_magnitude (le_nat v) f = v"
proof (induction v arbitrary: f)
  case Nil
  then show ?case by (simp add: minimal_magnitude_def)
next
  case (Cons b v)
  have b: "(unat b + 256 * le_nat v) mod 256 = unat b" "(unat b + 256 * le_nat v) div 256 = le_nat v"
    using unat_byte_lt [of b] by (simp_all del: unat_byte_lt)
  show ?case
  proof (cases "minimal_magnitude (b # v)")
    case True
    then have pos: "0 < le_nat (b # v)" by (rule minimal_magnitude_pos)
    have "v = [] \<and> unat b < 128 \<or> minimal_magnitude v \<or> v = [0] \<and> 128 \<le> unat b"
      using True by (auto simp: minimal_magnitude_Cons split: if_splits)
    then have "serialize_magnitude (le_nat v) (128 \<le> unat b) = v"
      using Cons.IH by auto
    with pos b show ?thesis
      by (simp add: serialize_magnitude_pos)
  next
    case False
    with Cons.prems show ?thesis by simp
  qed
qed

lemma length_serialize_magnitude:
  "m < 128 * 256 ^ k \<Longrightarrow> length (serialize_magnitude m f) \<le> Suc k"
proof (induction k arbitrary: m f)
  case 0
  then show ?case
    by (cases "m = 0") (simp_all add: serialize_magnitude_pos)
next
  case (Suc k)
  then have "m div 256 < 128 * 256 ^ k" by simp
  then have "length (serialize_magnitude (m div 256) (128 \<le> m mod 256)) \<le> Suc k"
    by (rule Suc.IH)
  then show ?case
    by (cases "m = 0") (simp_all add: serialize_magnitude_pos)
qed

section \<open>Encoding and decoding of numbers\<close>

lemma uint_sign_bit: "uint (drop_bit 7 (b :: u8)) = (if unat b < 128 then 0 else 1)"
proof -
  have "unat b div 128 = (if unat b < 128 then 0 else 1)"
    using unat_byte_lt [of b] by (simp add: div_nat_eqI del: unat_byte_lt)
  then show ?thesis
    using arg_cong [OF unat_drop_bit7 [of b], of int] by simp
qed

lemma uint_and_7f: "uint (b AND 0x7f :: u8) = int (unat b mod 128)"
  using arg_cong [OF unat_and_7f [of b], of int] by simp

lemma foldl_horner:
  "foldl (\<lambda>accum item. accum * 256 + uint (item :: u8)) a (rev xs) =
   int (le_nat xs) + 256 ^ length xs * a"
  by (induction xs) (auto simp: algebra_simps)

lemma check_minimal_snoc:
  "check_minimal_data_encoding (w @ [c]) =
     (if unat c mod 128 = 0 \<and> (w = [] \<or> unat (last w) < 128) then Inl NotMinimalData else Inr ())"
  by (cases w rule: rev_cases)
     (auto simp: check_minimal_data_encoding_def and_80_iff nth_append and_7f_iff)

lemma deserialize_i64_snoc:
  "length w \<le> 7 \<Longrightarrow> deserialize_i64 (w @ [c]) =
     (if unat c mod 128 = 0 \<and> (w = [] \<or> unat (last w) < 128) then Inl NotMinimalData
      else Inr ((if unat c < 128 then 1 else -1) * int (le_nat w + 256 ^ length w * (unat c mod 128))))"
  by (auto simp: deserialize_i64_def check_minimal_snoc foldl_horner uint_sign_bit uint_and_7f
      Let_def)

lemma minimal_magnitude_snoc:
  "minimal_magnitude (w @ [c]) \<longleftrightarrow>
     unat c < 128 \<and> \<not> (unat c = 0 \<and> (w = [] \<or> unat (last w) < 128))"
  by (cases w rule: rev_cases) (auto simp: minimal_magnitude_def word_unat_eq_iff butlast_append)

lemma serialize_i64_pos: "0 < n \<Longrightarrow> serialize_i64 n = serialize_magnitude (nat n) False"
  by (simp add: serialize_i64_def)

lemma serialize_i64_neg:
  "n < 0 \<Longrightarrow> serialize_magnitude (nat (- n)) False = w @ [c] \<Longrightarrow> serialize_i64 n = w @ [c OR 0x80]"
  by (simp add: serialize_i64_def)

lemma serialize_i64_0 [simp]: "serialize_i64 0 = []"
  by (simp add: serialize_i64_def)

lemma length_serialize_i64: "length (serialize_i64 n) = length (serialize_magnitude (nat \<bar>n\<bar>) False)"
  by (simp add: serialize_i64_def Let_def)

lemma serialize_i64_length_le: "\<bar>n\<bar> < 2 ^ 63 \<Longrightarrow> length (serialize_i64 n) \<le> 8"
  using length_serialize_magnitude [of "nat \<bar>n\<bar>" 7 False] by (simp add: length_serialize_i64 nat_less_iff)

text \<open>Decoding inverts encoding, on every number that fits in eight bytes.\<close>

lemma deserialize_serialize:
  assumes "length (serialize_i64 n) \<le> 8"
  shows "deserialize_i64 (serialize_i64 n) = Inr n"
proof (cases "n = 0")
  case True
  then show ?thesis by (simp add: deserialize_i64_def)
next
  case False
  let ?m = "nat \<bar>n\<bar>"
  have min: "minimal_magnitude (serialize_magnitude ?m False)"
    using False by (intro minimal_serialize_magnitude) simp
  then obtain w c where wc: "serialize_magnitude ?m False = w @ [c]"
    by (cases "serialize_magnitude ?m False" rule: rev_cases) (auto simp: minimal_magnitude_def)
  have len: "length w \<le> 7"
    using assms wc by (simp add: length_serialize_i64)
  have val: "le_nat w + 256 ^ length w * unat c = ?m"
    using le_nat_serialize_magnitude [of ?m False] by (simp add: wc le_nat_append)
  from min wc have c: "unat c < 128" "\<not> (unat c = 0 \<and> (w = [] \<or> unat (last w) < 128))"
    by (simp_all add: minimal_magnitude_snoc)
  show ?thesis
  proof (cases "n < 0")
    case True
    then have "serialize_i64 n = w @ [c OR 0x80]"
      using wc by (simp add: serialize_i64_neg)
    then show ?thesis
      using True c len val by (auto simp: deserialize_i64_snoc unat_or_80)
  next
    case nonneg: False
    then have "serialize_i64 n = w @ [c]"
      using wc False by (simp add: serialize_i64_pos)
    then show ?thesis
      using nonneg False c len val by (auto simp: deserialize_i64_snoc)
  qed
qed

text \<open>Encoding inverts decoding: a number has one accepted encoding only.\<close>

lemma serialize_deserialize:
  assumes "deserialize_i64 v = Inr n"
  shows "serialize_i64 n = v"
proof (cases v rule: rev_cases)
  case Nil
  with assms show ?thesis by (simp add: deserialize_i64_def)
next
  case (snoc w c)
  have len: "length w \<le> 7"
    using assms snoc by (auto simp: deserialize_i64_def split: if_splits)
  let ?c = "c AND 0x7f"
  have uc: "unat ?c = unat c mod 128" by (rule unat_and_7f)
  from assms have min: "minimal_magnitude (w @ [?c])"
    and n: "n = (if unat c < 128 then 1 else -1) * int (le_nat (w @ [?c]))"
    using len uc
    by (auto simp: snoc deserialize_i64_snoc minimal_magnitude_snoc le_nat_append split: if_splits)
  have ser: "serialize_magnitude (le_nat (w @ [?c])) False = w @ [?c]"
    using min by (intro serialize_magnitude_le_nat) simp
  have pos: "0 < le_nat (w @ [?c])" using min by (rule minimal_magnitude_pos)
  show ?thesis
  proof (cases "unat c < 128")
    case True
    then have "?c = c" using uc by (simp add: word_unat_eq_iff)
    with True n pos ser snoc show ?thesis by (simp add: serialize_i64_pos)
  next
    case False
    have "unat c mod 128 = unat c - 128"
      using False unat_byte_lt [of c] by (simp add: le_mod_geq del: unat_byte_lt)
    then have "unat (?c OR 0x80) = unat c"
      using False uc by (simp add: unat_or_80)
    then have "?c OR 0x80 = c" by (simp add: word_unat_eq_iff)
    with False n pos ser snoc show ?thesis by (simp add: serialize_i64_neg)
  qed
qed

lemma if_Inl_Inr: "(if b then Inl e else Inr t) = Inr n \<longleftrightarrow> \<not> b \<and> t = n"
  by simp

lemma deserialize_i64_range:
  assumes "deserialize_i64 v = Inr n"
  shows "\<bar>n\<bar> < 128 * 256 ^ (length v - 1)"
proof (cases v rule: rev_cases)
  case Nil
  with assms show ?thesis by (simp add: deserialize_i64_def)
next
  case (snoc w c)
  have "length w \<le> 7"
    using assms snoc by (auto simp: deserialize_i64_def split: if_splits)
  then have "n = (if unat c < 128 then 1 else -1) * int (le_nat w + 256 ^ length w * (unat c mod 128))"
    using assms by (simp only: snoc deserialize_i64_snoc if_Inl_Inr)
  then have n: "\<bar>n\<bar> = int (le_nat w + 256 ^ length w * (unat c mod 128))"
    by (simp only: abs_mult abs_of_nat) simp
  have "le_nat w + 256 ^ length w * (unat c mod 128) < 256 ^ length w + 256 ^ length w * 127"
    using le_nat_bound [of w] by (intro add_less_le_mono mult_le_mono2) simp_all
  also have "\<dots> = 128 * 256 ^ length w" by simp
  finally have "int (le_nat w + 256 ^ length w * (unat c mod 128)) < int (128 * 256 ^ length w)"
    by (rule iffD2 [OF of_nat_less_iff])
  with n snoc show ?thesis by simp
qed

lemma deserialize_num64_range: "deserialize_num64 v = Inr n \<Longrightarrow> in_i64 n"
proof -
  assume h: "deserialize_num64 v = Inr n"
  then have "length v \<le> 8" and d: "deserialize_i64 v = Inr n"
    by (auto simp: deserialize_num64_def deserialize_sized_def split: if_splits)
  then have "(128 :: int) * 256 ^ (length v - 1) \<le> 128 * 256 ^ 7"
    by (intro mult_left_mono power_increasing) simp_all
  with deserialize_i64_range [OF d] have "\<bar>n\<bar> < 128 * 256 ^ 7"
    by (rule less_le_trans)
  then show ?thesis
    by (auto simp: in_i64_def i64_min_def i64_max_def)
qed

text \<open>The \<open>expect("number is within i32 range")\<close> of the four-byte conversion cannot fail.\<close>

lemma deserialize_num32_range: "deserialize_num32 v = Inr n \<Longrightarrow> in_i32 n"
proof -
  assume h: "deserialize_num32 v = Inr n"
  then have "length v \<le> 4" and d: "deserialize_i64 v = Inr n"
    by (auto simp: deserialize_num32_def deserialize_sized_def split: if_splits)
  then have "(128 :: int) * 256 ^ (length v - 1) \<le> 128 * 256 ^ 3"
    by (intro mult_left_mono power_increasing) simp_all
  with deserialize_i64_range [OF d] have "\<bar>n\<bar> < 128 * 256 ^ 3"
    by (rule less_le_trans)
  then show ?thesis
    by (auto simp: in_i32_def)
qed

lemma deserialize_serialize_bool:
  "serialize_bool b = Inr v \<Longrightarrow> deserialize_bool v = Inr b"
  by (cases b) (auto simp: serialize_bool_def deserialize_bool_def)

section \<open>Properties\<close>

lemma serialize_num64_iff: "serialize_num64 n = Inr v \<longleftrightarrow> v = serialize_i64 n \<and> length v \<le> 8"
  by (auto simp: serialize_num64_def serialize_sized_def Let_def)

lemma deserialize_num64_iff: "deserialize_num64 v = Inr n \<longleftrightarrow> length v \<le> 8 \<and> deserialize_i64 v = Inr n"
  by (simp add: deserialize_num64_def deserialize_sized_def)

text \<open>
  The number encoding of the script language is a bijection: a byte string decodes to the
  number \<open>n\<close> exactly when it is the encoding of \<open>n\<close>, so each number has one encoding (no
  non-minimal byte string is accepted) and each encoding is read back unchanged.
\<close>

theorem num_encoding_unique: "deserialize_num64 v = Inr n \<longleftrightarrow> serialize_num64 n = Inr v"
  using deserialize_serialize [of n] serialize_deserialize [of v n]
  by (auto simp: serialize_num64_iff deserialize_num64_iff)

end
