(* ===== verification/Data_Stack.thy ===== *)
theory Data_Stack
  imports Script_Num "HOL-Library.Multiset"
begin

text \<open>
  The data stack of the script engine (trait \<open>DataStack\<close> for \<open>Vec<Vec<u8>>\<close> in
  \<^verbatim>\<open>crypto/txscript/src/data_stack.rs\<close>).  As in the source the top of the stack is the
  last element of the vector.  Each operation is total: a stack that is too short gives
  \<open>InvalidStackOperation\<close> and is left unchanged; a failing conversion in
  \<open>pop_items\<close> happens after the items were split off.
\<close>

type_synonym stack = "bytes list"
type_synonym 'a stack_op = "(stack, tx_script_error, 'a) sm"

definition pop_items :: "nat \<Rightarrow> (bytes \<Rightarrow> (tx_script_error, 'a) result) \<Rightarrow> 'a list stack_op" where
  "pop_items n deser = (\<lambda>st.
     if length st < n then (Inl (InvalidStackOperation n (length st)), st)
     else (rcollect deser (drop (length st - n) st), take (length st - n) st))"

definition peek_items :: "nat \<Rightarrow> (bytes \<Rightarrow> (tx_script_error, 'a) result) \<Rightarrow> 'a list stack_op" where
  "peek_items n deser = (\<lambda>st.
     if length st < n then (Inl (InvalidStackOperation n (length st)), st)
     else (rcollect deser (drop (length st - n) st), st))"

definition pop_raw :: "nat \<Rightarrow> bytes list stack_op" where
  "pop_raw n = (\<lambda>st.
     if length st < n then (Inl (InvalidStackOperation n (length st)), st)
     else (Inr (drop (length st - n) st), take (length st - n) st))"

definition peek_raw :: "nat \<Rightarrow> bytes list stack_op" where
  "peek_raw n = (\<lambda>st.
     if length st < n then (Inl (InvalidStackOperation n (length st)), st)
     else (Inr (drop (length st - n) st), st))"

definition push_item :: "('a \<Rightarrow> (serialization_error, bytes) result) \<Rightarrow> 'a \<Rightarrow> unit stack_op" where
  "push_item ser item = (\<lambda>st.
     case ser item of Inl e \<Rightarrow> (Inl (Serialization e), st) | Inr v \<Rightarrow> (Inr (), st @ [v]))"

definition drop_items :: "nat \<Rightarrow> unit stack_op" where
  "drop_items n = (\<lambda>st.
     if length st \<ge> n then (Inr (), take (length st - n) st)
     else (Inl (InvalidStackOperation n (length st)), st))"

definition dup_items :: "nat \<Rightarrow> unit stack_op" where
  "dup_items n = (\<lambda>st.
     if length st \<ge> n then (Inr (), st @ drop (length st - n) st)
     else (Inl (InvalidStackOperation n (length st)), st))"

definition over_items :: "nat \<Rightarrow> unit stack_op" where
  "over_items n = (\<lambda>st.
     if length st \<ge> 2 * n then (Inr (), st @ take n (drop (length st - 2 * n) st))
     else (Inl (InvalidStackOperation (2 * n) (length st)), st))"

definition rot_items :: "nat \<Rightarrow> unit stack_op" where
  "rot_items n = (\<lambda>st.
     if length st \<ge> 3 * n
     then let drained = take n (drop (length st - 3 * n) st)
          in (Inr (), take (length st - 3 * n) st @ drop (length st - 2 * n) st @ drained)
     else (Inl (InvalidStackOperation (3 * n) (length st)), st))"

definition swap_items :: "nat \<Rightarrow> unit stack_op" where
  "swap_items n = (\<lambda>st.
     if length st \<ge> 2 * n
     then let drained = take n (drop (length st - 2 * n) st)
          in (Inr (), take (length st - 2 * n) st @ drop (length st - n) st @ drained)
     else (Inl (InvalidStackOperation (2 * n) (length st)), st))"

lemmas stack_op_defs =
  pop_items_def peek_items_def pop_raw_def peek_raw_def push_item_def drop_items_def
  dup_items_def over_items_def rot_items_def swap_items_def

section \<open>Effect on a stack of the expected shape\<close>

lemma pop_raw_append: "length xs = n \<Longrightarrow> pop_raw n (st @ xs) = (Inr xs, st)"
  by (simp add: pop_raw_def)

lemma pop_items_append: "length xs = n \<Longrightarrow> pop_items n d (st @ xs) = (rcollect d xs, st)"
  by (simp add: pop_items_def)

lemma drop_items_append: "length xs = n \<Longrightarrow> drop_items n (st @ xs) = (Inr (), st)"
  by (simp add: drop_items_def)

lemma dup_items_append: "length xs = n \<Longrightarrow> dup_items n (st @ xs) = (Inr (), st @ xs @ xs)"
  by (simp add: dup_items_def)

lemma over_items_append:
  "length xs = n \<Longrightarrow> length ys = n \<Longrightarrow> over_items n (st @ xs @ ys) = (Inr (), st @ xs @ ys @ xs)"
  by (simp add: over_items_def)

lemma swap_items_append:
  "length xs = n \<Longrightarrow> length ys = n \<Longrightarrow> swap_items n (st @ xs @ ys) = (Inr (), st @ ys @ xs)"
  by (simp add: swap_items_def)

lemma rot_items_append:
  "length xs = n \<Longrightarrow> length ys = n \<Longrightarrow> length zs = n \<Longrightarrow>
   rot_items n (st @ xs @ ys @ zs) = (Inr (), st @ ys @ zs @ xs)"
  by (simp add: rot_items_def)

text \<open>A stack with \<open>k\<close> groups of \<open>n\<close> items on top splits into them.\<close>

lemma stack_split:
  assumes "n \<le> length st"
  obtains st' xs where "st = st' @ xs" "length xs = n"
proof
  show "st = take (length st - n) st @ drop (length st - n) st" by simp
  show "length (drop (length st - n) st) = n" using assms by simp
qed

lemma stack_split2:
  assumes "2 * n \<le> length st"
  obtains st' xs ys where "st = st' @ xs @ ys" "length xs = n" "length ys = n"
proof -
  have "n \<le> length st" using assms by simp
  then obtain s1 ys where s1: "st = s1 @ ys" "length ys = n"
    by (rule stack_split)
  then have "n \<le> length s1" using assms by simp
  then obtain s2 xs where "s1 = s2 @ xs" "length xs = n"
    by (rule stack_split)
  with s1 that [of s2 xs ys] show ?thesis by simp
qed

lemma stack_split3:
  assumes "3 * n \<le> length st"
  obtains st' xs ys zs where "st = st' @ xs @ ys @ zs" "length xs = n" "length ys = n" "length zs = n"
proof -
  have "n \<le> length st" using assms by simp
  then obtain s1 zs where s1: "st = s1 @ zs" "length zs = n"
    by (rule stack_split)
  then have "2 * n \<le> length s1" using assms by simp
  then obtain s2 xs ys where "s1 = s2 @ xs @ ys" "length xs = n" "length ys = n"
    by (rule stack_split2)
  with s1 that [of s2 xs ys zs] show ?thesis by simp
qed

section \<open>Algebra of the rearranging operations\<close>

lemma swap_items_mset: "mset (snd (swap_items n st)) = mset st"
proof (cases "2 * n \<le> length st")
  case True
  then obtain st' xs ys where "st = st' @ xs @ ys" "length xs = n" "length ys = n"
    by (rule stack_split2)
  then show ?thesis by (simp add: swap_items_append)
qed (simp add: swap_items_def)

lemma rot_items_mset: "mset (snd (rot_items n st)) = mset st"
proof (cases "3 * n \<le> length st")
  case True
  then obtain st' xs ys zs where "st = st' @ xs @ ys @ zs" "length xs = n" "length ys = n" "length zs = n"
    by (rule stack_split3)
  then show ?thesis by (simp add: rot_items_append)
qed (simp add: rot_items_def)

lemma swap_twice: "snd (swap_items n (snd (swap_items n st))) = st"
proof (cases "2 * n \<le> length st")
  case True
  then obtain st' xs ys where "st = st' @ xs @ ys" "length xs = n" "length ys = n"
    by (rule stack_split2)
  then show ?thesis by (simp add: swap_items_append)
qed (simp add: swap_items_def)

lemma rot_thrice: "snd (rot_items n (snd (rot_items n (snd (rot_items n st))))) = st"
proof (cases "3 * n \<le> length st")
  case True
  then obtain st' xs ys zs where "st = st' @ xs @ ys @ zs" "length xs = n" "length ys = n" "length zs = n"
    by (rule stack_split3)
  then show ?thesis by (simp add: rot_items_append)
qed (simp add: rot_items_def)

text \<open>No operation invents elements: what is on the stack afterwards was there before.\<close>

lemma stack_op_subset:
  "set (snd (pop_items n d st)) \<subseteq> set st"
  "set (snd (peek_items n d st)) \<subseteq> set st"
  "set (snd (pop_raw n st)) \<subseteq> set st"
  "set (snd (peek_raw n st)) \<subseteq> set st"
  "set (snd (drop_items n st)) \<subseteq> set st"
  "set (snd (dup_items n st)) \<subseteq> set st"
  "set (snd (over_items n st)) \<subseteq> set st"
  by (auto simp: stack_op_defs dest: in_set_takeD in_set_dropD split: if_splits)

lemma rearrange_set: "set (snd (rot_items n st)) = set st" "set (snd (swap_items n st)) = set st"
  by (metis rot_items_mset swap_items_mset mset_eq_setD)+

lemma pop_raw_subset: "pop_raw n st = (Inr xs, st') \<Longrightarrow> set xs \<subseteq> set st \<and> length xs = n"
  by (auto simp: pop_raw_def dest: in_set_dropD split: if_splits)

lemma peek_raw_subset: "peek_raw n st = (Inr xs, st') \<Longrightarrow> set xs \<subseteq> set st \<and> length xs = n \<and> st' = st"
  by (auto simp: peek_raw_def dest: in_set_dropD split: if_splits)

lemma pop_items_length: "pop_items n d st = (Inr xs, st') \<Longrightarrow> length xs = n"
  by (auto simp: pop_items_def dest: rcollect_length split: if_splits)

section \<open>Properties\<close>

text \<open>
  The stack rearrangements lose and copy nothing, at every width and on every stack, a
  stack too short included: \<open>OpRot\<close> three times and \<open>OpSwap\<close> twice restore the stack, and
  both keep its multiset of items.
\<close>

theorem rearrange_cycle:
  "snd (rot_items n (snd (rot_items n (snd (rot_items n st))))) = st \<and>
   snd (swap_items n (snd (swap_items n st))) = st \<and>
   mset (snd (rot_items n st)) = mset st \<and> mset (snd (swap_items n st)) = mset st"
  by (simp only: rot_thrice swap_twice rot_items_mset swap_items_mset)

end
