(* ===== verification/Opcodes.thy ===== *)
theory Opcodes
  imports Script_Num
begin

text \<open>
  The opcode table of the script language: the code bytes, the length specification of each
  opcode, its serialisation (\<^verbatim>\<open>crypto/txscript/src/opcodes/macros.rs\<close>), the
  metadata predicates of \<^verbatim>\<open>crypto/txscript/src/opcodes/mod.rs\<close> and the script parser
  \<open>parse_script\<close>.  The lemmas show that parsing and serialising are inverse to each other:
  a script has exactly one reading as a list of opcodes.
\<close>

section \<open>Code bytes\<close>

abbreviation OpFalse :: u8 where "OpFalse \<equiv> 0x00"
abbreviation OpData1 :: u8 where "OpData1 \<equiv> 0x01"
abbreviation OpData20 :: u8 where "OpData20 \<equiv> 0x14"
abbreviation OpData32 :: u8 where "OpData32 \<equiv> 0x20"
abbreviation OpData33 :: u8 where "OpData33 \<equiv> 0x21"
abbreviation OpData75 :: u8 where "OpData75 \<equiv> 0x4b"
abbreviation OpPushData1 :: u8 where "OpPushData1 \<equiv> 0x4c"
abbreviation OpPushData2 :: u8 where "OpPushData2 \<equiv> 0x4d"
abbreviation OpPushData4 :: u8 where "OpPushData4 \<equiv> 0x4e"
abbreviation Op1Negate :: u8 where "Op1Negate \<equiv> 0x4f"
abbreviation OpTrue :: u8 where "OpTrue \<equiv> 0x51"
abbreviation Op16 :: u8 where "Op16 \<equiv> 0x60"
abbreviation OpVerIf :: u8 where "OpVerIf \<equiv> 0x65"
abbreviation OpVerNotIf :: u8 where "OpVerNotIf \<equiv> 0x66"
abbreviation OpReturn :: u8 where "OpReturn \<equiv> 0x6a"
abbreviation OpEqual :: u8 where "OpEqual \<equiv> 0x87"
abbreviation OpCheckMultiSigECDSA :: u8 where "OpCheckMultiSigECDSA \<equiv> 0xa9"
abbreviation OpBlake2b :: u8 where "OpBlake2b \<equiv> 0xaa"
abbreviation OpCheckSigECDSA :: u8 where "OpCheckSigECDSA \<equiv> 0xab"
abbreviation OpCheckSig :: u8 where "OpCheckSig \<equiv> 0xac"
abbreviation OpCheckSigVerify :: u8 where "OpCheckSigVerify \<equiv> 0xad"
abbreviation OpCheckMultiSig :: u8 where "OpCheckMultiSig \<equiv> 0xae"
abbreviation OpCheckMultiSigVerify :: u8 where "OpCheckMultiSigVerify \<equiv> 0xaf"

definition OP_SMALL_INT_MIN_VAL :: u8 where "OP_SMALL_INT_MIN_VAL = 1"
definition OP_SMALL_INT_MAX_VAL :: u8 where "OP_SMALL_INT_MAX_VAL = 16"
definition OP_DATA_MIN_VAL :: u8 where "OP_DATA_MIN_VAL = OpData1"
definition OP_DATA_MAX_VAL :: u8 where "OP_DATA_MAX_VAL = OpData75"
definition OP_1_NEGATE_VAL :: u8 where "OP_1_NEGATE_VAL = 0x81"
definition NO_COST_OPCODE :: u8 where "NO_COST_OPCODE = 0x60"

lemmas op_consts = OP_SMALL_INT_MIN_VAL_def OP_SMALL_INT_MAX_VAL_def OP_DATA_MIN_VAL_def
  OP_DATA_MAX_VAL_def OP_1_NEGATE_VAL_def NO_COST_OPCODE_def

section \<open>Length specification, construction and serialisation\<close>

text \<open>The second parameter of an \<open>opcode\<close> entry: a fixed length (with the code byte) or an integer type.\<close>

datatype op_length = Fixed nat | Var nat  \<comment> \<open>\<open>Var k\<close>: a \<open>k\<close>-byte length prefix\<close>

definition opcode_length :: "u8 \<Rightarrow> op_length" where
  "opcode_length c =
     (if c = OpPushData1 then Var 1
      else if c = OpPushData2 then Var 2
      else if c = OpPushData4 then Var 4
      else if OpData1 \<le> c \<and> c \<le> OpData75 then Fixed (unat c + 1)
      else Fixed 1)"

definition opcode_new :: "u8 \<Rightarrow> bytes \<Rightarrow> (tx_script_error, opcode) result" where
  "opcode_new c d =
     (case opcode_length c of
        Fixed n \<Rightarrow> if length d \<noteq> n - 1 then Inl (MalformedPush (n - 1) (length d)) else Inr (OpCode c d)
      | Var k \<Rightarrow> if length d > 256 ^ k - 1 then Inl (MalformedPush (256 ^ k - 1) (length d)) else Inr (OpCode c d))"

definition opcode_serialize :: "opcode \<Rightarrow> bytes" where
  "opcode_serialize opc =
     (case opcode_length (op_value opc) of
        Fixed n \<Rightarrow> op_value opc # op_data opc
      | Var k \<Rightarrow> op_value opc # le_bytes k (length (op_data opc)) @ op_data opc)"

text \<open>The iterator argument is the list of bytes not yet consumed; it is returned as the second component.\<close>

definition opcode_deserialize :: "u8 \<Rightarrow> bytes \<Rightarrow> (tx_script_error, opcode) result \<times> bytes" where
  "opcode_deserialize c it =
     (case opcode_length c of
        Fixed n \<Rightarrow> (opcode_new c (take (n - 1) it), drop (n - 1) it)
      | Var k \<Rightarrow>
          if length (take k it) = k
          then let len = le_nat (take k it); d = take len (drop k it)
               in (if length d \<noteq> len then Inl (MalformedPush len (length d)) else Inr (OpCode c d),
                   drop len (drop k it))
          else (Inl (MalformedPushSize (take k it)), drop k it))"

definition deserialize_next_opcode ::
    "bytes \<Rightarrow> ((tx_script_error, opcode) result \<times> bytes) option" where
  "deserialize_next_opcode it =
     (case it of [] \<Rightarrow> None | opcode_num # it' \<Rightarrow> Some (opcode_deserialize opcode_num it'))"

lemma opcode_deserialize_rest: "length (snd (opcode_deserialize c it)) \<le> length it"
  by (auto simp: opcode_deserialize_def Let_def split: op_length.split)

text \<open>\<open>script.iter().batching(deserialize_next_opcode)\<close>\<close>

function parse_script :: "bytes \<Rightarrow> (tx_script_error, opcode) result list" where
  "parse_script it =
     (case deserialize_next_opcode it of None \<Rightarrow> [] | Some (r, rest) \<Rightarrow> r # parse_script rest)"
  by pat_completeness auto
termination
proof (relation "measure length")
  fix it p r rest
  assume "deserialize_next_opcode it = Some p" "(r, rest) = p"
  then show "(rest, it) \<in> measure length"
    using opcode_deserialize_rest
    by (cases it) (auto simp: deserialize_next_opcode_def less_Suc_eq_le, metis snd_conv)
qed simp

declare parse_script.simps [simp del]

section \<open>Metadata\<close>

definition is_disabled :: "opcode \<Rightarrow> bool" where
  "is_disabled opc \<longleftrightarrow> op_value opc \<in>
     {0x7e, 0x7f, 0x80, 0x81, 0x83, 0x84, 0x85, 0x86, 0x8d, 0x8e, 0x95, 0x96, 0x97, 0x98, 0x99}"

definition always_illegal :: "opcode \<Rightarrow> bool" where
  "always_illegal opc \<longleftrightarrow> op_value opc = OpVerIf \<or> op_value opc = OpVerNotIf"

definition is_push_opcode :: "opcode \<Rightarrow> bool" where
  "is_push_opcode opc \<longleftrightarrow> op_value opc \<le> NO_COST_OPCODE"

definition is_conditional :: "opcode \<Rightarrow> bool" where
  "is_conditional opc \<longleftrightarrow> 0x63 \<le> op_value opc \<and> op_value opc \<le> 0x68"

definition check_minimal_data_push :: "opcode \<Rightarrow> (tx_script_error, unit) result" where
  "check_minimal_data_push opc =
     (let data_len = length (op_data opc); d0 = op_data opc ! 0; c = op_value opc in
      if data_len = 0 then
        (if c \<noteq> OpFalse then Inl NotMinimalData else Inr ())
      else if data_len = 1 \<and> OP_SMALL_INT_MIN_VAL \<le> d0 \<and> d0 \<le> OP_SMALL_INT_MAX_VAL then
        (if c \<noteq> OpTrue + d0 - 1 then Inl NotMinimalData else Inr ())
      else if data_len = 1 \<and> d0 = OP_1_NEGATE_VAL then
        (if c \<noteq> Op1Negate then Inl NotMinimalData else Inr ())
      else if data_len \<le> unat OP_DATA_MAX_VAL then
        (if unat c \<noteq> data_len then Inl NotMinimalData else Inr ())
      else if data_len \<le> 255 then
        (if c \<noteq> OpPushData1 then Inl NotMinimalData else Inr ())
      else if data_len < 65535 \<and> c \<noteq> OpPushData2 then Inl NotMinimalData
      else Inr ())"

text \<open>\<open>to_small_int\<close>; the result is \<open>None\<close> where the \<open>assert!\<close> of the source panics.\<close>

definition to_small_int :: "opcode \<Rightarrow> u8 option" where
  "to_small_int opc =
     (let v = op_value opc in
      if v = OpFalse then Some 0
      else if OpTrue \<le> v \<and> v < Op16 then Some (v - (OpTrue - 1))
      else None)"

section \<open>Parsing and serialising are inverse\<close>

definition wf_opcode :: "opcode \<Rightarrow> bool" where
  "wf_opcode opc \<longleftrightarrow>
     (case opcode_length (op_value opc) of
        Fixed n \<Rightarrow> length (op_data opc) = n - 1
      | Var k \<Rightarrow> length (op_data opc) < 256 ^ k)"

lemma parse_script_Nil [simp]: "parse_script [] = []"
  by (simp add: parse_script.simps deserialize_next_opcode_def)

lemma parse_script_Cons:
  "parse_script (c # it) =
     fst (opcode_deserialize c it) # parse_script (snd (opcode_deserialize c it))"
  by (subst parse_script.simps) (simp add: deserialize_next_opcode_def split_beta)

lemma parse_script_eq_Nil [simp]: "parse_script s = [] \<longleftrightarrow> s = []"
  by (cases s) (simp_all add: parse_script_Cons)

lemma pow_pred_less: "256 ^ k - Suc 0 < n \<longleftrightarrow> 256 ^ k \<le> (n :: nat)"
proof -
  have "0 < (256 :: nat) ^ k" by simp
  then show ?thesis by (cases "(256 :: nat) ^ k") auto
qed

lemma opcode_new_wf: "opcode_new (op_value opc) (op_data opc) = Inr opc \<longleftrightarrow> wf_opcode opc"
  by (cases opc) (auto simp: opcode_new_def wf_opcode_def pow_pred_less not_le split: op_length.splits)

lemma deserialize_serialize_opcode:
  assumes "wf_opcode opc"
  shows "deserialize_next_opcode (opcode_serialize opc @ rest) = Some (Inr opc, rest)"
  using assms
  by (cases opc)
     (auto simp: deserialize_next_opcode_def opcode_deserialize_def opcode_serialize_def
        wf_opcode_def opcode_new_def Let_def split: op_length.splits)

lemma serialize_deserialize_opcode:
  assumes "deserialize_next_opcode it = Some (Inr opc, rest)"
  shows "it = opcode_serialize opc @ rest \<and> wf_opcode opc"
proof (cases it)
  case Nil
  with assms show ?thesis by (simp add: deserialize_next_opcode_def)
next
  case (Cons c it')
  with assms have d: "opcode_deserialize c it' = (Inr opc, rest)"
    by (simp add: deserialize_next_opcode_def)
  show ?thesis
  proof (cases "opcode_length c")
    case (Fixed n)
    with d have "opc = OpCode c (take (n - 1) it')" "length (take (n - 1) it') = n - 1"
      "rest = drop (n - 1) it'"
      by (auto simp: opcode_deserialize_def opcode_new_def split: if_splits)
    with Fixed Cons show ?thesis
      by (simp add: opcode_serialize_def wf_opcode_def)
  next
    case (Var k)
    let ?len = "le_nat (take k it')"
    from d Var have k: "length (take k it') = k" and l: "length (take ?len (drop k it')) = ?len"
      and opc: "opc = OpCode c (take ?len (drop k it'))" and rest: "rest = drop ?len (drop k it')"
      by (auto simp: opcode_deserialize_def Let_def split: if_splits)
    have "le_bytes k ?len = take k it'"
      using le_bytes_nat [of "take k it'"] k by simp
    moreover have "?len < 256 ^ k"
      using le_nat_bound [of "take k it'"] k by simp
    moreover have "take k it' @ take ?len (drop k it') @ drop ?len (drop k it') = it'"
      by (metis append_take_drop_id)
    ultimately show ?thesis
      using Cons Var l opc rest by (simp add: opcode_serialize_def wf_opcode_def)
  qed
qed

lemma parse_script_serialize:
  "list_all wf_opcode ops \<Longrightarrow> parse_script (concat (map opcode_serialize ops)) = map Inr ops"
proof (induction ops)
  case Nil
  then show ?case by simp
next
  case (Cons opc ops)
  then show ?case
    by (subst parse_script.simps) (simp add: deserialize_serialize_opcode)
qed

lemma serialize_parse_script:
  "parse_script s = map Inr ops \<Longrightarrow> concat (map opcode_serialize ops) = s \<and> list_all wf_opcode ops"
proof (induction ops arbitrary: s)
  case Nil
  then show ?case by simp
next
  case (Cons opc ops)
  then obtain rest where d: "deserialize_next_opcode s = Some (Inr opc, rest)"
    and p: "parse_script rest = map Inr ops"
    by (subst (asm) parse_script.simps) (auto split: option.splits)
  from Cons.IH [OF p] serialize_deserialize_opcode [OF d] show ?case by simp
qed

text \<open>A parse error is always the last item: a short read consumes the rest of the script.\<close>

lemma opcode_deserialize_err: "fst (opcode_deserialize c it) = Inl e \<Longrightarrow> snd (opcode_deserialize c it) = []"
  by (auto simp: opcode_deserialize_def opcode_new_def Let_def split: op_length.splits if_splits)

lemma parse_script_prefix:
  obtains ops where "parse_script s = map Inr ops"
  | ops e where "parse_script s = map Inr ops @ [Inl e]"
proof -
  have "(\<exists>ops. parse_script s = map Inr ops) \<or> (\<exists>ops e. parse_script s = map Inr ops @ [Inl e])"
  proof (induction "length s" arbitrary: s rule: less_induct)
    case less
    show ?case
    proof (cases s)
      case Nil
      then have "parse_script s = map Inr []" by simp
      then show ?thesis by blast
    next
      case (Cons c it)
      let ?r = "fst (opcode_deserialize c it)" and ?rest = "snd (opcode_deserialize c it)"
      have p: "parse_script s = ?r # parse_script ?rest" by (simp add: Cons parse_script_Cons)
      show ?thesis
      proof (cases ?r)
        case (Inl e)
        then have "parse_script s = map Inr [] @ [Inl e]"
          using p opcode_deserialize_err by simp
        then show ?thesis by blast
      next
        case (Inr opc)
        have "length ?rest < length s"
          using opcode_deserialize_rest [of c it] Cons by simp
        from less [OF this] show ?thesis
        proof (elim disjE exE)
          fix ops assume "parse_script ?rest = map Inr ops"
          then have "parse_script s = map Inr (opc # ops)" using p Inr by simp
          then show ?thesis by blast
        next
          fix ops e assume "parse_script ?rest = map Inr ops @ [Inl e]"
          then have "parse_script s = map Inr (opc # ops) @ [Inl e]" using p Inr by simp
          then show ?thesis by blast
        qed
      qed
    qed
  qed
  then show thesis using that by blast
qed

section \<open>Properties\<close>

text \<open>
  C36: Parsing a script and serialising its opcodes are inverse to each other: a script parses
  without error to \<open>ops\<close> exactly when \<open>ops\<close> are opcodes that can be built and the script is
  the concatenation of their serialisations.
\<close>

theorem script_roundtrip:
  "parse_script s = map Inr ops \<longleftrightarrow> list_all wf_opcode ops \<and> s = concat (map opcode_serialize ops)"
  using parse_script_serialize [of ops] serialize_parse_script [of s ops] by auto

end
