(* ===== verification/Tx_Types.thy ===== *)
theory Tx_Types
  imports Prelude "HOL-Library.Monad_Syntax"
begin

text \<open>
  Transactions (\<^verbatim>\<open>consensus/core/src/tx.rs\<close>, \<^verbatim>\<open>tx/script_public_key.rs\<close>,
  \<^verbatim>\<open>subnets.rs\<close>) and the payload codec of flash transactions, the nonce-less transfers
  of the account model.  Hashes are 32-byte strings.  The hash function \<open>sha3\<close> is a parameter.
\<close>

section \<open>Byte strings\<close>

definition ascii :: "string \<Rightarrow> bytes" where
  "ascii s = map (\<lambda>c. word_of_nat (of_char c)) s"

text \<open>The slice \<open>p[off..off + n]\<close> behind the bounds check \<open>if off + n > p.len() { return None; }\<close>.\<close>

definition read_at :: "bytes \<Rightarrow> nat \<Rightarrow> nat \<Rightarrow> bytes option" where
  "read_at p off n = (if off + n > length p then None else Some (take n (drop off p)))"

lemma read_at_skip [simp]: "read_at (xs @ ys) (length xs + k) n = read_at ys k n"
  by (simp add: read_at_def)

lemma read_at_skip_num:
  "length xs \<le> off \<Longrightarrow> read_at (xs @ ys) off n = read_at ys (off - length xs) n"
  by (auto simp: read_at_def)

lemma read_at_here [simp]: "read_at (xs @ ys) 0 (length xs) = Some xs"
  by (simp add: read_at_def)

lemma read_at_here_len: "length xs = n \<Longrightarrow> read_at (xs @ ys) 0 n = Some xs"
  by (simp add: read_at_def)

lemma read_at_here3:
  "length xs + length ys + length zs = n \<Longrightarrow> read_at (xs @ ys @ zs @ rest) 0 n = Some (xs @ ys @ zs)"
  by (auto simp: read_at_def)

lemma read_at_all [simp]: "read_at xs 0 (length xs) = Some xs"
  by (simp add: read_at_def)

lemma read_at_length: "read_at p off n = Some xs \<Longrightarrow> length xs = n"
  by (auto simp: read_at_def split: if_splits)

section \<open>Transactions\<close>

record script_public_key =
  spk_version :: u16
  spk_script :: bytes

record registry_unit =
  ru_amount :: u64
  ru_script_public_key :: script_public_key
  ru_block_daa_score :: u64
  ru_is_coinbase :: bool

record registry_ref =
  ref_transaction_id :: bytes
  ref_index :: u32

record transaction_input =
  previous_outpoint :: registry_ref
  signature_script :: bytes
  sequence :: u64
  sig_op_count :: u8

record transaction_output =
  out_value :: u64
  out_script_public_key :: script_public_key

text \<open>The field \<open>id\<close>, which caches the hash of the other fields, is not part of the model.\<close>

record transaction =
  tx_version :: u16
  tx_inputs :: "transaction_input list"
  tx_outputs :: "transaction_output list"
  tx_lock_time :: u64
  tx_subnetwork_id :: bytes
  tx_gas :: u64
  tx_payload :: bytes
  tx_mass :: u64

definition transaction_new ::
    "u16 \<Rightarrow> transaction_input list \<Rightarrow> transaction_output list \<Rightarrow> u64 \<Rightarrow> bytes \<Rightarrow> u64 \<Rightarrow> bytes \<Rightarrow> transaction" where
  "transaction_new version inputs outputs lock_time subnetwork_id gas payload =
     \<lparr> tx_version = version, tx_inputs = inputs, tx_outputs = outputs, tx_lock_time = lock_time,
       tx_subnetwork_id = subnetwork_id, tx_gas = gas, tx_payload = payload, tx_mass = 0 \<rparr>"

definition subnetwork_from_byte :: "u8 \<Rightarrow> bytes" where
  "subnetwork_from_byte b = b # replicate 19 0"

definition SUBNETWORK_ID_NATIVE :: bytes where "SUBNETWORK_ID_NATIVE = subnetwork_from_byte 0"
definition SUBNETWORK_ID_COINBASE :: bytes where "SUBNETWORK_ID_COINBASE = subnetwork_from_byte 1"

definition is_coinbase :: "transaction \<Rightarrow> bool" where
  "is_coinbase tx \<longleftrightarrow> tx_subnetwork_id tx = SUBNETWORK_ID_COINBASE"

definition is_native :: "bytes \<Rightarrow> bool" where
  "is_native sid \<longleftrightarrow> sid = SUBNETWORK_ID_NATIVE"

text \<open>
  \<open>PopulatedTransaction\<close>: a transaction with one registry unit per input.  The constructor
  asserts that the two lists have the same length.
\<close>

record populated_transaction =
  pop_tx :: transaction
  pop_entries :: "registry_unit list"

definition populated_transaction_new :: "transaction \<Rightarrow> registry_unit list \<Rightarrow> populated_transaction option" where
  "populated_transaction_new tx entries =
     (if length (tx_inputs tx) = length entries
      then Some \<lparr> pop_tx = tx, pop_entries = entries \<rparr> else None)"

definition registry_unit_at :: "populated_transaction \<Rightarrow> nat \<Rightarrow> registry_unit option" where
  "registry_unit_at ptx i = (if i < length (pop_entries ptx) then Some (pop_entries ptx ! i) else None)"

definition populated_inputs :: "populated_transaction \<Rightarrow> (transaction_input \<times> registry_unit) list" where
  "populated_inputs ptx =
     map (\<lambda>i. (tx_inputs (pop_tx ptx) ! i, pop_entries ptx ! i)) [0..<length (tx_inputs (pop_tx ptx))]"

section \<open>Flash transactions\<close>

record flash_transaction =
  fl_version :: u16
  fl_pubkey :: bytes
  fl_recipient :: bytes
  fl_amount :: u64
  fl_fee :: u64
  fl_expiry_daa_score :: u64
  fl_salt :: bytes
  fl_signature :: bytes

text \<open>The fields both digests are fed with, in the order of the \<open>update\<close> calls.\<close>

definition flash_preimage :: "flash_transaction \<Rightarrow> bytes" where
  "flash_preimage f =
     u16_to_le (fl_version f) @ fl_pubkey f @ fl_recipient f @ u64_to_le (fl_amount f) @
     u64_to_le (fl_fee f) @ u64_to_le (fl_expiry_daa_score f) @ fl_salt f"

definition flash_id :: "(bytes \<Rightarrow> bytes) \<Rightarrow> flash_transaction \<Rightarrow> bytes" where
  "flash_id sha3 f = sha3 (ascii ''SAHYADRI_FLASH_ID_V1'' @ flash_preimage f)"

definition flash_sighash :: "(bytes \<Rightarrow> bytes) \<Rightarrow> flash_transaction \<Rightarrow> bytes" where
  "flash_sighash sha3 f = sha3 (ascii ''SAHYADRI_FLASH_TX_V1'' @ flash_preimage f)"

definition PUBKEY_SIZE :: nat where "PUBKEY_SIZE = 1952"
definition SIG_SIZE :: nat where "SIG_SIZE = 3309"

definition FLASH_MAGIC :: bytes where
  "FLASH_MAGIC = ascii ''FLASH_V1''"

definition to_transaction :: "flash_transaction \<Rightarrow> transaction" where
  "to_transaction f =
     transaction_new 0 [] [] 0 (replicate 20 0) 0
       (FLASH_MAGIC @ u16_to_le (fl_version f) @
        u32_to_le (word_of_nat (length (fl_pubkey f))) @ fl_pubkey f @
        u32_to_le (word_of_nat (length (fl_recipient f))) @ fl_recipient f @
        u64_to_le (fl_amount f) @ u64_to_le (fl_fee f) @ u64_to_le (fl_expiry_daa_score f) @
        fl_salt f @
        u32_to_le (word_of_nat (length (fl_signature f))) @ fl_signature f)"

definition from_transaction :: "transaction \<Rightarrow> flash_transaction option" where
  "from_transaction tx =
     (let p = tx_payload tx in
      if length p < 8 \<or> take 8 p \<noteq> FLASH_MAGIC then None
      else do {
        let off = 8;
        version \<leftarrow> read_at p off 2;
        let off = off + 2;
        pk_len \<leftarrow> read_at p off 4;
        let off = off + 4;
        let pk_len = unat (u32_from_le pk_len);
        pubkey \<leftarrow> read_at p off pk_len;
        let off = off + pk_len;
        rc_len \<leftarrow> read_at p off 4;
        let off = off + 4;
        let rc_len = unat (u32_from_le rc_len);
        recipient \<leftarrow> read_at p off rc_len;
        let off = off + rc_len;
        numbers \<leftarrow> read_at p off 24;
        let amount = u64_from_le (take 8 numbers);
        let fee = u64_from_le (take 8 (drop 8 numbers));
        let expiry = u64_from_le (drop 16 numbers);
        let off = off + 24;
        salt \<leftarrow> read_at p off 16;
        let off = off + 16;
        sig_len \<leftarrow> read_at p off 4;
        let off = off + 4;
        let sig_len = unat (u32_from_le sig_len);
        signature \<leftarrow> read_at p off sig_len;
        Some \<lparr> fl_version = u16_from_le version, fl_pubkey = pubkey, fl_recipient = recipient,
               fl_amount = amount, fl_fee = fee, fl_expiry_daa_score = expiry,
               fl_salt = salt, fl_signature = signature \<rparr>
      })"

section \<open>The flash codec\<close>

text \<open>Values a \<open>FlashTransaction\<close> can have: a 16-byte salt, and lengths that fit the \<open>u32\<close> prefixes.\<close>

definition wf_flash :: "flash_transaction \<Rightarrow> bool" where
  "wf_flash f \<longleftrightarrow> length (fl_salt f) = 16 \<and> length (fl_pubkey f) < 2 ^ 32 \<and>
     length (fl_recipient f) < 2 ^ 32 \<and> length (fl_signature f) < 2 ^ 32"

lemma length_FLASH_MAGIC [simp]: "length FLASH_MAGIC = 8"
  by (simp add: FLASH_MAGIC_def ascii_def)

lemma unat_u32_of_nat [simp]: "n < 2 ^ 32 \<Longrightarrow> unat (word_of_nat n :: u32) = n"
  by (simp add: unat_of_nat)

lemma from_to_transaction_trailing:
  assumes "wf_flash f"
  shows "from_transaction ((to_transaction f)\<lparr>tx_payload := tx_payload (to_transaction f) @ junk\<rparr>) = Some f"
  using assms
  by (simp add: from_transaction_def to_transaction_def transaction_new_def wf_flash_def
      read_at_skip_num read_at_here_len read_at_here3 Let_def add.assoc)

lemma from_to_transaction: "wf_flash f \<Longrightarrow> from_transaction (to_transaction f) = Some f"
  using from_to_transaction_trailing [of f "[]"] by simp

text \<open>Decoding yields well-formed values only, and what it read is a prefix of the payload.\<close>

lemma from_transaction_wf: "from_transaction tx = Some f \<Longrightarrow> wf_flash f"
  by (auto simp: from_transaction_def wf_flash_def Let_def bind_eq_Some_conv
      dest!: read_at_length split: if_splits)

lemma to_transaction_inj:
  assumes "wf_flash f" "wf_flash g" "tx_payload (to_transaction f) = tx_payload (to_transaction g)"
  shows "f = g"
proof -
  have "from_transaction (to_transaction f) = from_transaction (to_transaction g)"
    using assms(3) by (simp add: from_transaction_def)
  with assms(1,2) show ?thesis by (simp add: from_to_transaction)
qed

text \<open>
  The preimage of \<open>flash_id\<close> and \<open>flash_sighash\<close> has no length fields: bytes may be
  moved between the public key and the recipient without changing either digest.
\<close>

lemma flash_preimage_shift:
  "flash_preimage (f\<lparr>fl_pubkey := pk @ x, fl_recipient := rc\<rparr>) =
   flash_preimage (f\<lparr>fl_pubkey := pk, fl_recipient := x @ rc\<rparr>)"
  by (simp add: flash_preimage_def)

section \<open>Properties\<close>

text \<open>
  A flash transaction survives its encoding in an ordinary transaction, and two flash
  transactions with the same payload are equal; bytes appended to the payload are ignored.
\<close>

theorem flash_roundtrip:
  assumes "wf_flash f" "wf_flash g"
  shows "from_transaction (to_transaction f) = Some f \<and>
    (tx_payload (to_transaction f) = tx_payload (to_transaction g) \<longrightarrow> f = g) \<and>
    from_transaction ((to_transaction f)\<lparr>tx_payload := tx_payload (to_transaction f) @ junk\<rparr>) = Some f"
  using from_to_transaction [OF assms(1)] to_transaction_inj [OF assms] from_to_transaction_trailing [OF assms(1)] by auto

theorem flash_roundtrip_witness:
  "let f = \<lparr>fl_version = 1, fl_pubkey = [1, 2], fl_recipient = [3], fl_amount = 500, fl_fee = 7,
            fl_expiry_daa_score = 9, fl_salt = replicate 16 0, fl_signature = [4]\<rparr>
   in from_transaction (to_transaction f) = Some f"
  using flash_roundtrip [of "\<lparr>fl_version = 1, fl_pubkey = [1, 2], fl_recipient = [3], fl_amount = 500, fl_fee = 7,
            fl_expiry_daa_score = 9, fl_salt = replicate 16 0, fl_signature = [4]\<rparr>"
           "\<lparr>fl_version = 1, fl_pubkey = [1, 2], fl_recipient = [3], fl_amount = 500, fl_fee = 7,
            fl_expiry_daa_score = 9, fl_salt = replicate 16 0, fl_signature = [4]\<rparr>"]
  by (simp add: wf_flash_def Let_def)


end
