(* ===== verification/Codec.thy ===== *)
theory Codec
  imports Prelude
begin

text \<open>
  The contract of the self-delimiting encodings that the repository concatenates before it
  hashes them: two encodings with arbitrary continuations are equal only if the encoded
  values and the continuations are.  Fixed-width encodings give the contract at once, and
  under it the concatenation of a list of encodings determines the list.
\<close>

locale prefix_code =
  fixes enc :: "'a \<Rightarrow> bytes"
    and wf :: "'a \<Rightarrow> bool"
  assumes enc_cancel: "wf x \<Longrightarrow> wf y \<Longrightarrow> enc x @ r = enc y @ s \<Longrightarrow> x = y \<and> r = s"
    and enc_nonempty: "wf x \<Longrightarrow> enc x \<noteq> []"
begin

lemma enc_inj: "wf x \<Longrightarrow> wf y \<Longrightarrow> enc x = enc y \<Longrightarrow> x = y"
  using enc_cancel [of x y "[]" "[]"] by simp

lemma concat_inj:
  "list_all wf xs \<Longrightarrow> list_all wf ys \<Longrightarrow> concat (map enc xs) = concat (map enc ys) \<Longrightarrow> xs = ys"
proof (induction xs arbitrary: ys)
  case Nil
  then show ?case by (cases ys) (auto dest: enc_nonempty)
next
  case (Cons x xs)
  then obtain y ys' where ys: "ys = y # ys'"
    by (cases ys) (auto dest: enc_nonempty)
  have "x = y \<and> concat (map enc xs) = concat (map enc ys')"
    using Cons.prems enc_cancel [of x y] by (simp add: ys)
  with Cons ys show ?case by simp
qed

end

locale fixed_width_code =
  fixes enc :: "'a \<Rightarrow> bytes"
    and wf :: "'a \<Rightarrow> bool"
    and width :: nat
  assumes enc_width: "wf x \<Longrightarrow> length (enc x) = width"
    and width_pos: "0 < width"
    and enc_injective: "wf x \<Longrightarrow> wf y \<Longrightarrow> enc x = enc y \<Longrightarrow> x = y"

sublocale fixed_width_code \<subseteq> prefix_code
proof
  fix x y r s
  assume "wf x" "wf y" and eq: "enc x @ r = enc y @ s"
  then have "length (enc x) = length (enc y)" by (simp add: enc_width)
  with eq have "enc x = enc y \<and> r = s" by simp
  with \<open>wf x\<close> \<open>wf y\<close> show "x = y \<and> r = s" by (blast intro: enc_injective)
next
  fix x assume "wf x"
  then have "0 < length (enc x)" by (simp add: enc_width width_pos)
  then show "enc x \<noteq> []" by auto
qed

interpretation u64_code: fixed_width_code u64_to_le "\<lambda>_. True" 8
  by unfold_locales simp_all

interpretation u8_code: fixed_width_code "\<lambda>b :: u8. [b]" "\<lambda>_. True" 1
  by unfold_locales simp_all

section \<open>Length-prefixed bytes\<close>

text \<open>\<open>HasherExtensions::write_var_bytes\<close>: the length as a little-endian \<open>u64\<close>, then the bytes.\<close>

definition write_var_bytes :: "bytes \<Rightarrow> bytes" where
  "write_var_bytes bs = u64_to_le (word_of_nat (length bs)) @ bs"

definition addressable :: "bytes \<Rightarrow> bool" where
  "addressable bs \<longleftrightarrow> length bs < 2 ^ 64"

lemma word_of_nat_u64_inj:
  "a < 2 ^ 64 \<Longrightarrow> b < 2 ^ 64 \<Longrightarrow> (word_of_nat a :: u64) = word_of_nat b \<Longrightarrow> a = b"
  by (drule arg_cong [where f = unat]) (simp add: unsigned_of_nat take_bit_nat_eq_self)

interpretation var_bytes: prefix_code write_var_bytes addressable
proof
  fix x y r s
  assume "addressable x" "addressable y" and eq: "write_var_bytes x @ r = write_var_bytes y @ s"
  then have "word_of_nat (length x) = (word_of_nat (length y) :: u64) \<and> x @ r = y @ s"
    by (simp add: write_var_bytes_def)
  moreover from this have "length x = length y"
    using \<open>addressable x\<close> \<open>addressable y\<close> word_of_nat_u64_inj by (simp add: addressable_def)
  ultimately show "x = y \<and> r = s" by simp
next
  fix x show "write_var_bytes x \<noteq> []"
    using u64_code.enc_nonempty by (simp add: write_var_bytes_def)
qed

end
