(* ===== verification/Sighash.thy ===== *)
theory Sighash
  imports Tx_Types Codec
begin

text \<open>
  Signature hashes: the hash types of
  \<^verbatim>\<open>consensus/core/src/hashing/sighash_type.rs\<close>, the domain-separated hashers of
  \<^verbatim>\<open>crypto/hashes/src/hashers.rs\<close> over a parameter \<open>sha3\<close> for SHA3-256, and the
  digest a signature commits to, with the per-transaction memo of partial hashes
  (\<^verbatim>\<open>consensus/core/src/hashing/sighash.rs\<close>).  The lemmas show that the memo never
  changes a digest and that the hashed byte string determines every field it covers.
\<close>

section \<open>Hash types\<close>

definition SIG_HASH_ALL :: u8 where "SIG_HASH_ALL = 1"
definition SIG_HASH_NONE :: u8 where "SIG_HASH_NONE = 2"
definition SIG_HASH_SINGLE :: u8 where "SIG_HASH_SINGLE = 4"
definition SIG_HASH_ANY_ONE_CAN_PAY :: u8 where "SIG_HASH_ANY_ONE_CAN_PAY = 0x80"
definition SIG_HASH_MASK :: u8 where "SIG_HASH_MASK = 7"

lemmas sig_hash_consts = SIG_HASH_ALL_def SIG_HASH_NONE_def SIG_HASH_SINGLE_def
  SIG_HASH_ANY_ONE_CAN_PAY_def SIG_HASH_MASK_def

definition ALLOWED_SIG_HASH_TYPES_VALUES :: "u8 list" where
  "ALLOWED_SIG_HASH_TYPES_VALUES =
     [SIG_HASH_ALL, SIG_HASH_NONE, SIG_HASH_SINGLE,
      SIG_HASH_ALL OR SIG_HASH_ANY_ONE_CAN_PAY,
      SIG_HASH_NONE OR SIG_HASH_ANY_ONE_CAN_PAY,
      SIG_HASH_SINGLE OR SIG_HASH_ANY_ONE_CAN_PAY]"

definition is_sighash_all :: "u8 \<Rightarrow> bool" where
  "is_sighash_all t \<longleftrightarrow> t AND SIG_HASH_MASK = SIG_HASH_ALL"

definition is_sighash_none :: "u8 \<Rightarrow> bool" where
  "is_sighash_none t \<longleftrightarrow> t AND SIG_HASH_MASK = SIG_HASH_NONE"

definition is_sighash_single :: "u8 \<Rightarrow> bool" where
  "is_sighash_single t \<longleftrightarrow> t AND SIG_HASH_MASK = SIG_HASH_SINGLE"

definition is_sighash_anyone_can_pay :: "u8 \<Rightarrow> bool" where
  "is_sighash_anyone_can_pay t \<longleftrightarrow> t AND SIG_HASH_ANY_ONE_CAN_PAY = SIG_HASH_ANY_ONE_CAN_PAY"

definition sighash_from_u8 :: "u8 \<Rightarrow> u8 option" where
  "sighash_from_u8 val = (if val \<in> set ALLOWED_SIG_HASH_TYPES_VALUES then Some val else None)"

section \<open>Domain-separated hashers\<close>

text \<open>\<open>sha3_hasher!\<close>: the state starts with the digest of the domain separator.\<close>

definition sha3_hasher :: "(bytes \<Rightarrow> bytes) \<Rightarrow> string \<Rightarrow> bytes \<Rightarrow> bytes" where
  "sha3_hasher sha3 domain_sep data = sha3 (sha3 (ascii domain_sep) @ data)"

definition TransactionSigningHash :: "(bytes \<Rightarrow> bytes) \<Rightarrow> bytes \<Rightarrow> bytes" where
  "TransactionSigningHash sha3 = sha3_hasher sha3 ''TransactionSigningHash''"

definition ZERO_HASH :: bytes where "ZERO_HASH = replicate 32 0"

section \<open>Reused values\<close>

record reused_values =
  rv_previous_outputs_hash :: "bytes option"
  rv_sequences_hash :: "bytes option"
  rv_sig_op_counts_hash :: "bytes option"
  rv_outputs_hash :: "bytes option"
  rv_payload_hash :: "bytes option"

definition reused_values_new :: reused_values where
  "reused_values_new =
     \<lparr> rv_previous_outputs_hash = None, rv_sequences_hash = None, rv_sig_op_counts_hash = None,
       rv_outputs_hash = None, rv_payload_hash = None \<rparr>"

definition reuse_previous_outputs_hash :: "bytes \<Rightarrow> reused_values \<Rightarrow> bytes \<times> reused_values" where
  "reuse_previous_outputs_hash h rv =
     (case rv_previous_outputs_hash rv of
        Some v \<Rightarrow> (v, rv) | None \<Rightarrow> (h, rv\<lparr>rv_previous_outputs_hash := Some h\<rparr>))"

definition reuse_sequences_hash :: "bytes \<Rightarrow> reused_values \<Rightarrow> bytes \<times> reused_values" where
  "reuse_sequences_hash h rv =
     (case rv_sequences_hash rv of
        Some v \<Rightarrow> (v, rv) | None \<Rightarrow> (h, rv\<lparr>rv_sequences_hash := Some h\<rparr>))"

definition reuse_sig_op_counts_hash :: "bytes \<Rightarrow> reused_values \<Rightarrow> bytes \<times> reused_values" where
  "reuse_sig_op_counts_hash h rv =
     (case rv_sig_op_counts_hash rv of
        Some v \<Rightarrow> (v, rv) | None \<Rightarrow> (h, rv\<lparr>rv_sig_op_counts_hash := Some h\<rparr>))"

definition reuse_outputs_hash :: "bytes \<Rightarrow> reused_values \<Rightarrow> bytes \<times> reused_values" where
  "reuse_outputs_hash h rv =
     (case rv_outputs_hash rv of
        Some v \<Rightarrow> (v, rv) | None \<Rightarrow> (h, rv\<lparr>rv_outputs_hash := Some h\<rparr>))"

definition reuse_payload_hash :: "bytes \<Rightarrow> reused_values \<Rightarrow> bytes \<times> reused_values" where
  "reuse_payload_hash h rv =
     (case rv_payload_hash rv of
        Some v \<Rightarrow> (v, rv) | None \<Rightarrow> (h, rv\<lparr>rv_payload_hash := Some h\<rparr>))"

section \<open>What is written to the hasher\<close>

definition hash_outpoint :: "registry_ref \<Rightarrow> bytes" where
  "hash_outpoint outpoint = ref_transaction_id outpoint @ u32_to_le (ref_index outpoint)"

definition hash_script_public_key :: "script_public_key \<Rightarrow> bytes" where
  "hash_script_public_key spk = u16_to_le (spk_version spk) @ write_var_bytes (spk_script spk)"

definition hash_output :: "transaction_output \<Rightarrow> bytes" where
  "hash_output out = u64_to_le (out_value out) @ hash_script_public_key (out_script_public_key out)"

section \<open>Partial hashes\<close>

definition previous_outputs_hash ::
    "(bytes \<Rightarrow> bytes) \<Rightarrow> transaction \<Rightarrow> u8 \<Rightarrow> reused_values \<Rightarrow> bytes \<times> reused_values" where
  "previous_outputs_hash sha3 tx hash_type rv =
     (if is_sighash_anyone_can_pay hash_type then (ZERO_HASH, rv)
      else reuse_previous_outputs_hash
        (TransactionSigningHash sha3
          (concat (map (\<lambda>input. hash_outpoint (previous_outpoint input)) (tx_inputs tx)))) rv)"

definition sequences_hash ::
    "(bytes \<Rightarrow> bytes) \<Rightarrow> transaction \<Rightarrow> u8 \<Rightarrow> reused_values \<Rightarrow> bytes \<times> reused_values" where
  "sequences_hash sha3 tx hash_type rv =
     (if is_sighash_single hash_type \<or> is_sighash_anyone_can_pay hash_type \<or> is_sighash_none hash_type
      then (ZERO_HASH, rv)
      else reuse_sequences_hash
        (TransactionSigningHash sha3 (concat (map (\<lambda>input. u64_to_le (sequence input)) (tx_inputs tx)))) rv)"

definition sig_op_counts_hash ::
    "(bytes \<Rightarrow> bytes) \<Rightarrow> transaction \<Rightarrow> u8 \<Rightarrow> reused_values \<Rightarrow> bytes \<times> reused_values" where
  "sig_op_counts_hash sha3 tx hash_type rv =
     (if is_sighash_anyone_can_pay hash_type then (ZERO_HASH, rv)
      else reuse_sig_op_counts_hash
        (TransactionSigningHash sha3 (concat (map (\<lambda>input. [sig_op_count input]) (tx_inputs tx)))) rv)"

definition payload_hash ::
    "(bytes \<Rightarrow> bytes) \<Rightarrow> transaction \<Rightarrow> reused_values \<Rightarrow> bytes \<times> reused_values" where
  "payload_hash sha3 tx rv =
     (if is_native (tx_subnetwork_id tx) \<and> tx_payload tx = [] then (ZERO_HASH, rv)
      else reuse_payload_hash (TransactionSigningHash sha3 (write_var_bytes (tx_payload tx))) rv)"

definition outputs_hash ::
    "(bytes \<Rightarrow> bytes) \<Rightarrow> transaction \<Rightarrow> u8 \<Rightarrow> nat \<Rightarrow> reused_values \<Rightarrow> bytes \<times> reused_values" where
  "outputs_hash sha3 tx hash_type input_index rv =
     (if is_sighash_none hash_type then (ZERO_HASH, rv)
      else if is_sighash_single hash_type then
        (if input_index \<ge> length (tx_outputs tx) then (ZERO_HASH, rv)
         else (TransactionSigningHash sha3 (hash_output (tx_outputs tx ! input_index)), rv))
      else reuse_outputs_hash
        (TransactionSigningHash sha3 (concat (map hash_output (tx_outputs tx)))) rv)"

section \<open>The digest\<close>

text \<open>
  \<open>populated_input\<close> panics when the index is out of range or the entry is missing;
  \<open>None\<close> stands for the panic.
\<close>

definition populated_input :: "populated_transaction \<Rightarrow> nat \<Rightarrow> (transaction_input \<times> registry_unit) option" where
  "populated_input ptx i =
     (if i < length (tx_inputs (pop_tx ptx))
      then map_option (\<lambda>entry. (tx_inputs (pop_tx ptx) ! i, entry)) (registry_unit_at ptx i)
      else None)"

definition calc_signature_hash ::
    "(bytes \<Rightarrow> bytes) \<Rightarrow> populated_transaction \<Rightarrow> nat \<Rightarrow> u8 \<Rightarrow> reused_values \<Rightarrow>
     (bytes \<times> reused_values) option" where
  "calc_signature_hash sha3 ptx input_index hash_type rv =
     (case populated_input ptx input_index of
        None \<Rightarrow> None
      | Some (input, entry) \<Rightarrow>
          (let tx = pop_tx ptx;
               (prev_h, rv) = previous_outputs_hash sha3 tx hash_type rv;
               (seq_h, rv) = sequences_hash sha3 tx hash_type rv;
               (ops_h, rv) = sig_op_counts_hash sha3 tx hash_type rv;
               (out_h, rv) = outputs_hash sha3 tx hash_type input_index rv;
               (pay_h, rv) = payload_hash sha3 tx rv
           in Some (TransactionSigningHash sha3
                (u16_to_le (tx_version tx) @ prev_h @ seq_h @ ops_h @
                 hash_outpoint (previous_outpoint input) @
                 hash_script_public_key (ru_script_public_key entry) @
                 u64_to_le (ru_amount entry) @ u64_to_le (sequence input) @ [sig_op_count input] @
                 out_h @ u64_to_le (tx_lock_time tx) @ tx_subnetwork_id tx @
                 u64_to_le (tx_gas tx) @ pay_h @ [hash_type]), rv)))"

section \<open>The memo is transparent\<close>

definition reused_ok :: "(bytes \<Rightarrow> bytes) \<Rightarrow> transaction \<Rightarrow> reused_values \<Rightarrow> bool" where
  "reused_ok sha3 tx rv \<longleftrightarrow>
     (\<forall>h. rv_previous_outputs_hash rv = Some h \<longrightarrow>
        h = TransactionSigningHash sha3 (concat (map (\<lambda>input. hash_outpoint (previous_outpoint input)) (tx_inputs tx)))) \<and>
     (\<forall>h. rv_sequences_hash rv = Some h \<longrightarrow>
        h = TransactionSigningHash sha3 (concat (map (\<lambda>input. u64_to_le (sequence input)) (tx_inputs tx)))) \<and>
     (\<forall>h. rv_sig_op_counts_hash rv = Some h \<longrightarrow>
        h = TransactionSigningHash sha3 (concat (map (\<lambda>input. [sig_op_count input]) (tx_inputs tx)))) \<and>
     (\<forall>h. rv_outputs_hash rv = Some h \<longrightarrow>
        h = TransactionSigningHash sha3 (concat (map hash_output (tx_outputs tx)))) \<and>
     (\<forall>h. rv_payload_hash rv = Some h \<longrightarrow>
        h = TransactionSigningHash sha3 (write_var_bytes (tx_payload tx)))"

lemma reused_ok_new [simp]: "reused_ok sha3 tx reused_values_new"
  by (simp add: reused_ok_def reused_values_new_def)

text \<open>Each partial hash: the value does not depend on the memo, and the memo stays valid.\<close>

lemma memo_previous_outputs:
  assumes "reused_ok sha3 tx rv"
  shows "\<exists>rv'. previous_outputs_hash sha3 tx ht rv = (fst (previous_outputs_hash sha3 tx ht reused_values_new), rv') \<and>
    reused_ok sha3 tx rv'"
  using assms
  by (auto simp: previous_outputs_hash_def reuse_previous_outputs_hash_def reused_values_new_def reused_ok_def split: option.split)

lemma memo_sequences:
  assumes "reused_ok sha3 tx rv"
  shows "\<exists>rv'. sequences_hash sha3 tx ht rv = (fst (sequences_hash sha3 tx ht reused_values_new), rv') \<and>
    reused_ok sha3 tx rv'"
  using assms
  by (auto simp: sequences_hash_def reuse_sequences_hash_def reused_values_new_def reused_ok_def split: option.split)

lemma memo_sig_op_counts:
  assumes "reused_ok sha3 tx rv"
  shows "\<exists>rv'. sig_op_counts_hash sha3 tx ht rv = (fst (sig_op_counts_hash sha3 tx ht reused_values_new), rv') \<and>
    reused_ok sha3 tx rv'"
  using assms
  by (auto simp: sig_op_counts_hash_def reuse_sig_op_counts_hash_def reused_values_new_def reused_ok_def split: option.split)

lemma memo_outputs:
  assumes "reused_ok sha3 tx rv"
  shows "\<exists>rv'. outputs_hash sha3 tx ht i rv = (fst (outputs_hash sha3 tx ht i reused_values_new), rv') \<and>
    reused_ok sha3 tx rv'"
  using assms
  by (auto simp: outputs_hash_def reuse_outputs_hash_def reused_values_new_def reused_ok_def split: option.split)

lemma memo_payload:
  assumes "reused_ok sha3 tx rv"
  shows "\<exists>rv'. payload_hash sha3 tx rv = (fst (payload_hash sha3 tx reused_values_new), rv') \<and>
    reused_ok sha3 tx rv'"
  using assms
  by (auto simp: payload_hash_def reuse_payload_hash_def reused_values_new_def reused_ok_def split: option.split)

text \<open>The byte string a signature commits to, written without the memo.\<close>

definition sighash_message ::
    "(bytes \<Rightarrow> bytes) \<Rightarrow> transaction \<Rightarrow> nat \<Rightarrow> u8 \<Rightarrow> transaction_input \<Rightarrow> registry_unit \<Rightarrow> bytes" where
  "sighash_message sha3 tx i ht input entry =
     u16_to_le (tx_version tx) @
     fst (previous_outputs_hash sha3 tx ht reused_values_new) @
     fst (sequences_hash sha3 tx ht reused_values_new) @
     fst (sig_op_counts_hash sha3 tx ht reused_values_new) @
     hash_outpoint (previous_outpoint input) @
     hash_script_public_key (ru_script_public_key entry) @
     u64_to_le (ru_amount entry) @ u64_to_le (sequence input) @ [sig_op_count input] @
     fst (outputs_hash sha3 tx ht i reused_values_new) @
     u64_to_le (tx_lock_time tx) @ tx_subnetwork_id tx @ u64_to_le (tx_gas tx) @
     fst (payload_hash sha3 tx reused_values_new) @ [ht]"

lemma calc_signature_hash_memo:
  assumes ok: "reused_ok sha3 (pop_tx ptx) rv" and pop: "populated_input ptx i = Some (input, entry)"
  obtains rv' where
    "calc_signature_hash sha3 ptx i ht rv =
       Some (TransactionSigningHash sha3 (sighash_message sha3 (pop_tx ptx) i ht input entry), rv')"
    "reused_ok sha3 (pop_tx ptx) rv'"
proof -
  obtain r1 where r1: "previous_outputs_hash sha3 (pop_tx ptx) ht rv =
      (fst (previous_outputs_hash sha3 (pop_tx ptx) ht reused_values_new), r1)" "reused_ok sha3 (pop_tx ptx) r1"
    using memo_previous_outputs [OF ok] by blast
  obtain r2 where r2: "sequences_hash sha3 (pop_tx ptx) ht r1 =
      (fst (sequences_hash sha3 (pop_tx ptx) ht reused_values_new), r2)" "reused_ok sha3 (pop_tx ptx) r2"
    using memo_sequences [OF r1(2)] by blast
  obtain r3 where r3: "sig_op_counts_hash sha3 (pop_tx ptx) ht r2 =
      (fst (sig_op_counts_hash sha3 (pop_tx ptx) ht reused_values_new), r3)" "reused_ok sha3 (pop_tx ptx) r3"
    using memo_sig_op_counts [OF r2(2)] by blast
  obtain r4 where r4: "outputs_hash sha3 (pop_tx ptx) ht i r3 =
      (fst (outputs_hash sha3 (pop_tx ptx) ht i reused_values_new), r4)" "reused_ok sha3 (pop_tx ptx) r4"
    using memo_outputs [OF r3(2)] by blast
  obtain r5 where r5: "payload_hash sha3 (pop_tx ptx) r4 =
      (fst (payload_hash sha3 (pop_tx ptx) reused_values_new), r5)" "reused_ok sha3 (pop_tx ptx) r5"
    using memo_payload [OF r4(2)] by blast
  show ?thesis
    by (rule that [of r5])
       (simp_all add: calc_signature_hash_def sighash_message_def pop Let_def r1 r2 r3 r4 r5)
qed

lemma calc_signature_hash_None:
  "calc_signature_hash sha3 ptx i ht rv = None \<longleftrightarrow> populated_input ptx i = None"
  by (auto simp: calc_signature_hash_def Let_def split: option.split prod.split)

definition signature_hash :: "(bytes \<Rightarrow> bytes) \<Rightarrow> populated_transaction \<Rightarrow> nat \<Rightarrow> u8 \<Rightarrow> bytes option" where
  "signature_hash sha3 ptx i ht = map_option fst (calc_signature_hash sha3 ptx i ht reused_values_new)"

lemma signature_hash_message:
  "signature_hash sha3 ptx i ht =
     map_option (\<lambda>(input, entry).
       TransactionSigningHash sha3 (sighash_message sha3 (pop_tx ptx) i ht input entry)) (populated_input ptx i)"
proof (cases "populated_input ptx i")
  case None
  then have "calc_signature_hash sha3 ptx i ht reused_values_new = None"
    by (simp add: calc_signature_hash_None)
  with None show ?thesis by (simp add: signature_hash_def)
next
  case (Some p)
  obtain input entry where p: "p = (input, entry)" by (cases p)
  obtain rv' where "calc_signature_hash sha3 ptx i ht reused_values_new =
       Some (TransactionSigningHash sha3 (sighash_message sha3 (pop_tx ptx) i ht input entry), rv')"
    using calc_signature_hash_memo [OF reused_ok_new, of ptx i input entry sha3 ht] Some p by blast
  with Some p show ?thesis by (simp add: signature_hash_def)
qed

lemma calc_signature_hash_transparent:
  assumes "reused_ok sha3 (pop_tx ptx) rv" "calc_signature_hash sha3 ptx i ht rv = Some (h, rv')"
  shows "signature_hash sha3 ptx i ht = Some h" "reused_ok sha3 (pop_tx ptx) rv'"
proof -
  obtain input entry where pop: "populated_input ptx i = Some (input, entry)"
    using assms(2) calc_signature_hash_None [of sha3 ptx i ht rv] by (cases "populated_input ptx i") auto
  obtain r where r: "calc_signature_hash sha3 ptx i ht rv =
       Some (TransactionSigningHash sha3 (sighash_message sha3 (pop_tx ptx) i ht input entry), r)"
    "reused_ok sha3 (pop_tx ptx) r"
    using assms(1) pop by (rule calc_signature_hash_memo)
  show "signature_hash sha3 ptx i ht = Some h" using r(1) assms(2) pop by (simp add: signature_hash_message)
  show "reused_ok sha3 (pop_tx ptx) rv'" using r assms(2) by simp
qed

section \<open>What a signature commits to\<close>

definition wf_outpoint :: "registry_ref \<Rightarrow> bool" where
  "wf_outpoint r \<longleftrightarrow> length (ref_transaction_id r) = 32"

definition wf_spk :: "script_public_key \<Rightarrow> bool" where
  "wf_spk spk \<longleftrightarrow> addressable (spk_script spk)"

definition wf_output :: "transaction_output \<Rightarrow> bool" where
  "wf_output out \<longleftrightarrow> wf_spk (out_script_public_key out)"

interpretation outpoint_code: fixed_width_code hash_outpoint wf_outpoint 36
  by unfold_locales (auto simp: hash_outpoint_def wf_outpoint_def registry_ref.equality)

interpretation spk_code: prefix_code hash_script_public_key wf_spk
proof
  fix x y :: script_public_key and r s
  assume "wf_spk x" "wf_spk y" "hash_script_public_key x @ r = hash_script_public_key y @ s"
  then have "u16_to_le (spk_version x) = u16_to_le (spk_version y) \<and>
      write_var_bytes (spk_script x) @ r = write_var_bytes (spk_script y) @ s"
    by (simp add: hash_script_public_key_def)
  then show "x = y \<and> r = s"
    using \<open>wf_spk x\<close> \<open>wf_spk y\<close> var_bytes.enc_cancel [of "spk_script x" "spk_script y" r s]
    by (simp add: wf_spk_def script_public_key.equality)
next
  fix x :: script_public_key
  show "wf_spk x \<Longrightarrow> hash_script_public_key x \<noteq> []"
    using var_bytes.enc_nonempty [of "spk_script x"] by (simp add: hash_script_public_key_def wf_spk_def)
qed

interpretation output_code: prefix_code hash_output wf_output
proof
  fix x y :: transaction_output and r s
  assume "wf_output x" "wf_output y" "hash_output x @ r = hash_output y @ s"
  then show "x = y \<and> r = s"
    using spk_code.enc_cancel [of "out_script_public_key x" "out_script_public_key y" r s]
    by (simp add: hash_output_def wf_output_def transaction_output.equality)
next
  fix x :: transaction_output
  show "wf_output x \<Longrightarrow> hash_output x \<noteq> []"
    using u64_code.enc_nonempty [of "out_value x"] by (simp add: hash_output_def)
qed

definition wf_signed :: "populated_transaction \<Rightarrow> bool" where
  "wf_signed ptx \<longleftrightarrow>
     list_all (\<lambda>input. wf_outpoint (previous_outpoint input)) (tx_inputs (pop_tx ptx)) \<and>
     list_all wf_output (tx_outputs (pop_tx ptx)) \<and>
     list_all (\<lambda>entry. wf_spk (ru_script_public_key entry)) (pop_entries ptx) \<and>
     length (tx_subnetwork_id (pop_tx ptx)) = 20 \<and> addressable (tx_payload (pop_tx ptx))"

text \<open>The strings whose partial hashes enter a digest of type \<open>SIG_HASH_ALL\<close>.\<close>

definition outpoints_string :: "transaction \<Rightarrow> bytes" where
  "outpoints_string tx = concat (map (\<lambda>input. hash_outpoint (previous_outpoint input)) (tx_inputs tx))"

definition sequences_string :: "transaction \<Rightarrow> bytes" where
  "sequences_string tx = concat (map (\<lambda>input. u64_to_le (sequence input)) (tx_inputs tx))"

definition sig_op_counts_string :: "transaction \<Rightarrow> bytes" where
  "sig_op_counts_string tx = concat (map (\<lambda>input. [sig_op_count input]) (tx_inputs tx))"

definition outputs_string :: "transaction \<Rightarrow> bytes" where
  "outputs_string tx = concat (map hash_output (tx_outputs tx))"

definition hashed_strings :: "(bytes \<Rightarrow> bytes) \<Rightarrow> populated_transaction \<Rightarrow> nat \<Rightarrow> bytes set" where
  "hashed_strings sha3 ptx i =
     (\<lambda>d. sha3 (ascii ''TransactionSigningHash'') @ d) `
       (set [outpoints_string (pop_tx ptx), sequences_string (pop_tx ptx),
             sig_op_counts_string (pop_tx ptx), outputs_string (pop_tx ptx),
             write_var_bytes (tx_payload (pop_tx ptx))] \<union>
        (case populated_input ptx i of None \<Rightarrow> {}
         | Some (input, entry) \<Rightarrow> {sighash_message sha3 (pop_tx ptx) i SIG_HASH_ALL input entry}))"

text \<open>
  \<open>digests_apart\<close>: SHA3-256 gives 32 bytes, has no collision among the strings hashed for
  the two digests, and none of them hashes to the zero digest.
\<close>

definition digests_apart :: "(bytes \<Rightarrow> bytes) \<Rightarrow> bytes set \<Rightarrow> bool" where
  "digests_apart sha3 S \<longleftrightarrow>
     inj_on sha3 S \<and> (\<forall>d \<in> S. length (sha3 d) = 32 \<and> sha3 d \<noteq> ZERO_HASH)"

lemma sighash_all_types:
  "\<not> is_sighash_none SIG_HASH_ALL" "\<not> is_sighash_single SIG_HASH_ALL"
  "\<not> is_sighash_anyone_can_pay SIG_HASH_ALL"
  by (simp_all add: is_sighash_none_def is_sighash_single_def is_sighash_anyone_can_pay_def sig_hash_consts)

lemma sighash_message_all:
  "sighash_message sha3 tx i SIG_HASH_ALL input entry =
     u16_to_le (tx_version tx) @ TransactionSigningHash sha3 (outpoints_string tx) @
     TransactionSigningHash sha3 (sequences_string tx) @
     TransactionSigningHash sha3 (sig_op_counts_string tx) @
     hash_outpoint (previous_outpoint input) @
     hash_script_public_key (ru_script_public_key entry) @
     u64_to_le (ru_amount entry) @ u64_to_le (sequence input) @ [sig_op_count input] @
     TransactionSigningHash sha3 (outputs_string tx) @
     u64_to_le (tx_lock_time tx) @ tx_subnetwork_id tx @ u64_to_le (tx_gas tx) @
     (if is_native (tx_subnetwork_id tx) \<and> tx_payload tx = [] then ZERO_HASH
      else TransactionSigningHash sha3 (write_var_bytes (tx_payload tx))) @ [SIG_HASH_ALL]"
  by (simp add: sighash_message_def previous_outputs_hash_def sequences_hash_def sig_op_counts_hash_def
      outputs_hash_def payload_hash_def sighash_all_types reused_values_new_def
      reuse_previous_outputs_hash_def reuse_sequences_hash_def reuse_sig_op_counts_hash_def
      reuse_outputs_hash_def reuse_payload_hash_def
      outpoints_string_def sequences_string_def sig_op_counts_string_def outputs_string_def)

lemma signing_hash_eq:
  assumes "digests_apart sha3 S"
    "sha3 (ascii ''TransactionSigningHash'') @ x \<in> S" "sha3 (ascii ''TransactionSigningHash'') @ y \<in> S"
  shows "TransactionSigningHash sha3 x = TransactionSigningHash sha3 y \<longleftrightarrow> x = y"
    and "length (TransactionSigningHash sha3 x) = 32"
    and "TransactionSigningHash sha3 x \<noteq> ZERO_HASH"
  using assms inj_onD [of sha3 S]
  by (auto simp: digests_apart_def TransactionSigningHash_def sha3_hasher_def)

lemma hashed_strings_mem:
  "sha3 (ascii ''TransactionSigningHash'') @ outpoints_string (pop_tx ptx) \<in> hashed_strings sha3 ptx i"
  "sha3 (ascii ''TransactionSigningHash'') @ sequences_string (pop_tx ptx) \<in> hashed_strings sha3 ptx i"
  "sha3 (ascii ''TransactionSigningHash'') @ sig_op_counts_string (pop_tx ptx) \<in> hashed_strings sha3 ptx i"
  "sha3 (ascii ''TransactionSigningHash'') @ outputs_string (pop_tx ptx) \<in> hashed_strings sha3 ptx i"
  "sha3 (ascii ''TransactionSigningHash'') @ write_var_bytes (tx_payload (pop_tx ptx)) \<in> hashed_strings sha3 ptx i"
  "populated_input ptx i = Some (input, entry) \<Longrightarrow>
   sha3 (ascii ''TransactionSigningHash'') @ sighash_message sha3 (pop_tx ptx) i SIG_HASH_ALL input entry
     \<in> hashed_strings sha3 ptx i"
  by (simp_all add: hashed_strings_def)

lemma populated_input_wf:
  assumes "wf_signed ptx" "populated_input ptx i = Some (input, entry)"
  shows "wf_outpoint (previous_outpoint input)" "wf_spk (ru_script_public_key entry)"
    "input = tx_inputs (pop_tx ptx) ! i" "entry = pop_entries ptx ! i"
  using assms
  by (auto simp: wf_signed_def populated_input_def registry_unit_at_def list_all_length split: if_splits)

text \<open>The strings determine what is written into them.\<close>

lemma strings_inj:
  assumes "wf_signed p" "wf_signed q"
  shows "outpoints_string (pop_tx p) = outpoints_string (pop_tx q) \<longleftrightarrow>
      map previous_outpoint (tx_inputs (pop_tx p)) = map previous_outpoint (tx_inputs (pop_tx q))"
    and "sequences_string (pop_tx p) = sequences_string (pop_tx q) \<longleftrightarrow>
      map sequence (tx_inputs (pop_tx p)) = map sequence (tx_inputs (pop_tx q))"
    and "sig_op_counts_string (pop_tx p) = sig_op_counts_string (pop_tx q) \<longleftrightarrow>
      map sig_op_count (tx_inputs (pop_tx p)) = map sig_op_count (tx_inputs (pop_tx q))"
    and "outputs_string (pop_tx p) = outputs_string (pop_tx q) \<longleftrightarrow>
      tx_outputs (pop_tx p) = tx_outputs (pop_tx q)"
proof -
  have c: "outpoints_string tx = concat (map hash_outpoint (map previous_outpoint (tx_inputs tx)))"
    "sequences_string tx = concat (map u64_to_le (map sequence (tx_inputs tx)))"
    "sig_op_counts_string tx = concat (map (\<lambda>b. [b]) (map sig_op_count (tx_inputs tx)))" for tx
    by (simp_all add: outpoints_string_def sequences_string_def sig_op_counts_string_def comp_def)
  show "outpoints_string (pop_tx p) = outpoints_string (pop_tx q) \<longleftrightarrow>
      map previous_outpoint (tx_inputs (pop_tx p)) = map previous_outpoint (tx_inputs (pop_tx q))"
    using assms outpoint_code.concat_inj [of "map previous_outpoint (tx_inputs (pop_tx p))"
        "map previous_outpoint (tx_inputs (pop_tx q))"]
    by (auto simp only: c wf_signed_def list.pred_map comp_def)
  show "sequences_string (pop_tx p) = sequences_string (pop_tx q) \<longleftrightarrow>
      map sequence (tx_inputs (pop_tx p)) = map sequence (tx_inputs (pop_tx q))"
    using u64_code.concat_inj [of "map sequence (tx_inputs (pop_tx p))" "map sequence (tx_inputs (pop_tx q))"]
    by (auto simp only: c list_all_length)
  show "sig_op_counts_string (pop_tx p) = sig_op_counts_string (pop_tx q) \<longleftrightarrow>
      map sig_op_count (tx_inputs (pop_tx p)) = map sig_op_count (tx_inputs (pop_tx q))"
    using u8_code.concat_inj [of "map sig_op_count (tx_inputs (pop_tx p))" "map sig_op_count (tx_inputs (pop_tx q))"]
    by (auto simp only: c list_all_length)
  show "outputs_string (pop_tx p) = outputs_string (pop_tx q) \<longleftrightarrow>
      tx_outputs (pop_tx p) = tx_outputs (pop_tx q)"
    using assms output_code.concat_inj [of "tx_outputs (pop_tx p)" "tx_outputs (pop_tx q)"]
    by (auto simp: outputs_string_def wf_signed_def)
qed

lemma sighash_message_cancel:
  assumes apart: "digests_apart sha3 (hashed_strings sha3 p i \<union> hashed_strings sha3 q j)"
    and wf: "wf_signed p" "wf_signed q"
    and pop: "populated_input p i = Some (ip, ep)" "populated_input q j = Some (iq, eq)"
    and msg: "sighash_message sha3 (pop_tx p) i SIG_HASH_ALL ip ep =
              sighash_message sha3 (pop_tx q) j SIG_HASH_ALL iq eq"
  shows "tx_version (pop_tx p) = tx_version (pop_tx q) \<and>
    map previous_outpoint (tx_inputs (pop_tx p)) = map previous_outpoint (tx_inputs (pop_tx q)) \<and>
    map sequence (tx_inputs (pop_tx p)) = map sequence (tx_inputs (pop_tx q)) \<and>
    map sig_op_count (tx_inputs (pop_tx p)) = map sig_op_count (tx_inputs (pop_tx q)) \<and>
    tx_outputs (pop_tx p) = tx_outputs (pop_tx q) \<and>
    tx_lock_time (pop_tx p) = tx_lock_time (pop_tx q) \<and>
    tx_subnetwork_id (pop_tx p) = tx_subnetwork_id (pop_tx q) \<and>
    tx_gas (pop_tx p) = tx_gas (pop_tx q) \<and> tx_payload (pop_tx p) = tx_payload (pop_tx q) \<and>
    previous_outpoint ip = previous_outpoint iq \<and> ru_amount ep = ru_amount eq \<and>
    ru_script_public_key ep = ru_script_public_key eq"
proof -
  let ?S = "hashed_strings sha3 p i \<union> hashed_strings sha3 q j"
  have len: "length (TransactionSigningHash sha3 x) = 32"
    if "sha3 (ascii ''TransactionSigningHash'') @ x \<in> ?S" for x
    using signing_hash_eq(2) [OF apart that that] .
  have lens: "length (TransactionSigningHash sha3 (outpoints_string (pop_tx p))) = 32"
    "length (TransactionSigningHash sha3 (outpoints_string (pop_tx q))) = 32"
    "length (TransactionSigningHash sha3 (sequences_string (pop_tx p))) = 32"
    "length (TransactionSigningHash sha3 (sequences_string (pop_tx q))) = 32"
    "length (TransactionSigningHash sha3 (sig_op_counts_string (pop_tx p))) = 32"
    "length (TransactionSigningHash sha3 (sig_op_counts_string (pop_tx q))) = 32"
    "length (TransactionSigningHash sha3 (outputs_string (pop_tx p))) = 32"
    "length (TransactionSigningHash sha3 (outputs_string (pop_tx q))) = 32"
    by (rule len; simp add: hashed_strings_mem)+
  note wfp = populated_input_wf [OF wf(1) pop(1)] and wfq = populated_input_wf [OF wf(2) pop(2)]
  have out: "length (hash_outpoint (previous_outpoint ip)) = 36" "length (hash_outpoint (previous_outpoint iq)) = 36"
    using wfp(1) wfq(1) outpoint_code.enc_width by auto
  have sub: "length (tx_subnetwork_id (pop_tx p)) = 20" "length (tx_subnetwork_id (pop_tx q)) = 20"
    using wf by (simp_all add: wf_signed_def)
  let ?pay = "\<lambda>tx. if is_native (tx_subnetwork_id tx) \<and> tx_payload tx = [] then ZERO_HASH
      else TransactionSigningHash sha3 (write_var_bytes (tx_payload tx))"
  let ?rest = "\<lambda>tx input entry. u64_to_le (ru_amount entry) @ u64_to_le (sequence input) @ [sig_op_count input] @
     TransactionSigningHash sha3 (outputs_string tx) @ u64_to_le (tx_lock_time tx) @ tx_subnetwork_id tx @
     u64_to_le (tx_gas tx) @ ?pay tx @ [SIG_HASH_ALL]"
  have front: "tx_version (pop_tx p) = tx_version (pop_tx q)"
    "TransactionSigningHash sha3 (outpoints_string (pop_tx p)) = TransactionSigningHash sha3 (outpoints_string (pop_tx q))"
    "TransactionSigningHash sha3 (sequences_string (pop_tx p)) = TransactionSigningHash sha3 (sequences_string (pop_tx q))"
    "TransactionSigningHash sha3 (sig_op_counts_string (pop_tx p)) = TransactionSigningHash sha3 (sig_op_counts_string (pop_tx q))"
    "hash_outpoint (previous_outpoint ip) = hash_outpoint (previous_outpoint iq)"
    "hash_script_public_key (ru_script_public_key ep) @ ?rest (pop_tx p) ip ep =
     hash_script_public_key (ru_script_public_key eq) @ ?rest (pop_tx q) iq eq"
    using msg unfolding sighash_message_all by (simp_all only: append_eq_append_conv lens out length_u_to_le u16_to_le_inj simp_thms)
  have spk: "ru_script_public_key ep = ru_script_public_key eq" "?rest (pop_tx p) ip ep = ?rest (pop_tx q) iq eq"
    using spk_code.enc_cancel [OF wfp(2) wfq(2) front(6)] by simp_all
  have tail: "ru_amount ep = ru_amount eq"
    "TransactionSigningHash sha3 (outputs_string (pop_tx p)) = TransactionSigningHash sha3 (outputs_string (pop_tx q))"
    "tx_lock_time (pop_tx p) = tx_lock_time (pop_tx q)"
    "tx_subnetwork_id (pop_tx p) = tx_subnetwork_id (pop_tx q)" "tx_gas (pop_tx p) = tx_gas (pop_tx q)"
    "?pay (pop_tx p) = ?pay (pop_tx q)"
    using spk(2)
    by (simp_all only: append_eq_append_conv lens sub length_u_to_le u64_to_le_inj append1_eq_conv
        append_Cons append_Nil list.inject simp_thms) (elim conjE, simp only:)
  have same: "x = y" if "TransactionSigningHash sha3 x = TransactionSigningHash sha3 y"
    "sha3 (ascii ''TransactionSigningHash'') @ x \<in> ?S" "sha3 (ascii ''TransactionSigningHash'') @ y \<in> ?S" for x y
    using signing_hash_eq(1) [OF apart that(2,3)] that(1) by simp
  have strs: "outpoints_string (pop_tx p) = outpoints_string (pop_tx q)"
    "sequences_string (pop_tx p) = sequences_string (pop_tx q)"
    "sig_op_counts_string (pop_tx p) = sig_op_counts_string (pop_tx q)"
    "outputs_string (pop_tx p) = outputs_string (pop_tx q)"
    using front(2-4) tail(2) by (auto intro!: same simp: hashed_strings_mem)
  have pay: "tx_payload (pop_tx p) = tx_payload (pop_tx q)"
  proof (cases "is_native (tx_subnetwork_id (pop_tx p)) \<and> (tx_payload (pop_tx p) = [] \<or> tx_payload (pop_tx q) = [])")
    case True
    then show ?thesis using tail(4,6)
      signing_hash_eq(3) [OF apart, of "write_var_bytes (tx_payload (pop_tx p))" "write_var_bytes (tx_payload (pop_tx p))"]
      signing_hash_eq(3) [OF apart, of "write_var_bytes (tx_payload (pop_tx q))" "write_var_bytes (tx_payload (pop_tx q))"]
      by (auto simp: hashed_strings_mem split: if_splits)
  next
    case False
    then have "TransactionSigningHash sha3 (write_var_bytes (tx_payload (pop_tx p))) =
        TransactionSigningHash sha3 (write_var_bytes (tx_payload (pop_tx q)))"
      using tail(4,6) by (auto split: if_splits)
    then have "write_var_bytes (tx_payload (pop_tx p)) = write_var_bytes (tx_payload (pop_tx q))"
      by (rule same) (simp_all add: hashed_strings_mem)
    then show ?thesis using wf by (auto simp: wf_signed_def intro: var_bytes.enc_inj)
  qed
  show ?thesis
    using front(1) strs strings_inj [OF wf] spk(1) tail pay
      outpoint_code.enc_inj [OF wfp(1) wfq(1) front(5)] by simp
qed

section \<open>Properties\<close>

text \<open>
  The memo of partial hashes never changes a digest: whatever digests were computed before
  with the same table, on the same transaction, the next digest is the one a fresh table gives,
  and a table that holds only partial hashes of the transaction keeps that property.
\<close>

theorem sighash_memo_transparent:
  assumes "reused_ok sha3 (pop_tx ptx) rv" "calc_signature_hash sha3 ptx i ht rv = Some (h, rv')"
  shows "(\<exists>rv''. calc_signature_hash sha3 ptx i ht reused_values_new = Some (h, rv'')) \<and> reused_ok sha3 (pop_tx ptx) rv'"
  using calc_signature_hash_transparent [OF assms] by (auto simp: signature_hash_def)

text \<open>
  C2: A \<open>SIG_HASH_ALL\<close> signature commits to the whole spend: when SHA3-256 has no collision
  among the strings hashed, two inputs with the same digest agree on the version, all
  outpoints, sequence numbers, signature operation counts, outputs, lock time, subnetwork, gas
  and payload of their transactions, and on the outpoint, amount and script they spend.
\<close>

theorem sighash_commits:
  assumes apart: "digests_apart sha3 (hashed_strings sha3 p i \<union> hashed_strings sha3 q j)"
    and wf: "wf_signed p" "wf_signed q"
    and memo: "reused_ok sha3 (pop_tx p) rp" "reused_ok sha3 (pop_tx q) rq"
    and pop: "populated_input p i = Some (ip, ep)" "populated_input q j = Some (iq, eq)"
    and hash: "map_option fst (calc_signature_hash sha3 p i SIG_HASH_ALL rp) =
               map_option fst (calc_signature_hash sha3 q j SIG_HASH_ALL rq)"
  shows "tx_version (pop_tx p) = tx_version (pop_tx q) \<and>
    map previous_outpoint (tx_inputs (pop_tx p)) = map previous_outpoint (tx_inputs (pop_tx q)) \<and>
    map sequence (tx_inputs (pop_tx p)) = map sequence (tx_inputs (pop_tx q)) \<and>
    map sig_op_count (tx_inputs (pop_tx p)) = map sig_op_count (tx_inputs (pop_tx q)) \<and>
    tx_outputs (pop_tx p) = tx_outputs (pop_tx q) \<and>
    tx_lock_time (pop_tx p) = tx_lock_time (pop_tx q) \<and>
    tx_subnetwork_id (pop_tx p) = tx_subnetwork_id (pop_tx q) \<and>
    tx_gas (pop_tx p) = tx_gas (pop_tx q) \<and> tx_payload (pop_tx p) = tx_payload (pop_tx q) \<and>
    previous_outpoint ip = previous_outpoint iq \<and> ru_amount ep = ru_amount eq \<and>
    ru_script_public_key ep = ru_script_public_key eq"
proof (rule sighash_message_cancel [OF apart wf pop])
  have "signature_hash sha3 p i SIG_HASH_ALL = signature_hash sha3 q j SIG_HASH_ALL"
    using hash calc_signature_hash_transparent [OF memo(1), of i SIG_HASH_ALL]
      calc_signature_hash_transparent [OF memo(2), of j SIG_HASH_ALL]
      calc_signature_hash_None [of sha3 p i SIG_HASH_ALL rp] calc_signature_hash_None [of sha3 q j SIG_HASH_ALL rq] pop
    by (cases "calc_signature_hash sha3 p i SIG_HASH_ALL rp"; cases "calc_signature_hash sha3 q j SIG_HASH_ALL rq") auto
  then have "TransactionSigningHash sha3 (sighash_message sha3 (pop_tx p) i SIG_HASH_ALL ip ep) =
      TransactionSigningHash sha3 (sighash_message sha3 (pop_tx q) j SIG_HASH_ALL iq eq)"
    using pop by (simp add: signature_hash_message)
  then show "sighash_message sha3 (pop_tx p) i SIG_HASH_ALL ip ep = sighash_message sha3 (pop_tx q) j SIG_HASH_ALL iq eq"
    using signing_hash_eq(1) [OF apart, of "sighash_message sha3 (pop_tx p) i SIG_HASH_ALL ip ep"
        "sighash_message sha3 (pop_tx q) j SIG_HASH_ALL iq eq"] pop
    by (simp add: hashed_strings_def)
qed


text \<open>A concrete transaction with one input and one output, and a digest that tells its strings apart.\<close>

definition demo_digest :: "bytes \<Rightarrow> bytes" where
  "demo_digest x = word_of_nat (length x) # replicate 31 1"

definition demo_transaction :: "bytes \<Rightarrow> transaction" where
  "demo_transaction sig_script = transaction_new 0
     [\<lparr>previous_outpoint = \<lparr>ref_transaction_id = replicate 32 3, ref_index = 1\<rparr>,
       signature_script = sig_script, sequence = 0, sig_op_count = 1\<rparr>]
     [\<lparr>out_value = 7, out_script_public_key = \<lparr>spk_version = 0, spk_script = [0x51]\<rparr>\<rparr>]
     0 SUBNETWORK_ID_NATIVE 0 [9]"

definition demo_spend :: "bytes \<Rightarrow> bytes \<Rightarrow> populated_transaction" where
  "demo_spend sig_script script = \<lparr>pop_tx = demo_transaction sig_script,
     pop_entries = [\<lparr>ru_amount = 1000, ru_script_public_key = \<lparr>spk_version = 0, spk_script = script\<rparr>,
                     ru_block_daa_score = 5, ru_is_coinbase = False\<rparr>]\<rparr>"

lemmas demo_defs = demo_spend_def demo_transaction_def transaction_new_def

lemma demo_input:
  "populated_input (demo_spend sig_script script) 0 =
     Some (hd (tx_inputs (demo_transaction sig_script)), hd (pop_entries (demo_spend sig_script script)))"
  by (simp add: populated_input_def registry_unit_at_def demo_defs)

lemma demo_wf: "wf_signed (demo_spend sig_script [0x51])"
  by (simp add: wf_signed_def demo_defs wf_outpoint_def wf_output_def wf_spk_def addressable_def
      SUBNETWORK_ID_NATIVE_def subnetwork_from_byte_def)

lemma demo_strings:
  "hashed_strings demo_digest (demo_spend sig_script [0x51]) 0 = hashed_strings demo_digest (demo_spend [] [0x51]) 0"
  by (simp add: hashed_strings_def demo_input sighash_message_all)
     (simp add: demo_defs outpoints_string_def sequences_string_def sig_op_counts_string_def outputs_string_def)

lemma digests_apart_length:
  assumes "inj_on (\<lambda>d. word_of_nat (length d) :: u8) S"
  shows "digests_apart demo_digest S"
  using assms by (auto simp: digests_apart_def inj_on_def demo_digest_def ZERO_HASH_def numeral_eq_Suc)

lemma demo_digests_apart: "digests_apart demo_digest (hashed_strings demo_digest (demo_spend [] [0x51]) 0)"
  unfolding hashed_strings_def demo_input option.case prod.case sighash_message_all
  by (rule digests_apart_length)
     (auto simp: demo_defs demo_digest_def
      outpoints_string_def sequences_string_def sig_op_counts_string_def outputs_string_def
      hash_outpoint_def hash_output_def hash_script_public_key_def write_var_bytes_def
      TransactionSigningHash_def sha3_hasher_def is_native_def SUBNETWORK_ID_NATIVE_def subnetwork_from_byte_def)

theorem sighash_commits_witness:
  "demo_spend [1] [0x51] \<noteq> demo_spend [2] [0x51] \<and>
   tx_outputs (pop_tx (demo_spend [1] [0x51])) = tx_outputs (pop_tx (demo_spend [2] [0x51]))"
proof
  let ?p = "demo_spend [1] [0x51]" and ?q = "demo_spend [2] [0x51]"
  show "?p \<noteq> ?q" by (simp add: demo_defs)
  have "signature_hash demo_digest ?p 0 SIG_HASH_ALL = signature_hash demo_digest ?q 0 SIG_HASH_ALL"
    by (simp add: signature_hash_message demo_input sighash_message_all)
       (simp add: demo_defs outpoints_string_def sequences_string_def sig_op_counts_string_def outputs_string_def)
  then have hash: "map_option fst (calc_signature_hash demo_digest ?p 0 SIG_HASH_ALL reused_values_new) =
      map_option fst (calc_signature_hash demo_digest ?q 0 SIG_HASH_ALL reused_values_new)"
    by (simp add: signature_hash_def)
  have apart: "digests_apart demo_digest (hashed_strings demo_digest ?p 0 \<union> hashed_strings demo_digest ?q 0)"
    using demo_digests_apart by (simp add: demo_strings [of "[1]"] demo_strings [of "[2]"])
  show "tx_outputs (pop_tx ?p) = tx_outputs (pop_tx ?q)"
    using sighash_commits [OF apart demo_wf demo_wf reused_ok_new reused_ok_new demo_input demo_input hash] by blast
qed

theorem sighash_memo_transparent_witness:
  "let r = the (calc_signature_hash demo_digest (demo_spend [] [0x51]) 0 SIG_HASH_ALL reused_values_new);
       r' = the (calc_signature_hash demo_digest (demo_spend [] [0x51]) 0 SIG_HASH_NONE (snd r))
   in (\<exists>rv''. calc_signature_hash demo_digest (demo_spend [] [0x51]) 0 SIG_HASH_NONE reused_values_new = Some (fst r', rv''))"
proof -
  let ?p = "demo_spend [] [0x51]"
  let ?r = "the (calc_signature_hash demo_digest ?p 0 SIG_HASH_ALL reused_values_new)"
  let ?r' = "the (calc_signature_hash demo_digest ?p 0 SIG_HASH_NONE (snd ?r))"
  have r: "calc_signature_hash demo_digest ?p 0 SIG_HASH_ALL reused_values_new = Some (fst ?r, snd ?r)"
    "calc_signature_hash demo_digest ?p 0 SIG_HASH_NONE (snd ?r) = Some (fst ?r', snd ?r')"
    using demo_input [of "[]" "[0x51]"] calc_signature_hash_None [of demo_digest ?p 0] by auto
  have "reused_ok demo_digest (pop_tx ?p) (snd ?r)"
    by (rule calc_signature_hash_transparent(2) [OF reused_ok_new r(1)])
  from sighash_memo_transparent [OF this r(2)] show ?thesis by (simp add: Let_def)
qed

end
