(* ===== verification/Sig_Cache.thy ===== *)
theory Sig_Cache
  imports Prelude
begin

text \<open>
  The bounded verification cache \<open>Cache<TKey, TData>\<close> of
  \<^verbatim>\<open>crypto/txscript/src/caches.rs\<close>: an insertion-ordered map of at most \<open>size\<close>
  entries from which a random entry is evicted when it is full.  The choice of the random
  generator is a parameter \<open>pick\<close>; it may depend on the whole cache, counters included, so
  every sequence of choices is covered.
\<close>

section \<open>The cache\<close>

record ('k, 'v) cache =
  cache_map :: "('k \<times> 'v) list"
  cache_size :: nat
  insert_counts :: u64
  get_counts :: u64

definition cache_new :: "nat \<Rightarrow> ('k, 'v) cache" where
  "cache_new sz = \<lparr> cache_map = [], cache_size = sz, insert_counts = 0, get_counts = 0 \<rparr>"

definition cache_clear :: "('k, 'v) cache \<Rightarrow> ('k, 'v) cache" where
  "cache_clear c = c\<lparr>cache_map := []\<rparr>"

definition cache_lookup :: "('k, 'v) cache \<Rightarrow> 'k \<Rightarrow> 'v option" where
  "cache_lookup c k = map_of (cache_map c) k"

text \<open>\<open>Cache::get\<close> counts the hits.\<close>

definition cache_get :: "'k \<Rightarrow> ('k, 'v) cache \<Rightarrow> 'v option \<times> ('k, 'v) cache" where
  "cache_get k c =
     (case cache_lookup c k of
        None \<Rightarrow> (None, c)
      | Some v \<Rightarrow> (Some v, c\<lparr>get_counts := get_counts c + 1\<rparr>))"

text \<open>\<open>IndexMap::swap_remove_index\<close> and \<open>IndexMap::insert\<close>.\<close>

definition swap_remove_index :: "nat \<Rightarrow> 'a list \<Rightarrow> 'a list" where
  "swap_remove_index i xs = (if i < length xs then butlast (xs[i := last xs]) else xs)"

definition index_insert :: "'k \<Rightarrow> 'v \<Rightarrow> ('k \<times> 'v) list \<Rightarrow> ('k \<times> 'v) list" where
  "index_insert k v xs =
     (if k \<in> fst ` set xs then map (\<lambda>(k', v'). (k', if k' = k then v else v')) xs
      else xs @ [(k, v)])"

definition cache_insert :: "(('k, 'v) cache \<Rightarrow> nat) \<Rightarrow> 'k \<Rightarrow> 'v \<Rightarrow> ('k, 'v) cache \<Rightarrow> ('k, 'v) cache" where
  "cache_insert pick k v c =
     (if cache_size c = 0 then c
      else let m = (if length (cache_map c) = cache_size c
                    then swap_remove_index (pick c) (cache_map c) else cache_map c)
           in c\<lparr>cache_map := index_insert k v m, insert_counts := insert_counts c + 1\<rparr>)"

section \<open>The contract of a memo table\<close>

definition agrees :: "('c \<Rightarrow> 'k \<Rightarrow> 'v option) \<Rightarrow> ('k \<Rightarrow> 'v) \<Rightarrow> 'c \<Rightarrow> bool" where
  "agrees lookup f c \<longleftrightarrow> (\<forall>k v. lookup c k = Some v \<longrightarrow> v = f k)"

text \<open>
  What the signature checker relies on: a lookup after an insertion gives the inserted value
  or what was there before, never another value.  Losing entries is allowed.
\<close>

locale memo_table =
  fixes lookup :: "'c \<Rightarrow> 'k \<Rightarrow> 'v option"
    and insert_at :: "'k \<Rightarrow> 'v \<Rightarrow> 'c \<Rightarrow> 'c"
    and inv :: "'c \<Rightarrow> bool"
  assumes lookup_insert:
    "inv c \<Longrightarrow> lookup (insert_at k v c) k' = Some v' \<Longrightarrow>
       k' = k \<and> v' = v \<or> lookup c k' = Some v'"
    and inv_insert: "inv c \<Longrightarrow> inv (insert_at k v c)"
begin

lemma agrees_insert:
  "inv c \<Longrightarrow> agrees lookup f c \<Longrightarrow> agrees lookup f (insert_at k (f k) c)"
  by (auto simp: agrees_def dest: lookup_insert)

lemma memo_value: "agrees lookup f c \<Longrightarrow> lookup c k = Some v \<Longrightarrow> v = f k"
  by (simp add: agrees_def)

end

section \<open>The cache is a memo table of bounded size\<close>

lemma set_swap_remove: "set (swap_remove_index i xs) \<subseteq> set xs"
proof (cases "i < length xs")
  case True
  then have "last xs \<in> set xs" by (intro last_in_set) auto
  then have "set (xs[i := last xs]) \<subseteq> set xs"
    using set_update_subset_insert [of xs i "last xs"] by auto
  with True show ?thesis by (auto simp: swap_remove_index_def dest: in_set_butlastD)
qed (simp add: swap_remove_index_def)

lemma distinct_swap_remove: "distinct xs \<Longrightarrow> distinct (swap_remove_index i xs)"
proof (cases "i < length xs")
  case True
  assume d: "distinct xs"
  from True obtain ys y where xs: "xs = ys @ [y]" by (cases xs rule: rev_cases) auto
  show ?thesis
  proof (cases "i < length ys")
    case True
    with d xs show ?thesis
      by (simp add: swap_remove_index_def list_update_append butlast_append distinct_list_update)
  next
    case False
    with True xs have "i = length ys" by simp
    with d xs show ?thesis by (simp add: swap_remove_index_def)
  qed
qed (simp add: swap_remove_index_def)

lemma map_swap_remove: "map f (swap_remove_index i xs) = swap_remove_index i (map f xs)"
  by (cases "xs = []") (simp_all add: swap_remove_index_def map_butlast map_update last_map)

lemma length_swap_remove:
  "length (swap_remove_index i xs) = (if i < length xs then length xs - 1 else length xs)"
  by (simp add: swap_remove_index_def)

lemma swap_remove_lookup:
  assumes "distinct (map fst xs)" "map_of (swap_remove_index i xs) k = Some v"
  shows "map_of xs k = Some v"
proof -
  have "(k, v) \<in> set xs"
    using map_of_SomeD [OF assms(2)] set_swap_remove by (rule rev_subsetD)
  with assms(1) show ?thesis by simp
qed

lemma keys_index_insert:
  "map fst (index_insert k v xs) =
     (if k \<in> fst ` set xs then map fst xs else map fst xs @ [k])"
  by (auto simp: index_insert_def)

lemma length_index_insert: "length (index_insert k v xs) \<le> Suc (length xs)"
  by (simp add: index_insert_def)

lemma map_of_overwrite:
  "map_of (map (\<lambda>(k', v'). (k', if k' = k then v else v')) xs) k' =
     (if k' = k \<and> k \<in> fst ` set xs then Some v else map_of xs k')"
proof (induction xs)
  case (Cons p xs)
  obtain a b where p: "p = (a, b)" by (cases p)
  show ?case using Cons.IH by (cases "a = k'"; cases "k' = k") (simp_all add: p)
qed simp

lemma index_insert_lookup:
  "map_of (index_insert k v xs) k' = (if k' = k then Some v else map_of xs k')"
proof (cases "k \<in> fst ` set xs")
  case True
  then show ?thesis by (simp add: index_insert_def map_of_overwrite)
next
  case False
  then have "map_of xs k = None" by (simp add: map_of_eq_None_iff)
  with False show ?thesis
    by (auto simp: index_insert_def map_add_def split: option.split)
qed

definition distinct_keys :: "('k, 'v) cache \<Rightarrow> bool" where
  "distinct_keys c \<longleftrightarrow> distinct (map fst (cache_map c))"

lemma distinct_index_insert:
  "distinct (map fst xs) \<Longrightarrow> distinct (map fst (index_insert k v xs))"
  by (simp add: keys_index_insert)

lemma cache_insert_distinct: "distinct_keys c \<Longrightarrow> distinct_keys (cache_insert pick k v c)"
  by (simp add: distinct_keys_def cache_insert_def Let_def distinct_index_insert
      map_swap_remove distinct_swap_remove)

lemma cache_insert_lookup:
  assumes "distinct_keys c" "cache_lookup (cache_insert pick k v c) k' = Some v'"
  shows "k' = k \<and> v' = v \<or> cache_lookup c k' = Some v'"
  using assms swap_remove_lookup [of "cache_map c" "pick c" k' v']
  by (auto simp: distinct_keys_def cache_insert_def cache_lookup_def Let_def index_insert_lookup
      split: if_splits)

interpretation sig_memo: memo_table cache_lookup "cache_insert pick" distinct_keys for pick
  by unfold_locales (auto dest: cache_insert_lookup intro: cache_insert_distinct)

lemma cache_insert_hit:
  "cache_size c \<noteq> 0 \<Longrightarrow> cache_lookup (cache_insert pick k v c) k = Some v"
  by (simp add: cache_insert_def cache_lookup_def Let_def index_insert_lookup)

lemma cache_insert_size [simp]: "cache_size (cache_insert pick k v c) = cache_size c"
  by (simp add: cache_insert_def Let_def)

text \<open>\<open>gen_range(0..size)\<close> draws below \<open>size\<close>; then the cache never outgrows its size.\<close>

lemma cache_insert_bounded:
  assumes "pick c < cache_size c" "length (cache_map c) \<le> cache_size c"
  shows "length (cache_map (cache_insert pick k v c)) \<le> cache_size c"
  using assms length_index_insert [of k v "cache_map c"]
    length_index_insert [of k v "swap_remove_index (pick c) (cache_map c)"]
  by (auto simp: cache_insert_def Let_def length_swap_remove)

lemma cache_get_lookup:
  "fst (cache_get k c) = cache_lookup c k"
  "cache_lookup (snd (cache_get k c)) = cache_lookup c"
  "distinct_keys (snd (cache_get k c)) = distinct_keys c"
  by (auto simp: cache_get_def cache_lookup_def distinct_keys_def fun_eq_iff split: option.split)

section \<open>Properties\<close>

text \<open>
  The signature cache keeps its invariant: an insertion into a cache that holds at most
  \<open>size\<close> entries with distinct keys leaves at most \<open>size\<close> entries with distinct keys, finds the
  inserted value again unless the size is zero, and answers no other key differently than
  before, whichever entry the random draw evicts.
\<close>

theorem cache_insert_invariant:
  assumes "distinct_keys c" "length (cache_map c) \<le> cache_size c" "cache_size c = 0 \<or> pick c < cache_size c"
  shows "distinct_keys (cache_insert pick k v c) \<and>
    length (cache_map (cache_insert pick k v c)) \<le> cache_size (cache_insert pick k v c) \<and>
    (cache_size c \<noteq> 0 \<longrightarrow> cache_lookup (cache_insert pick k v c) k = Some v) \<and>
    (\<forall>k' v'. cache_lookup (cache_insert pick k v c) k' = Some v' \<longrightarrow> k' \<noteq> k \<longrightarrow> cache_lookup c k' = Some v')"
proof (cases "cache_size c = 0")
  case True
  then show ?thesis using assms by (simp add: cache_insert_def)
next
  case False
  then show ?thesis
    using assms cache_insert_distinct [of c pick k v] cache_insert_bounded [of pick c k v]
      cache_insert_hit [of c pick k v] cache_insert_lookup [OF assms(1), of pick k v] by auto
qed

theorem cache_insert_invariant_witness:
  "let c = cache_insert (\<lambda>_. 0) (1 :: nat) True (cache_new 1)
   in cache_map (cache_insert (\<lambda>_. 0) 2 False c) = [(2, False)] \<and>
      distinct_keys (cache_insert (\<lambda>_. 0) 2 False c) \<and>
      length (cache_map (cache_insert (\<lambda>_. 0) 2 False c)) \<le> cache_size (cache_insert (\<lambda>_. 0) 2 False c)"
  using cache_insert_invariant [of "cache_insert (\<lambda>_. 0) (1 :: nat) True (cache_new 1)" "\<lambda>_. 0" 2 False]
  by (simp add: cache_insert_def cache_new_def index_insert_def swap_remove_index_def distinct_keys_def)

end
