(* ===== verification/Engine_State.thy ===== *)
theory Engine_State
  imports Data_Stack Opcodes Sighash Sig_Cache
begin

text \<open>
  The state of the script engine (\<open>TxScriptEngine\<close>), its signature-operation counter
  (\<^verbatim>\<open>runtime_sig_op_counter.rs\<close>) and the signature checks
  \<open>check_dilithium_signature\<close> and \<open>op_check_multisig\<close> of
  \<^verbatim>\<open>crypto/txscript/src/lib.rs\<close>.  SHA-256, SHA3-256, ML-DSA verification and the random
  choice of the cache are the fields of the parameter record \<open>crypto\<close>.
\<close>

section \<open>Parameters and constants\<close>

record sig_cache_key =
  key_signature :: bytes
  key_pub_key :: bytes
  key_message :: bytes

type_synonym sig_cache = "(sig_cache_key, bool) cache"

text \<open>\<open>dilithium_verify pk sig msg\<close> is \<open>DilithiumKeyPair::verify(pk, sig, msg, b"", ML_DSA_65)\<close>.\<close>

record crypto =
  sha256 :: "bytes \<Rightarrow> bytes"
  sha3_256 :: "bytes \<Rightarrow> bytes"
  dilithium_verify :: "bytes \<Rightarrow> bytes \<Rightarrow> bytes \<Rightarrow> bool"
  evict :: "sig_cache \<Rightarrow> nat"

definition MAX_SCRIPT_PUBLIC_KEY_VERSION :: u16 where "MAX_SCRIPT_PUBLIC_KEY_VERSION = 0"
definition MAX_STACK_SIZE :: nat where "MAX_STACK_SIZE = 244"
definition MAX_SCRIPTS_SIZE :: nat where "MAX_SCRIPTS_SIZE = 10000"
definition MAX_SCRIPT_ELEMENT_SIZE :: nat where "MAX_SCRIPT_ELEMENT_SIZE = 520"
definition MAX_OPS_PER_SCRIPT :: int where "MAX_OPS_PER_SCRIPT = 201"
definition MAX_TX_IN_SEQUENCE_NUM :: u64 where "MAX_TX_IN_SEQUENCE_NUM = -1"
definition SEQUENCE_LOCK_TIME_DISABLED :: u64 where "SEQUENCE_LOCK_TIME_DISABLED = 0x8000000000000000"
definition SEQUENCE_LOCK_TIME_MASK :: u64 where "SEQUENCE_LOCK_TIME_MASK = 0xffffffff"
definition LOCK_TIME_THRESHOLD :: u64 where "LOCK_TIME_THRESHOLD = 500000000000"
definition MAX_PUB_KEYS_PER_MUTLTISIG :: int where "MAX_PUB_KEYS_PER_MUTLTISIG = 20"

lemmas engine_consts = MAX_SCRIPT_PUBLIC_KEY_VERSION_def MAX_STACK_SIZE_def MAX_SCRIPTS_SIZE_def
  MAX_SCRIPT_ELEMENT_SIZE_def MAX_OPS_PER_SCRIPT_def MAX_TX_IN_SEQUENCE_NUM_def
  SEQUENCE_LOCK_TIME_DISABLED_def SEQUENCE_LOCK_TIME_MASK_def LOCK_TIME_THRESHOLD_def
  MAX_PUB_KEYS_PER_MUTLTISIG_def

section \<open>State\<close>

datatype op_cond = CondFalse | CondTrue | CondSkip

fun negate :: "op_cond \<Rightarrow> op_cond" where
  "negate CondTrue = CondFalse"
| "negate CondFalse = CondTrue"
| "negate CondSkip = CondSkip"

record sig_op_counter =
  sig_op_limit :: u8
  sig_op_remaining :: u8

definition sig_op_counter_new :: "u8 \<Rightarrow> sig_op_counter" where
  "sig_op_counter_new limit = \<lparr> sig_op_limit = limit, sig_op_remaining = limit \<rparr>"

definition counter_consume :: "sig_op_counter \<Rightarrow> (tx_script_error, sig_op_counter) result" where
  "counter_consume c =
     (if sig_op_remaining c = 0 then Inl (ExceededSigOpLimit (sig_op_limit c))
      else Inr (c\<lparr>sig_op_remaining := sig_op_remaining c - 1\<rparr>))"

definition used_sig_ops :: "sig_op_counter \<Rightarrow> u8" where
  "used_sig_ops c = sig_op_limit c - sig_op_remaining c"

datatype script_source =
    TxInput (src_tx: populated_transaction) (src_input: transaction_input) (src_idx: nat)
      (src_entry: registry_unit) (src_is_p2sh: bool)
  | StandAloneScripts "bytes list"

record vm =
  dstack :: stack
  astack :: stack
  script_source :: script_source
  vm_reused :: reused_values
  vm_sig_cache :: sig_cache
  cond_stack :: "op_cond list"
  num_ops :: int
  vm_counter :: sig_op_counter

type_synonym 'a vm_op = "(vm, tx_script_error, 'a) sm"

definition is_executing :: "vm \<Rightarrow> bool" where
  "is_executing s \<longleftrightarrow> cond_stack s = [] \<or> last (cond_stack s) = CondTrue"

section \<open>Lifting operations of a part of the state\<close>

definition on_dstack :: "'a stack_op \<Rightarrow> 'a vm_op" where
  "on_dstack m = (\<lambda>s. case m (dstack s) of (r, st) \<Rightarrow> (r, s\<lparr>dstack := st\<rparr>))"

definition push_data :: "bytes \<Rightarrow> unit vm_op" where
  "push_data d = smod (\<lambda>s. s\<lparr>dstack := dstack s @ [d]\<rparr>)"

definition push_number :: "int \<Rightarrow> unit vm_op" where
  "push_number n = on_dstack (push_item serialize_num64 n)"

definition push_bool :: "bool \<Rightarrow> unit vm_op" where
  "push_bool b = on_dstack (push_item serialize_bool b)"

text \<open>\<open>let [a, ..]: [T; n] = vm.dstack.pop_items()?\<close> for \<open>T\<close> = \<open>i64\<close>, \<open>i32\<close>, \<open>bool\<close> and raw bytes.\<close>

definition pop_num64s :: "nat \<Rightarrow> int list vm_op" where
  "pop_num64s n = on_dstack (pop_items n deserialize_num64)"

definition pop_num32 :: "int vm_op" where
  "pop_num32 = sbind (on_dstack (pop_items 1 deserialize_num32)) (\<lambda>v. sret (v ! 0))"

definition pop_bool :: "bool vm_op" where
  "pop_bool = sbind (on_dstack (pop_items 1 deserialize_bool)) (\<lambda>v. sret (v ! 0))"

definition pop_raws :: "nat \<Rightarrow> bytes list vm_op" where
  "pop_raws n = on_dstack (pop_raw n)"

section \<open>Signature checks\<close>

definition consume_sig_op :: "unit vm_op" where
  "consume_sig_op = (\<lambda>s. case counter_consume (vm_counter s) of
      Inl e \<Rightarrow> (Inl e, s) | Inr c \<Rightarrow> (Inr (), s\<lparr>vm_counter := c\<rparr>))"

text \<open>The part of \<open>check_dilithium_signature\<close> after the digest: the cache, then the verifier.\<close>

definition cached_verify :: "crypto \<Rightarrow> bytes \<Rightarrow> bytes \<Rightarrow> bytes \<Rightarrow> bool vm_op" where
  "cached_verify cr sig_bytes pk_bytes msg_bytes = (\<lambda>s.
     let key = \<lparr> key_signature = sig_bytes, key_pub_key = pk_bytes, key_message = msg_bytes \<rparr>;
         (hit, cache) = cache_get key (vm_sig_cache s)
     in case hit of
          Some v \<Rightarrow> (Inr v, s\<lparr>vm_sig_cache := cache\<rparr>)
        | None \<Rightarrow>
            let v = dilithium_verify cr pk_bytes sig_bytes msg_bytes
            in (Inr v, s\<lparr>vm_sig_cache := cache_insert (evict cr) key v cache\<rparr>))"

definition digest_of_input :: "crypto \<Rightarrow> populated_transaction \<Rightarrow> nat \<Rightarrow> u8 \<Rightarrow> bytes vm_op" where
  "digest_of_input cr ptx idx sighash_type = (\<lambda>s.
     case calc_signature_hash (sha3_256 cr) ptx idx sighash_type (vm_reused s) of
       None \<Rightarrow> (Inl Panicked, s)
     | Some (h, rv) \<Rightarrow> (Inr h, s\<lparr>vm_reused := rv\<rparr>))"

definition check_dilithium_signature :: "crypto \<Rightarrow> bytes \<Rightarrow> bytes \<Rightarrow> bool vm_op" where
  "check_dilithium_signature cr pk_hash sig_blob =
     sbind consume_sig_op (\<lambda>_.
     sbind (sget script_source) (\<lambda>src.
     case src of
       StandAloneScripts _ \<Rightarrow> sthrow NotATransactionInput
     | TxInput ptx input idx entry is_p2sh \<Rightarrow>
         if length pk_hash \<noteq> 20 then sthrow PubKeyFormat
         else if length sig_blob < 2 then sthrow InvalidSignature
         else case sighash_from_u8 (last sig_blob) of
           None \<Rightarrow> sthrow (InvalidSigHashType (last sig_blob))
         | Some sighash_type \<Rightarrow>
             if length sig_blob < 1952 + 1 + 1 then sthrow InvalidSignature
             else let pk_bytes = take 1952 sig_blob;
                      sig_bytes = take (length sig_blob - 1 - 1952) (drop 1952 sig_blob)
                  in if take 20 (sha256 cr pk_bytes) \<noteq> pk_hash then sret False
                     else sbind (digest_of_input cr ptx idx sighash_type)
                            (cached_verify cr sig_bytes pk_bytes)))"

text \<open>The inner loop of \<open>op_check_multisig\<close>: the keys left after one that accepts the signature.\<close>

fun match_pub_key :: "crypto \<Rightarrow> bytes \<Rightarrow> nat \<Rightarrow> bytes list \<Rightarrow> bytes list option vm_op" where
  "match_pub_key cr signature need [] = sret None"
| "match_pub_key cr signature need (pub_key # pub_keys) =
     (if length (pub_key # pub_keys) < need then sret None
      else sbind (check_dilithium_signature cr pub_key signature) (\<lambda>v.
        if v then sret (Some pub_keys) else match_pub_key cr signature need pub_keys))"

text \<open>The outer loop; the result is the flag \<open>failed\<close>.\<close>

fun check_signatures :: "crypto \<Rightarrow> bytes list \<Rightarrow> bytes list \<Rightarrow> bool vm_op" where
  "check_signatures cr [] pub_keys = sret False"
| "check_signatures cr (signature # signatures) pub_keys =
     (if signature = [] then sret True
      else case sighash_from_u8 (last signature) of
        None \<Rightarrow> sthrow (InvalidSigHashType (last signature))
      | Some _ \<Rightarrow>
          sbind (match_pub_key cr (butlast signature) (length (signature # signatures)) pub_keys) (\<lambda>r.
            case r of None \<Rightarrow> sret True | Some rest \<Rightarrow> check_signatures cr signatures rest))"

definition op_check_multisig :: "crypto \<Rightarrow> unit vm_op" where
  "op_check_multisig cr =
     sbind pop_num32 (\<lambda>num_keys.
     if num_keys < 0 then sthrow InvalidPubKeyCount
     else if num_keys > MAX_PUB_KEYS_PER_MUTLTISIG then sthrow InvalidPubKeyCount
     else
       sbind (smod (\<lambda>s. s\<lparr>num_ops := num_ops s + num_keys\<rparr>)) (\<lambda>_.
       sbind (sget num_ops) (\<lambda>ops.
       if ops > MAX_OPS_PER_SCRIPT then sthrow (TooManyOperations MAX_OPS_PER_SCRIPT)
       else
         sbind (pop_raws (nat num_keys)) (\<lambda>pub_keys.
         sbind pop_num32 (\<lambda>num_sigs.
         if num_sigs < 0 then sthrow InvalidSignatureCount
         else if num_sigs > num_keys then sthrow InvalidSignatureCount
         else
           sbind (pop_raws (nat num_sigs)) (\<lambda>signatures.
           sbind (check_signatures cr signatures pub_keys) (\<lambda>failed.
           if failed \<and> (\<exists>sig \<in> set signatures. sig \<noteq> []) then sthrow NullFail
           else push_bool (\<not> failed))))))))"

text \<open>Concrete functions for the witnesses: a signature scheme that accepts everything.\<close>

definition demo_crypto :: crypto where
  "demo_crypto = \<lparr>sha256 = \<lambda>_. replicate 32 5, sha3_256 = demo_digest, dilithium_verify = \<lambda>_ _ _. True, evict = \<lambda>_. 0\<rparr>"

end
