(* ===== verification/Opcode_Exec.thy ===== *)
theory Opcode_Exec
  imports Engine_State
begin

text \<open>
  The execution code of the opcodes (\<open>opcode_list!\<close> in
  \<^verbatim>\<open>crypto/txscript/src/opcodes/mod.rs\<close>), one definition per opcode that has its own
  body, and their dispatch by code byte.
\<close>

section \<open>Pushes and control flow\<close>

definition op_false :: "unit vm_op" where
  "op_false = push_data []"

definition op_push :: "opcode \<Rightarrow> unit vm_op" where
  "op_push opc = push_data (op_data opc)"

definition op_1negate :: "unit vm_op" where
  "op_1negate = push_number (- 1)"

definition op_small_int :: "opcode \<Rightarrow> unit vm_op" where
  "op_small_int opc = push_number (uint (op_value opc) - 0x50)"

definition op_if :: "unit vm_op" where
  "op_if = (\<lambda>s.
     if is_executing s then
       (if dstack s = [] then (Inl EmptyStack, s)
        else let cond_buf = last (dstack s); s = s\<lparr>dstack := butlast (dstack s)\<rparr>
             in if length cond_buf > 1 then (Inl InvalidState, s)
                else case cond_buf of
                  [] \<Rightarrow> (Inr (), s\<lparr>cond_stack := cond_stack s @ [CondFalse]\<rparr>)
                | c # _ \<Rightarrow> if c = 1 then (Inr (), s\<lparr>cond_stack := cond_stack s @ [CondTrue]\<rparr>)
                          else (Inl InvalidState, s))
     else (Inr (), s\<lparr>cond_stack := cond_stack s @ [CondSkip]\<rparr>))"

definition op_notif :: "unit vm_op" where
  "op_notif = (\<lambda>s.
     if is_executing s then
       (if dstack s = [] then (Inl EmptyStack, s)
        else let cond_buf = last (dstack s); s = s\<lparr>dstack := butlast (dstack s)\<rparr>
             in if length cond_buf > 1 then (Inl InvalidState, s)
                else case cond_buf of
                  [] \<Rightarrow> (Inr (), s\<lparr>cond_stack := cond_stack s @ [CondTrue]\<rparr>)
                | c # _ \<Rightarrow> if c = 1 then (Inr (), s\<lparr>cond_stack := cond_stack s @ [CondFalse]\<rparr>)
                          else (Inl InvalidState, s))
     else (Inr (), s\<lparr>cond_stack := cond_stack s @ [CondSkip]\<rparr>))"

definition op_else :: "unit vm_op" where
  "op_else = (\<lambda>s.
     if cond_stack s = [] then (Inl InvalidState, s)
     else (Inr (), s\<lparr>cond_stack := butlast (cond_stack s) @ [negate (last (cond_stack s))]\<rparr>))"

definition op_endif :: "unit vm_op" where
  "op_endif = (\<lambda>s.
     if cond_stack s = [] then (Inl InvalidState, s)
     else (Inr (), s\<lparr>cond_stack := butlast (cond_stack s)\<rparr>))"

definition op_verify :: "unit vm_op" where
  "op_verify = sbind pop_bool (\<lambda>result. if result then sret () else sthrow VerifyError)"

section \<open>Stack opcodes\<close>

definition op_to_alt_stack :: "unit vm_op" where
  "op_to_alt_stack =
     sbind (pop_raws 1) (\<lambda>v. smod (\<lambda>s. s\<lparr>astack := astack s @ [v ! 0]\<rparr>))"

definition op_from_alt_stack :: "unit vm_op" where
  "op_from_alt_stack = (\<lambda>s.
     if astack s = [] then (Inl EmptyStack, s)
     else (Inr (), s\<lparr>astack := butlast (astack s), dstack := dstack s @ [last (astack s)]\<rparr>))"

definition op_if_dup :: "unit vm_op" where
  "op_if_dup =
     sbind (on_dstack (peek_raw 1)) (\<lambda>v.
     sbind (slift (deserialize_bool (v ! 0))) (\<lambda>b.
     if b then push_data (v ! 0) else sret ()))"

definition op_depth :: "unit vm_op" where
  "op_depth = sbind (sget dstack) (\<lambda>st. push_number (int (length st)))"

definition op_nip :: "unit vm_op" where
  "op_nip = (\<lambda>s. let st = dstack s; n = length st in
     if n \<ge> 2 then (Inr (), s\<lparr>dstack := take (n - 2) st @ drop (n - 1) st\<rparr>)
     else (Inl (InvalidStackOperation 2 n), s))"

definition op_pick :: "unit vm_op" where
  "op_pick =
     sbind pop_num32 (\<lambda>loc.
     sbind (sget dstack) (\<lambda>st.
     if loc < 0 \<or> nat loc \<ge> length st then sthrow InvalidState
     else push_data (st ! (length st - nat loc - 1))))"

definition op_roll :: "unit vm_op" where
  "op_roll =
     sbind pop_num32 (\<lambda>loc. (\<lambda>s. let st = dstack s; i = length st - nat loc - 1 in
     if loc < 0 \<or> nat loc \<ge> length st then (Inl InvalidState, s)
     else (Inr (), s\<lparr>dstack := take i st @ drop (i + 1) st @ [st ! i]\<rparr>)))"

definition op_tuck :: "unit vm_op" where
  "op_tuck = (\<lambda>s. let st = dstack s; n = length st in
     if n \<ge> 2 then (Inr (), s\<lparr>dstack := take (n - 2) st @ [last st] @ drop (n - 2) st\<rparr>)
     else (Inl (InvalidStackOperation 2 n), s))"

definition op_size :: "unit vm_op" where
  "op_size =
     sbind (sget dstack) (\<lambda>st.
     if st = [] then sthrow (InvalidStackOperation 1 0)
     else if int (length (last st)) > i64_max then sthrow NumberTooBig
     else push_number (int (length (last st))))"

definition op_equal :: "unit vm_op" where
  "op_equal = sbind (pop_raws 2) (\<lambda>p. push_data (if p ! 0 = p ! 1 then [1] else []))"

definition op_equal_verify :: "unit vm_op" where
  "op_equal_verify = sbind (pop_raws 2) (\<lambda>p. if p ! 0 = p ! 1 then sret () else sthrow VerifyError)"

section \<open>Numeric opcodes\<close>

text \<open>\<open>checked_*\<close> on \<open>i64\<close>: the exact result, or \<open>NumberTooBig\<close> outside of the range.\<close>

definition push_checked :: "int \<Rightarrow> unit vm_op" where
  "push_checked r = (if in_i64 r then push_number r else sthrow NumberTooBig)"

definition op_1add :: "unit vm_op" where
  "op_1add = sbind (pop_num64s 1) (\<lambda>v. push_checked (v ! 0 + 1))"

definition op_1sub :: "unit vm_op" where
  "op_1sub = sbind (pop_num64s 1) (\<lambda>v. push_checked (v ! 0 - 1))"

definition op_negate :: "unit vm_op" where
  "op_negate = sbind (pop_num64s 1) (\<lambda>v. push_checked (- (v ! 0)))"

definition op_abs :: "unit vm_op" where
  "op_abs = sbind (pop_num64s 1) (\<lambda>v. push_checked \<bar>v ! 0\<bar>)"

definition op_not :: "unit vm_op" where
  "op_not = sbind (pop_num64s 1) (\<lambda>v. push_number (of_bool (v ! 0 = 0)))"

definition op_0not_equal :: "unit vm_op" where
  "op_0not_equal = sbind (pop_num64s 1) (\<lambda>v. push_number (of_bool (v ! 0 \<noteq> 0)))"

definition op_add :: "unit vm_op" where
  "op_add = sbind (pop_num64s 2) (\<lambda>v. push_checked (v ! 0 + v ! 1))"

definition op_sub :: "unit vm_op" where
  "op_sub = sbind (pop_num64s 2) (\<lambda>v. push_checked (v ! 0 - v ! 1))"

definition op_bool_and :: "unit vm_op" where
  "op_bool_and = sbind (pop_num64s 2) (\<lambda>v. push_number (of_bool (v ! 0 \<noteq> 0 \<and> v ! 1 \<noteq> 0)))"

definition op_bool_or :: "unit vm_op" where
  "op_bool_or = sbind (pop_num64s 2) (\<lambda>v. push_number (of_bool (v ! 0 \<noteq> 0 \<or> v ! 1 \<noteq> 0)))"

definition op_num_equal :: "unit vm_op" where
  "op_num_equal = sbind (pop_num64s 2) (\<lambda>v. push_number (of_bool (v ! 0 = v ! 1)))"

definition op_num_equal_verify :: "unit vm_op" where
  "op_num_equal_verify = sbind (pop_num64s 2) (\<lambda>v. if v ! 0 = v ! 1 then sret () else sthrow VerifyError)"

definition op_num_not_equal :: "unit vm_op" where
  "op_num_not_equal = sbind (pop_num64s 2) (\<lambda>v. push_number (of_bool (v ! 0 \<noteq> v ! 1)))"

definition op_less_than :: "unit vm_op" where
  "op_less_than = sbind (pop_num64s 2) (\<lambda>v. push_number (of_bool (v ! 0 < v ! 1)))"

definition op_greater_than :: "unit vm_op" where
  "op_greater_than = sbind (pop_num64s 2) (\<lambda>v. push_number (of_bool (v ! 0 > v ! 1)))"

definition op_less_than_or_equal :: "unit vm_op" where
  "op_less_than_or_equal = sbind (pop_num64s 2) (\<lambda>v. push_number (of_bool (v ! 0 \<le> v ! 1)))"

definition op_greater_than_or_equal :: "unit vm_op" where
  "op_greater_than_or_equal = sbind (pop_num64s 2) (\<lambda>v. push_number (of_bool (v ! 0 \<ge> v ! 1)))"

definition op_min :: "unit vm_op" where
  "op_min = sbind (pop_num64s 2) (\<lambda>v. push_number (min (v ! 0) (v ! 1)))"

definition op_max :: "unit vm_op" where
  "op_max = sbind (pop_num64s 2) (\<lambda>v. push_number (max (v ! 0) (v ! 1)))"

definition op_within :: "unit vm_op" where
  "op_within = sbind (pop_num64s 3) (\<lambda>v. push_number (of_bool (v ! 0 \<ge> v ! 1 \<and> v ! 0 < v ! 2)))"

section \<open>Hashes and signatures\<close>

definition op_sha256 :: "crypto \<Rightarrow> unit vm_op" where
  "op_sha256 cr = sbind (pop_raws 1) (\<lambda>v. push_data (sha256 cr (v ! 0)))"

definition op_blake2b :: "crypto \<Rightarrow> unit vm_op" where
  "op_blake2b cr = sbind (pop_raws 1) (\<lambda>v. push_data (sha3_256 cr (v ! 0)))"

definition op_check_sig :: "crypto \<Rightarrow> unit vm_op" where
  "op_check_sig cr =
     sbind (pop_raws 2) (\<lambda>v.
     sbind (check_dilithium_signature cr (v ! 1) (v ! 0)) push_bool)"

definition op_check_sig_ecdsa :: "crypto \<Rightarrow> unit vm_op" where
  "op_check_sig_ecdsa cr =
     sbind (pop_raws 2) (\<lambda>v.
     sbind (check_dilithium_signature cr (v ! 1) (v ! 0)) push_bool)"

definition op_check_sig_verify :: "crypto \<Rightarrow> unit vm_op" where
  "op_check_sig_verify cr =
     sbind (op_check_sig cr) (\<lambda>_.
     sbind pop_bool (\<lambda>v. if v then sret () else sthrow VerifyError))"

definition op_check_multisig_verify :: "crypto \<Rightarrow> unit vm_op" where
  "op_check_multisig_verify cr =
     sbind (op_check_multisig cr) (\<lambda>_.
     sbind pop_bool (\<lambda>v. if v then sret () else sthrow VerifyError))"

section \<open>Lock times\<close>

text \<open>\<open>lock_time_bytes.resize(8, 0)\<close>, then \<open>u64::from_le_bytes\<close>\<close>

definition padded_u64 :: "bytes \<Rightarrow> u64" where
  "padded_u64 bs = u64_from_le (take 8 (bs @ replicate 8 0))"

definition op_check_lock_time_verify :: "unit vm_op" where
  "op_check_lock_time_verify =
     sbind (sget script_source) (\<lambda>src.
     case src of
       StandAloneScripts _ \<Rightarrow> sthrow InvalidSource
     | TxInput ptx input idx entry is_p2sh \<Rightarrow>
         sbind (pop_raws 1) (\<lambda>v.
         if length (v ! 0) > 8 then sthrow NumberTooBig
         else let stack_lock_time = padded_u64 (v ! 0); lock_time = tx_lock_time (pop_tx ptx) in
           if \<not> (lock_time < LOCK_TIME_THRESHOLD \<and> stack_lock_time < LOCK_TIME_THRESHOLD \<or>
                 lock_time \<ge> LOCK_TIME_THRESHOLD \<and> stack_lock_time \<ge> LOCK_TIME_THRESHOLD)
           then sthrow UnsatisfiedLockTime
           else if stack_lock_time > lock_time then sthrow UnsatisfiedLockTime
           else if sequence input = MAX_TX_IN_SEQUENCE_NUM then sthrow UnsatisfiedLockTime
           else sret ()))"

definition op_check_sequence_verify :: "unit vm_op" where
  "op_check_sequence_verify =
     sbind (sget script_source) (\<lambda>src.
     case src of
       StandAloneScripts _ \<Rightarrow> sthrow InvalidSource
     | TxInput ptx input idx entry is_p2sh \<Rightarrow>
         sbind (pop_raws 1) (\<lambda>v.
         if length (v ! 0) > 8 then sthrow NumberTooBig
         else let stack_sequence = padded_u64 (v ! 0) in
           if stack_sequence AND SEQUENCE_LOCK_TIME_DISABLED \<noteq> 0 then sret ()
           else if sequence input AND SEQUENCE_LOCK_TIME_DISABLED \<noteq> 0 then sthrow UnsatisfiedLockTime
           else if stack_sequence AND SEQUENCE_LOCK_TIME_MASK > sequence input AND SEQUENCE_LOCK_TIME_MASK
             then sthrow UnsatisfiedLockTime
           else sret ()))"

section \<open>Introspection\<close>

text \<open>\<open>SpkEncoding::to_bytes\<close>: the version in big-endian order, then the script.\<close>

definition spk_to_bytes :: "script_public_key \<Rightarrow> bytes" where
  "spk_to_bytes spk = rev (u16_to_le (spk_version spk)) @ spk_script spk"

text \<open>A match on \<open>ScriptSource::TxInput\<close> that fails with \<open>InvalidSource\<close> otherwise.\<close>

definition with_tx :: "(populated_transaction \<Rightarrow> nat \<Rightarrow> 'a vm_op) \<Rightarrow> 'a vm_op" where
  "with_tx f = sbind (sget script_source) (\<lambda>src.
     case src of StandAloneScripts _ \<Rightarrow> sthrow InvalidSource | TxInput ptx input idx entry is_p2sh \<Rightarrow> f ptx idx)"

text \<open>\<open>usize::try_from(idx).ok().and_then(..)\<close>\<close>

definition index_of :: "(nat \<Rightarrow> 'a option) \<Rightarrow> int \<Rightarrow> 'a option" where
  "index_of f idx = (if idx < 0 then None else f (nat idx))"

definition output_at :: "populated_transaction \<Rightarrow> nat \<Rightarrow> transaction_output option" where
  "output_at ptx i = (if i < length (tx_outputs (pop_tx ptx)) then Some (tx_outputs (pop_tx ptx) ! i) else None)"

text \<open>\<open>push_number(amount.try_into()?)\<close>\<close>

definition push_amount :: "u64 \<Rightarrow> unit vm_op" where
  "push_amount a = (if uint a > i64_max then sthrow NumberTooBig else push_number (uint a))"

definition op_tx_input_count :: "unit vm_op" where
  "op_tx_input_count = with_tx (\<lambda>ptx idx. push_number (int (length (tx_inputs (pop_tx ptx)))))"

definition op_tx_output_count :: "unit vm_op" where
  "op_tx_output_count = with_tx (\<lambda>ptx idx. push_number (int (length (tx_outputs (pop_tx ptx)))))"

definition op_tx_input_index :: "unit vm_op" where
  "op_tx_input_index = with_tx (\<lambda>ptx idx. push_number (int idx))"

definition op_tx_input_amount :: "unit vm_op" where
  "op_tx_input_amount = with_tx (\<lambda>ptx _.
     sbind pop_num32 (\<lambda>idx.
     case index_of (registry_unit_at ptx) idx of
       None \<Rightarrow> sthrow (InvalidInputIndex idx (length (tx_inputs (pop_tx ptx))))
     | Some unit \<Rightarrow> push_amount (ru_amount unit)))"

definition op_tx_input_spk :: "unit vm_op" where
  "op_tx_input_spk = with_tx (\<lambda>ptx _.
     sbind pop_num32 (\<lambda>idx.
     case index_of (registry_unit_at ptx) idx of
       None \<Rightarrow> sthrow (InvalidInputIndex idx (length (tx_inputs (pop_tx ptx))))
     | Some unit \<Rightarrow> push_data (spk_to_bytes (ru_script_public_key unit))))"

text \<open>As in the source, the error of the two output opcodes carries the number of inputs.\<close>

definition op_tx_output_amount :: "unit vm_op" where
  "op_tx_output_amount = with_tx (\<lambda>ptx _.
     sbind pop_num32 (\<lambda>idx.
     case index_of (output_at ptx) idx of
       None \<Rightarrow> sthrow (InvalidOutputIndex idx (length (tx_inputs (pop_tx ptx))))
     | Some out \<Rightarrow> push_amount (out_value out)))"

definition op_tx_output_spk :: "unit vm_op" where
  "op_tx_output_spk = with_tx (\<lambda>ptx _.
     sbind pop_num32 (\<lambda>idx.
     case index_of (output_at ptx) idx of
       None \<Rightarrow> sthrow (InvalidOutputIndex idx (length (tx_inputs (pop_tx ptx))))
     | Some out \<Rightarrow> push_data (spk_to_bytes (out_script_public_key out))))"

section \<open>Dispatch\<close>

definition op_reserved :: "u8 list" where
  "op_reserved = [0x50, 0x62, 0x65, 0x66, 0x89, 0x8a, 0xb2, 0xb5, 0xb6, 0xb7, 0xb8, 0xba, 0xbb, 0xbc, 0xbd, 0xc0, 0xc1]"

definition exec_control :: "opcode \<Rightarrow> unit vm_op option" where
  "exec_control opc = map_of
     [(0x61, sret ()), (0x63, op_if), (0x64, op_notif), (0x67, op_else), (0x68, op_endif),
      (0x69, op_verify), (0x6a, sthrow EarlyReturn)] (op_value opc)"

definition exec_stack :: "opcode \<Rightarrow> unit vm_op option" where
  "exec_stack opc = map_of
     [(0x6b, op_to_alt_stack), (0x6c, op_from_alt_stack), (0x6d, on_dstack (drop_items 2)),
      (0x6e, on_dstack (dup_items 2)), (0x6f, on_dstack (dup_items 3)), (0x70, on_dstack (over_items 2)),
      (0x71, on_dstack (rot_items 2)), (0x72, on_dstack (swap_items 2)), (0x73, op_if_dup), (0x74, op_depth),
      (0x75, on_dstack (drop_items 1)), (0x76, on_dstack (dup_items 1)), (0x77, op_nip),
      (0x78, on_dstack (over_items 1)), (0x79, op_pick), (0x7a, op_roll), (0x7b, on_dstack (rot_items 1)),
      (0x7c, on_dstack (swap_items 1)), (0x7d, op_tuck), (0x82, op_size), (0x87, op_equal),
      (0x88, op_equal_verify)] (op_value opc)"

definition exec_numeric :: "opcode \<Rightarrow> unit vm_op option" where
  "exec_numeric opc = map_of
     [(0x8b, op_1add), (0x8c, op_1sub), (0x8f, op_negate), (0x90, op_abs), (0x91, op_not),
      (0x92, op_0not_equal), (0x93, op_add), (0x94, op_sub), (0x9a, op_bool_and), (0x9b, op_bool_or),
      (0x9c, op_num_equal), (0x9d, op_num_equal_verify), (0x9e, op_num_not_equal), (0x9f, op_less_than),
      (0xa0, op_greater_than), (0xa1, op_less_than_or_equal), (0xa2, op_greater_than_or_equal),
      (0xa3, op_min), (0xa4, op_max), (0xa5, op_within)] (op_value opc)"

definition exec_crypto :: "crypto \<Rightarrow> opcode \<Rightarrow> unit vm_op option" where
  "exec_crypto cr opc = map_of
     [(0xa8, op_sha256 cr), (0xa9, op_check_multisig cr), (0xaa, op_blake2b cr), (0xab, op_check_sig_ecdsa cr),
      (0xac, op_check_sig cr), (0xad, op_check_sig_verify cr), (0xae, op_check_multisig cr),
      (0xaf, op_check_multisig_verify cr), (0xb0, op_check_lock_time_verify), (0xb1, op_check_sequence_verify)]
     (op_value opc)"

definition exec_introspection :: "opcode \<Rightarrow> unit vm_op option" where
  "exec_introspection opc = map_of
     [(0xb3, op_tx_input_count), (0xb4, op_tx_output_count), (0xb9, op_tx_input_index),
      (0xbe, op_tx_input_amount), (0xbf, op_tx_input_spk), (0xc2, op_tx_output_amount),
      (0xc3, op_tx_output_spk)] (op_value opc)"

definition orelse :: "'a option \<Rightarrow> 'a option \<Rightarrow> 'a option" where
  "orelse a b = (case a of None \<Rightarrow> b | Some _ \<Rightarrow> a)"

text \<open>\<open>OpCodeExecution::execute\<close> of the opcode with the given code byte.\<close>

definition opcode_execute :: "crypto \<Rightarrow> opcode \<Rightarrow> unit vm_op" where
  "opcode_execute cr opc =
     (let c = op_value opc in
      if c = OpFalse then op_false
      else if c \<le> OpPushData4 then op_push opc
      else if c = Op1Negate then op_1negate
      else if OpTrue \<le> c \<and> c \<le> Op16 then op_small_int opc
      else if c \<in> set op_reserved then sthrow (OpcodeReserved opc)
      else if is_disabled opc then sthrow (OpcodeDisabled opc)
      else case orelse (exec_control opc) (orelse (exec_stack opc) (orelse (exec_numeric opc)
             (orelse (exec_crypto cr opc) (exec_introspection opc)))) of
        Some m \<Rightarrow> m
      | None \<Rightarrow> sthrow (InvalidOpcode opc))"

end
