(* ===== verification/Script_Class.thy ===== *)
theory Script_Class
  imports Opcodes Tx_Types
begin

text \<open>
  Standard script templates: the classes of \<^verbatim>\<open>crypto/txscript/src/script_class.rs\<close> and
  the constructors and extractors of \<^verbatim>\<open>crypto/txscript/src/standard.rs\<close>.  The lemmas show
  that an address survives the trip through its script and that exactly the template scripts
  have an address.
\<close>

section \<open>Classes\<close>

datatype script_class = NonStandard | PubKey | PubKeyECDSA | ScriptHash | PubKeyDilithium

definition is_pay_to_pubkey :: "bytes \<Rightarrow> bool" where
  "is_pay_to_pubkey s \<longleftrightarrow> length s = 34 \<and> s ! 0 = OpData32 \<and> s ! 33 = OpCheckSig"

definition is_pay_to_pubkey_ecdsa :: "bytes \<Rightarrow> bool" where
  "is_pay_to_pubkey_ecdsa s \<longleftrightarrow> length s = 35 \<and> s ! 0 = OpData33 \<and> s ! 34 = OpCheckSigECDSA"

definition is_pay_to_script_hash :: "bytes \<Rightarrow> bool" where
  "is_pay_to_script_hash s \<longleftrightarrow> length s = 35 \<and> s ! 0 = OpBlake2b \<and> s ! 1 = OpData32 \<and> s ! 34 = OpEqual"

definition is_pay_to_pubkey_dilithium :: "bytes \<Rightarrow> bool" where
  "is_pay_to_pubkey_dilithium s \<longleftrightarrow> length s = 22 \<and> s ! 0 = 0x14 \<and> s ! 21 = OpCheckSig"

definition class_from_script :: "script_public_key \<Rightarrow> script_class" where
  "class_from_script spk =
     (let s = spk_script spk in
      if spk_version spk = 0 then
        (if is_pay_to_pubkey_dilithium s then PubKeyDilithium
         else if is_pay_to_pubkey s then PubKey
         else if is_pay_to_pubkey_ecdsa s then PubKeyECDSA
         else if is_pay_to_script_hash s then ScriptHash
         else NonStandard)
      else NonStandard)"

fun class_version :: "script_class \<Rightarrow> u16" where
  "class_version NonStandard = 0"
| "class_version PubKey = 0"
| "class_version PubKeyECDSA = 0"
| "class_version ScriptHash = 0"
| "class_version PubKeyDilithium = 0"

fun class_as_str :: "script_class \<Rightarrow> string" where
  "class_as_str NonStandard = ''nonstandard''"
| "class_as_str PubKey = ''pubkey''"
| "class_as_str PubKeyECDSA = ''pubkeyecdsa''"
| "class_as_str ScriptHash = ''scripthash''"
| "class_as_str PubKeyDilithium = ''pubkeydilithium''"

definition class_from_str :: "string \<Rightarrow> script_class option" where
  "class_from_str s =
     (if s = ''nonstandard'' then Some NonStandard
      else if s = ''pubkey'' then Some PubKey
      else if s = ''pubkeyecdsa'' then Some PubKeyECDSA
      else if s = ''scripthash'' then Some ScriptHash
      else if s = ''pubkeydilithium'' then Some PubKeyDilithium
      else None)"

section \<open>Addresses\<close>

datatype prefix = Mainnet | Testnet | Simnet | Devnet

datatype address_version = VPubKey | VPubKeyECDSA | VScriptHash | VPubKeyDilithium

fun public_key_len :: "address_version \<Rightarrow> nat" where
  "public_key_len VPubKey = 32"
| "public_key_len VPubKeyECDSA = 33"
| "public_key_len VScriptHash = 32"
| "public_key_len VPubKeyDilithium = 20"

record address =
  addr_prefix :: prefix
  addr_version :: address_version
  addr_payload :: bytes

text \<open>\<open>Address::new\<close> asserts the payload length; \<open>None\<close> is the panic.\<close>

definition address_new :: "prefix \<Rightarrow> address_version \<Rightarrow> bytes \<Rightarrow> address option" where
  "address_new pfx ver payload =
     (if length payload = public_key_len ver
      then Some \<lparr> addr_prefix = pfx, addr_version = ver, addr_payload = payload \<rparr> else None)"

fun class_of_version :: "address_version \<Rightarrow> script_class" where
  "class_of_version VPubKey = PubKey"
| "class_of_version VPubKeyECDSA = PubKeyECDSA"
| "class_of_version VScriptHash = ScriptHash"
| "class_of_version VPubKeyDilithium = PubKeyDilithium"

section \<open>Templates\<close>

text \<open>The constructors assert the payload length; \<open>None\<close> is the panic.\<close>

definition pay_to_pub_key :: "bytes \<Rightarrow> bytes option" where
  "pay_to_pub_key payload =
     (if length payload = 32 then Some ([OpData32] @ payload @ [OpCheckSig]) else None)"

definition pay_to_pub_key_ecdsa :: "bytes \<Rightarrow> bytes option" where
  "pay_to_pub_key_ecdsa payload =
     (if length payload = 33 then Some ([OpData33] @ payload @ [OpCheckSigECDSA]) else None)"

definition pay_to_pub_key_dilithium :: "bytes \<Rightarrow> bytes option" where
  "pay_to_pub_key_dilithium payload =
     (if length payload = 20 then Some ([0x14] @ payload @ [0xac]) else None)"

definition pay_to_script_hash :: "bytes \<Rightarrow> bytes option" where
  "pay_to_script_hash script_hash =
     (if length script_hash = 32 then Some ([OpBlake2b, OpData32] @ script_hash @ [OpEqual]) else None)"

definition pay_to_address_script :: "address \<Rightarrow> script_public_key option" where
  "pay_to_address_script a =
     map_option (\<lambda>s. \<lparr> spk_version = class_version (class_of_version (addr_version a)), spk_script = s \<rparr>)
       (case addr_version a of
          VPubKey \<Rightarrow> pay_to_pub_key (addr_payload a)
        | VPubKeyECDSA \<Rightarrow> pay_to_pub_key_ecdsa (addr_payload a)
        | VScriptHash \<Rightarrow> pay_to_script_hash (addr_payload a)
        | VPubKeyDilithium \<Rightarrow> pay_to_pub_key_dilithium (addr_payload a))"

definition pay_to_script_hash_script :: "(bytes \<Rightarrow> bytes) \<Rightarrow> bytes \<Rightarrow> script_public_key option" where
  "pay_to_script_hash_script sha3 redeem_script =
     map_option (\<lambda>s. \<lparr> spk_version = class_version ScriptHash, spk_script = s \<rparr>)
       (pay_to_script_hash (sha3 redeem_script))"

text \<open>The outer \<open>option\<close> is the panic of \<open>Address::new\<close>; the slices are in range by the class.\<close>

definition extract_script_pub_key_address ::
    "script_public_key \<Rightarrow> prefix \<Rightarrow> (tx_script_error, address) result option" where
  "extract_script_pub_key_address spk pfx =
     (let cls = class_from_script spk; s = spk_script spk in
      if spk_version spk > class_version cls then Some (Inl PubKeyFormat)
      else case cls of
        NonStandard \<Rightarrow> Some (Inl PubKeyFormat)
      | PubKey \<Rightarrow> map_option Inr (address_new pfx VPubKey (take 32 (drop 1 s)))
      | PubKeyECDSA \<Rightarrow> map_option Inr (address_new pfx VPubKeyECDSA (take 33 (drop 1 s)))
      | ScriptHash \<Rightarrow> map_option Inr (address_new pfx VScriptHash (take 32 (drop 2 s)))
      | PubKeyDilithium \<Rightarrow> map_option Inr (address_new pfx VPubKeyDilithium (take 20 (drop 1 s))))"

lemmas template_defs = pay_to_pub_key_def pay_to_pub_key_ecdsa_def pay_to_pub_key_dilithium_def
  pay_to_script_hash_def is_pay_to_pubkey_def is_pay_to_pubkey_ecdsa_def is_pay_to_script_hash_def
  is_pay_to_pubkey_dilithium_def

section \<open>Templates and classes\<close>

lemma class_from_as_str: "class_from_str (class_as_str c) = Some c"
  by (cases c) (simp_all add: class_from_str_def)

lemma class_as_from_str: "class_from_str s = Some c \<Longrightarrow> class_as_str c = s"
  by (auto simp: class_from_str_def split: if_splits)

text \<open>A script between a fixed head and a fixed last byte is those around a payload.\<close>

lemma sandwich:
  assumes "length s = length h + n + 1" "take (length h) s = h" "s ! (length h + n) = c"
  shows "s = h @ take n (drop (length h) s) @ [c]"
proof -
  have "s = take (length h) s @ take n (drop (length h) s) @ drop (length h + n) s"
    by (simp add: append_take_drop_id take_add [symmetric] flip: append_assoc)
  moreover have "drop (length h + n) s = [c]"
    using assms by (simp add: Cons_nth_drop_Suc [symmetric])
  ultimately show ?thesis using assms(2) by simp
qed

lemma take_2_nth: "2 \<le> length s \<Longrightarrow> take 2 s = [s ! 0, s ! 1]"
  by (cases s; cases "tl s") (auto simp: numeral_2_eq_2)

lemma take_1_nth: "1 \<le> length s \<Longrightarrow> take 1 s = [s ! 0]"
  by (cases s) auto

lemma is_pay_to_pubkey_iff: "is_pay_to_pubkey s \<longleftrightarrow> (\<exists>p. pay_to_pub_key p = Some s)"
  using sandwich [of s "[OpData32]" 32 OpCheckSig] take_1_nth [of s]
  by (auto simp: template_defs nth_append intro!: exI [of _ "take 32 (drop 1 s)"])

lemma is_pay_to_pubkey_ecdsa_iff: "is_pay_to_pubkey_ecdsa s \<longleftrightarrow> (\<exists>p. pay_to_pub_key_ecdsa p = Some s)"
  using sandwich [of s "[OpData33]" 33 OpCheckSigECDSA] take_1_nth [of s]
  by (auto simp: template_defs nth_append intro!: exI [of _ "take 33 (drop 1 s)"])

lemma is_pay_to_pubkey_dilithium_iff: "is_pay_to_pubkey_dilithium s \<longleftrightarrow> (\<exists>p. pay_to_pub_key_dilithium p = Some s)"
  using sandwich [of s "[0x14]" 20 OpCheckSig] take_1_nth [of s]
  by (auto simp: template_defs nth_append intro!: exI [of _ "take 20 (drop 1 s)"])

lemma is_pay_to_script_hash_iff: "is_pay_to_script_hash s \<longleftrightarrow> (\<exists>p. pay_to_script_hash p = Some s)"
  using sandwich [of s "[OpBlake2b, OpData32]" 32 OpEqual] take_2_nth [of s]
  by (auto simp: template_defs nth_append numeral_2_eq_2 intro!: exI [of _ "take 32 (drop 2 s)"])

text \<open>A well-formed address and its script determine each other.\<close>

definition wf_address :: "address \<Rightarrow> bool" where
  "wf_address a \<longleftrightarrow> length (addr_payload a) = public_key_len (addr_version a)"

lemma pay_to_address_class:
  assumes "pay_to_address_script a = Some spk"
  shows "class_from_script spk = class_of_version (addr_version a)"
  using assms
  by (cases "addr_version a")
     (auto simp: pay_to_address_script_def class_from_script_def template_defs nth_append split: if_splits)

lemma extract_pay_to_address:
  assumes "wf_address a"
  shows "\<exists>spk. pay_to_address_script a = Some spk \<and>
    extract_script_pub_key_address spk (addr_prefix a) = Some (Inr a)"
proof -
  obtain spk where spk: "pay_to_address_script a = Some spk"
    using assms by (cases "addr_version a") (auto simp: wf_address_def pay_to_address_script_def template_defs)
  have "extract_script_pub_key_address spk (addr_prefix a) = Some (Inr a)"
    using spk pay_to_address_class [OF spk] assms
    by (cases "addr_version a")
       (auto simp: extract_script_pub_key_address_def pay_to_address_script_def template_defs address_new_def
         wf_address_def Let_def split: if_splits)
  with spk show ?thesis by blast
qed

lemma class_from_script_template:
  "class_from_script spk = PubKey \<Longrightarrow> \<exists>p. pay_to_pub_key p = Some (spk_script spk)"
  "class_from_script spk = PubKeyECDSA \<Longrightarrow> \<exists>p. pay_to_pub_key_ecdsa p = Some (spk_script spk)"
  "class_from_script spk = ScriptHash \<Longrightarrow> \<exists>p. pay_to_script_hash p = Some (spk_script spk)"
  "class_from_script spk = PubKeyDilithium \<Longrightarrow> \<exists>p. pay_to_pub_key_dilithium p = Some (spk_script spk)"
  by (auto simp: class_from_script_def Let_def is_pay_to_pubkey_iff is_pay_to_pubkey_ecdsa_iff
      is_pay_to_script_hash_iff is_pay_to_pubkey_dilithium_iff split: if_splits)

lemma class_from_script_version: "class_from_script spk \<noteq> NonStandard \<Longrightarrow> spk_version spk = 0"
  by (auto simp: class_from_script_def Let_def split: if_splits)

lemma extract_standard:
  assumes "class_from_script spk \<noteq> NonStandard"
  shows "\<exists>a. extract_script_pub_key_address spk pfx = Some (Inr a) \<and> addr_prefix a = pfx \<and>
    wf_address a \<and> pay_to_address_script a = Some spk"
proof -
  have v: "spk_version spk = 0" using assms by (rule class_from_script_version)
  have eq: "\<lparr> spk_version = 0, spk_script = spk_script spk \<rparr> = spk" using v by simp
  show ?thesis
  proof (cases "class_from_script spk")
    case NonStandard with assms show ?thesis by simp
  next
    case PubKey
    then obtain p where p: "length p = 32" "spk_script spk = [OpData32] @ p @ [OpCheckSig]"
      using class_from_script_template(1) [OF PubKey] by (auto simp: template_defs split: if_splits)
    then show ?thesis using v PubKey eq
      by (simp add: extract_script_pub_key_address_def address_new_def pay_to_address_script_def template_defs wf_address_def Let_def)
  next
    case PubKeyECDSA
    then obtain p where p: "length p = 33" "spk_script spk = [OpData33] @ p @ [OpCheckSigECDSA]"
      using class_from_script_template(2) [OF PubKeyECDSA] by (auto simp: template_defs split: if_splits)
    then show ?thesis using v PubKeyECDSA eq
      by (simp add: extract_script_pub_key_address_def address_new_def pay_to_address_script_def template_defs wf_address_def Let_def)
  next
    case ScriptHash
    then obtain p where p: "length p = 32" "spk_script spk = [OpBlake2b, OpData32] @ p @ [OpEqual]"
      using class_from_script_template(3) [OF ScriptHash] by (auto simp: template_defs split: if_splits)
    then show ?thesis using v ScriptHash eq
      by (simp add: extract_script_pub_key_address_def address_new_def pay_to_address_script_def template_defs wf_address_def Let_def)
  next
    case PubKeyDilithium
    then obtain p where p: "length p = 20" "spk_script spk = [0x14] @ p @ [0xac]"
      using class_from_script_template(4) [OF PubKeyDilithium] by (auto simp: template_defs split: if_splits)
    then show ?thesis using v PubKeyDilithium eq
      by (simp add: extract_script_pub_key_address_def address_new_def pay_to_address_script_def template_defs wf_address_def Let_def)
  qed
qed

lemma extract_nonstandard:
  "class_from_script spk = NonStandard \<Longrightarrow> extract_script_pub_key_address spk pfx = Some (Inl PubKeyFormat)"
  by (simp add: extract_script_pub_key_address_def Let_def)

lemma key_address_script:
  assumes "pay_to_address_script a = Some spk" "addr_version a \<noteq> VScriptHash"
  shows "length (addr_payload a) = public_key_len (addr_version a)"
    "spk_script spk = word_of_nat (length (addr_payload a)) # addr_payload a @
       [if addr_version a = VPubKeyECDSA then OpCheckSigECDSA else OpCheckSig]"
    "spk_version spk = 0"
  using assms by (auto simp: pay_to_address_script_def pay_to_pub_key_def pay_to_pub_key_ecdsa_def
      pay_to_pub_key_dilithium_def split: address_version.splits if_splits)

section \<open>Properties\<close>

text \<open>
  An address and its locking script determine each other: the script of every well-formed
  address is of the class of the address's version and gives the address back.
\<close>

theorem address_roundtrip:
  assumes "wf_address a"
  shows "\<exists>spk. pay_to_address_script a = Some spk \<and> class_from_script spk = class_of_version (addr_version a) \<and>
    extract_script_pub_key_address spk (addr_prefix a) = Some (Inr a)"
  using extract_pay_to_address [OF assms] pay_to_address_class by blast

theorem address_roundtrip_witness:
  "\<exists>spk. pay_to_address_script (\<lparr>addr_prefix = Mainnet, addr_version = VPubKeyDilithium, addr_payload = replicate 20 7\<rparr>) = Some spk \<and>
     class_from_script spk = PubKeyDilithium \<and>
     extract_script_pub_key_address spk Mainnet =
       Some (Inr (\<lparr>addr_prefix = Mainnet, addr_version = VPubKeyDilithium, addr_payload = replicate 20 7\<rparr>))"
  using address_roundtrip [of "\<lparr>addr_prefix = Mainnet, addr_version = VPubKeyDilithium, addr_payload = replicate 20 7\<rparr>"]
  by (simp add: wf_address_def)

text \<open>
  Extracting an address from a script succeeds exactly on the standard scripts, never
  panics, and the extracted address pays to the script it was extracted from.
\<close>

theorem address_extraction:
  "if class_from_script spk = NonStandard then extract_script_pub_key_address spk pfx = Some (Inl PubKeyFormat)
   else \<exists>a. extract_script_pub_key_address spk pfx = Some (Inr a) \<and> wf_address a \<and> addr_prefix a = pfx \<and>
          pay_to_address_script a = Some spk"
  using extract_standard [of spk pfx] extract_nonstandard [of spk pfx] by auto

end
