(* ===== verification/Script_Engine.thy ===== *)
theory Script_Engine
  imports Opcode_Exec Script_Class
begin

text \<open>
  The script engine (\<open>TxScriptEngine\<close> of \<^verbatim>\<open>crypto/txscript/src/lib.rs\<close>): construction,
  execution of one opcode, one script and all the scripts of an input, and the static
  analyses of scripts (\<open>get_sig_op_count\<close>, \<open>get_sig_op_count_upper_bound\<close>,
  \<open>is_unspendable\<close>).  Scripts are finite and every opcode is total, so execution terminates
  by structural recursion over the parsed script.
\<close>

section \<open>Construction\<close>

definition engine_new :: "reused_values \<Rightarrow> sig_cache \<Rightarrow> vm" where
  "engine_new rv cache =
     \<lparr> dstack = [], astack = [], script_source = StandAloneScripts [], vm_reused = rv,
       vm_sig_cache = cache, cond_stack = [], num_ops = 0, vm_counter = sig_op_counter_new 0xff \<rparr>"

definition from_transaction_input ::
    "populated_transaction \<Rightarrow> transaction_input \<Rightarrow> nat \<Rightarrow> registry_unit \<Rightarrow> reused_values \<Rightarrow> sig_cache \<Rightarrow> vm option" where
  "from_transaction_input ptx input input_idx entry rv cache =
     (if input_idx < length (tx_inputs (pop_tx ptx))
      then Some \<lparr> dstack = [], astack = [],
        script_source = TxInput ptx input input_idx entry
          (is_pay_to_script_hash (spk_script (ru_script_public_key entry))),
        vm_reused = rv, vm_sig_cache = cache, cond_stack = [], num_ops = 0,
        vm_counter = sig_op_counter_new (sig_op_count input) \<rparr>
      else None)"

definition from_script :: "bytes \<Rightarrow> reused_values \<Rightarrow> sig_cache \<Rightarrow> vm" where
  "from_script script rv cache =
     \<lparr> dstack = [], astack = [], script_source = StandAloneScripts [script], vm_reused = rv,
       vm_sig_cache = cache, cond_stack = [], num_ops = 0, vm_counter = sig_op_counter_new 0xff \<rparr>"

section \<open>Execution\<close>

text \<open>The limits that \<open>execute_opcode\<close> checks before it runs the opcode.\<close>

definition charge_opcode :: "opcode \<Rightarrow> unit vm_op" where
  "charge_opcode opc = (\<lambda>s.
     if \<not> is_push_opcode opc then
       (let s = s\<lparr>num_ops := num_ops s + 1\<rparr> in
        if num_ops s > MAX_OPS_PER_SCRIPT then (Inl (TooManyOperations MAX_OPS_PER_SCRIPT), s) else (Inr (), s))
     else if length (op_data opc) > MAX_SCRIPT_ELEMENT_SIZE
       then (Inl (ElementTooBig (length (op_data opc)) MAX_SCRIPT_ELEMENT_SIZE), s)
     else (Inr (), s))"

definition execute_opcode :: "crypto \<Rightarrow> opcode \<Rightarrow> unit vm_op" where
  "execute_opcode cr opc =
     sbind (charge_opcode opc) (\<lambda>_.
     sbind (sget is_executing) (\<lambda>executing.
     if executing \<or> is_conditional opc then
       sbind (slift (if op_value opc > 0 \<and> op_value opc \<le> 0x4e then check_minimal_data_push opc else Inr ()))
         (\<lambda>_. opcode_execute cr opc)
     else sret ()))"

definition check_stack_size :: "unit vm_op" where
  "check_stack_size = (\<lambda>s.
     let combined_size = length (astack s) + length (dstack s) in
     if combined_size > MAX_STACK_SIZE then (Inl (StackSizeExceeded combined_size MAX_STACK_SIZE), s)
     else (Inr (), s))"

text \<open>The closure that \<open>execute_script\<close> passes to \<open>try_for_each\<close>.\<close>

definition script_step :: "crypto \<Rightarrow> bool \<Rightarrow> (tx_script_error, opcode) result \<Rightarrow> unit vm_op" where
  "script_step cr verify_only_push r =
     sbind (slift r) (\<lambda>opc.
     if is_disabled opc then sthrow (OpcodeDisabled opc)
     else if always_illegal opc then sthrow (OpcodeReserved opc)
     else if verify_only_push \<and> \<not> is_push_opcode opc then sthrow SignatureScriptNotPushOnly
     else sbind (execute_opcode cr opc) (\<lambda>_. check_stack_size))"

fun run_opcodes :: "crypto \<Rightarrow> bool \<Rightarrow> (tx_script_error, opcode) result list \<Rightarrow> unit vm_op" where
  "run_opcodes cr only [] = sret ()"
| "run_opcodes cr only (r # rs) = sbind (script_step cr only r) (\<lambda>_. run_opcodes cr only rs)"

definition execute_script :: "crypto \<Rightarrow> bytes \<Rightarrow> bool \<Rightarrow> unit vm_op" where
  "execute_script cr script verify_only_push = (\<lambda>s.
     case run_opcodes cr verify_only_push (parse_script script) s of
       (Inr _, s') \<Rightarrow>
         if cond_stack s' \<noteq> [] then (Inl ErrUnbalancedConditional, s')
         else (Inr (), s'\<lparr>astack := [], num_ops := 0\<rparr>)
     | (Inl e, s') \<Rightarrow> (Inl e, s'\<lparr>astack := [], num_ops := 0\<rparr>))"

definition check_error_condition :: "bool \<Rightarrow> unit vm_op" where
  "check_error_condition final_script =
     sbind (sget dstack) (\<lambda>st.
     if final_script \<and> length st > 1 then sthrow (CleanStack (length st - 1))
     else if final_script \<and> st = [] then sthrow EmptyStack
     else sbind pop_bool (\<lambda>v. if v then sret () else sthrow EvalFalse))"

text \<open>
  The loop over the scripts, with their indices; the state of the loop is \<open>saved_stack\<close>.
  \<open>tx_input\<close> says that the source is a transaction input.
\<close>

fun run_scripts :: "crypto \<Rightarrow> bool \<Rightarrow> bool \<Rightarrow> (nat \<times> bytes) list \<Rightarrow> stack option \<Rightarrow> stack option vm_op" where
  "run_scripts cr tx_input is_p2sh [] saved = sret saved"
| "run_scripts cr tx_input is_p2sh ((idx, script) # scripts) saved =
     sbind (sget dstack) (\<lambda>st.
     sbind (execute_script cr script (idx = 0 \<and> tx_input)) (\<lambda>_.
     run_scripts cr tx_input is_p2sh scripts (if is_p2sh \<and> idx = 1 then Some st else saved)))"

definition pop_script :: "bytes vm_op" where
  "pop_script = (\<lambda>s.
     if dstack s = [] then (Inl EmptyStack, s)
     else (Inr (last (dstack s)), s\<lparr>dstack := butlast (dstack s)\<rparr>))"

definition execute_p2sh :: "crypto \<Rightarrow> stack option \<Rightarrow> unit vm_op" where
  "execute_p2sh cr saved =
     sbind (check_error_condition False) (\<lambda>_.
     sbind (slift (ok_or EmptyStack saved)) (\<lambda>st.
     sbind (smod (\<lambda>s. s\<lparr>dstack := st\<rparr>)) (\<lambda>_.
     sbind pop_script (\<lambda>script. execute_script cr script False))))"

definition execute_scripts :: "crypto \<Rightarrow> bool \<Rightarrow> bool \<Rightarrow> bytes list \<Rightarrow> unit vm_op" where
  "execute_scripts cr tx_input is_p2sh scripts =
     (if scripts = [] then sthrow NoScripts
      else if list_all (\<lambda>s. s = []) scripts then sthrow EvalFalse
      else case List.find (\<lambda>s. length s > MAX_SCRIPTS_SIZE) scripts of
        Some s \<Rightarrow> sthrow (ScriptSize (length s) MAX_SCRIPTS_SIZE)
      | None \<Rightarrow>
          sbind (run_scripts cr tx_input is_p2sh (filter (\<lambda>(_, s). s \<noteq> []) (enumerate 0 scripts)) None) (\<lambda>saved.
          sbind (if is_p2sh then execute_p2sh cr saved else sret ()) (\<lambda>_.
          check_error_condition True)))"

definition execute :: "crypto \<Rightarrow> unit vm_op" where
  "execute cr =
     sbind (sget script_source) (\<lambda>src.
     case src of
       TxInput ptx input idx entry is_p2sh \<Rightarrow>
         if spk_version (ru_script_public_key entry) > MAX_SCRIPT_PUBLIC_KEY_VERSION then sret ()
         else execute_scripts cr True is_p2sh
           [signature_script input, spk_script (ru_script_public_key entry)]
     | StandAloneScripts scripts \<Rightarrow> execute_scripts cr False False scripts)"

section \<open>Static analyses\<close>

text \<open>\<open>None\<close> is a panic: of the index into the inputs, of \<open>from_transaction_input\<close> or of the engine.\<close>

definition get_sig_op_count :: "crypto \<Rightarrow> populated_transaction \<Rightarrow> nat \<Rightarrow> (tx_script_error, u8) result option" where
  "get_sig_op_count cr ptx input_idx =
     (if input_idx \<ge> length (tx_inputs (pop_tx ptx)) then None
      else case registry_unit_at ptx input_idx of
        None \<Rightarrow> Some (Inl (InvalidInputIndex (int input_idx) (length (tx_inputs (pop_tx ptx)))))
      | Some entry \<Rightarrow>
          case from_transaction_input ptx (tx_inputs (pop_tx ptx) ! input_idx) input_idx entry
                 reused_values_new (cache_new 0) of
            None \<Rightarrow> None
          | Some s \<Rightarrow>
              (case execute cr s of
                 (Inl e, _) \<Rightarrow> if e = Panicked then None else Some (Inl e)
               | (Inr _, s') \<Rightarrow> Some (Inr (used_sig_ops (vm_counter s')))))"

text \<open>The loop of \<open>get_sig_op_count_by_opcodes\<close>: \<open>prev\<close> is the opcode before the current one.\<close>

fun count_sig_ops :: "opcode option \<Rightarrow> (tx_script_error, opcode) result list \<Rightarrow> u64 \<Rightarrow> u64 option" where
  "count_sig_ops prev [] num_sigs = Some num_sigs"
| "count_sig_ops prev (Inl e # ops) num_sigs = Some num_sigs"
| "count_sig_ops prev (Inr op # ops) num_sigs =
     (if op_value op \<in> {OpCheckSig, OpCheckSigVerify, OpCheckSigECDSA}
      then count_sig_ops (Some op) ops (num_sigs + 1)
      else if op_value op \<in> {OpCheckMultiSig, OpCheckMultiSigVerify, OpCheckMultiSigECDSA}
      then (case prev of
          None \<Rightarrow> count_sig_ops (Some op) ops (num_sigs + 20)
        | Some prev_opcode \<Rightarrow>
            if OpTrue \<le> op_value prev_opcode \<and> op_value prev_opcode \<le> Op16
            then (case to_small_int prev_opcode of
                None \<Rightarrow> None
              | Some k \<Rightarrow> count_sig_ops (Some op) ops (num_sigs + ucast k))
            else count_sig_ops (Some op) ops (num_sigs + 20))
      else count_sig_ops (Some op) ops num_sigs)"

definition get_sig_op_count_by_opcodes :: "(tx_script_error, opcode) result list \<Rightarrow> u64 option" where
  "get_sig_op_count_by_opcodes opcodes = count_sig_ops None opcodes 0"

definition get_sig_op_count_upper_bound :: "bytes \<Rightarrow> script_public_key \<Rightarrow> u64 option" where
  "get_sig_op_count_upper_bound sig_script prev_spk =
     (let is_p2sh = is_pay_to_script_hash (spk_script prev_spk) in
      if \<not> is_p2sh then get_sig_op_count_by_opcodes (parse_script (spk_script prev_spk))
      else let signature_script_ops = parse_script sig_script in
        if signature_script_ops = [] \<or>
           \<not> list_all (\<lambda>r. case r of Inl _ \<Rightarrow> False | Inr op \<Rightarrow> is_push_opcode op) signature_script_ops
        then Some 0
        else case last signature_script_ops of
          Inl _ \<Rightarrow> None
        | Inr op \<Rightarrow> get_sig_op_count_by_opcodes (parse_script (op_data op)))"

definition is_unspendable :: "bytes \<Rightarrow> bool" where
  "is_unspendable script \<longleftrightarrow>
     (case parse_script script of
        [] \<Rightarrow> False
      | r # rs \<Rightarrow> (case r of Inl _ \<Rightarrow> True | Inr op \<Rightarrow> op_value op = OpReturn) \<or>
          list_ex (\<lambda>r. case r of Inl _ \<Rightarrow> True | Inr _ \<Rightarrow> False) rs)"

section \<open>Where the static count panics\<close>

lemma to_small_int_range: "OpTrue \<le> op_value opc \<and> op_value opc \<le> Op16 \<Longrightarrow> to_small_int opc = None \<longleftrightarrow> op_value opc = Op16"
  by (auto simp: to_small_int_def Let_def)

lemma count_sig_ops_None:
  "count_sig_ops prev (map Inr ops) n = None \<longleftrightarrow>
     (\<exists>i < length ops. op_value (ops ! i) \<in> {OpCheckMultiSig, OpCheckMultiSigVerify, OpCheckMultiSigECDSA} \<and>
        (case i of 0 \<Rightarrow> \<exists>p. prev = Some p \<and> op_value p = Op16 | Suc j \<Rightarrow> op_value (ops ! j) = Op16))"
proof (induction ops arbitrary: prev n)
  case (Cons op ops)
  let ?P = "\<lambda>prev (ops :: opcode list) i. op_value (ops ! i) \<in> {OpCheckMultiSig, OpCheckMultiSigVerify, OpCheckMultiSigECDSA} \<and>
        (case i of 0 \<Rightarrow> \<exists>p. prev = Some p \<and> op_value p = Op16 | Suc j \<Rightarrow> op_value (ops ! j) = Op16)"
  have "(\<exists>i < length (op # ops). ?P prev (op # ops) i) \<longleftrightarrow> ?P prev (op # ops) 0 \<or> (\<exists>i < length ops. ?P prev (op # ops) (Suc i))"
    unfolding length_Cons by (rule Ex_less_Suc2)
  also have "(\<exists>i < length ops. ?P prev (op # ops) (Suc i)) \<longleftrightarrow> (\<exists>i < length ops. ?P (Some op) ops i)"
    by (intro ex_cong1 conj_cong refl) (simp_all split: nat.split)
  also have "?P prev (op # ops) 0 \<or> (\<exists>i < length ops. ?P (Some op) ops i) \<longleftrightarrow>
      count_sig_ops prev (map Inr (op # ops)) n = None"
  proof (cases prev)
    case None
    then show ?thesis by (auto simp: Cons.IH)
  next
    case (Some p)
    show ?thesis
    proof (cases "OpTrue \<le> op_value p \<and> op_value p \<le> Op16")
      case True
      then show ?thesis using Some to_small_int_range [OF True] by (auto simp: Cons.IH split: option.split)
    next
      case False
      then have "op_value p \<noteq> Op16" by auto
      then show ?thesis using False Some by (auto simp: Cons.IH)
    qed
  qed
  finally show ?case by (rule sym)
qed simp

text \<open>
  The static count of signature operations panics exactly on the scripts in which \<open>Op16\<close>
  stands directly before a multi-signature check: \<open>to_small_int\<close> asserts a range that
  excludes \<open>Op16\<close>, which its caller lets through.  On every other script it returns a count.
\<close>

theorem sig_op_count_panics:
  "get_sig_op_count_by_opcodes (map Inr ops) = None \<longleftrightarrow>
     (\<exists>i. Suc i < length ops \<and> op_value (ops ! i) = Op16 \<and>
        op_value (ops ! Suc i) \<in> {OpCheckMultiSig, OpCheckMultiSigVerify, OpCheckMultiSigECDSA})"
  unfolding get_sig_op_count_by_opcodes_def count_sig_ops_None
proof (intro iffI; elim exE conjE)
  fix i assume i: "i < length ops" "op_value (ops ! i) \<in> {OpCheckMultiSig, OpCheckMultiSigVerify, OpCheckMultiSigECDSA}"
    "case i of 0 \<Rightarrow> \<exists>p. None = Some p \<and> op_value p = Op16 | Suc j \<Rightarrow> op_value (ops ! j) = Op16"
  then obtain j where "i = Suc j" by (cases i) auto
  with i show "\<exists>i. Suc i < length ops \<and> op_value (ops ! i) = Op16 \<and>
        op_value (ops ! Suc i) \<in> {OpCheckMultiSig, OpCheckMultiSigVerify, OpCheckMultiSigECDSA}" by auto
next
  fix i assume "Suc i < length ops" "op_value (ops ! i) = Op16"
    "op_value (ops ! Suc i) \<in> {OpCheckMultiSig, OpCheckMultiSigVerify, OpCheckMultiSigECDSA}"
  then show "\<exists>i < length ops. op_value (ops ! i) \<in> {OpCheckMultiSig, OpCheckMultiSigVerify, OpCheckMultiSigECDSA} \<and>
        (case i of 0 \<Rightarrow> \<exists>p. None = Some p \<and> op_value p = Op16 | Suc j \<Rightarrow> op_value (ops ! j) = Op16)"
    by (intro exI [of _ "Suc i"]) simp
qed

end
