(* ===== verification/Engine_Frame.thy ===== *)
theory Engine_Frame
  imports Script_Engine
begin

text \<open>
  What the opcodes leave alone.  A program is \<open>stacky\<close> when it reads and writes only the two
  stacks, the condition stack and the operation count (it may also read the script source),
  and does not panic.  Every opcode except the signature checks is; the rules of the
  collection \<open>stacky_rules\<close> follow the structure of the definitions.
\<close>

definition with_env :: "sig_cache \<Rightarrow> reused_values \<Rightarrow> sig_op_counter \<Rightarrow> vm \<Rightarrow> vm" where
  "with_env c rv k s = s\<lparr>vm_sig_cache := c, vm_reused := rv, vm_counter := k\<rparr>"

lemma with_env_sel [simp]:
  "dstack (with_env c rv k s) = dstack s" "astack (with_env c rv k s) = astack s"
  "script_source (with_env c rv k s) = script_source s" "vm_reused (with_env c rv k s) = rv"
  "vm_sig_cache (with_env c rv k s) = c" "cond_stack (with_env c rv k s) = cond_stack s"
  "num_ops (with_env c rv k s) = num_ops s" "vm_counter (with_env c rv k s) = k"
  "is_executing (with_env c rv k s) = is_executing s"
  by (simp_all add: with_env_def is_executing_def)

lemma with_env_upd [simp]:
  "with_env c rv k s\<lparr>dstack := d\<rparr> = with_env c rv k (s\<lparr>dstack := d\<rparr>)"
  "with_env c rv k s\<lparr>astack := d\<rparr> = with_env c rv k (s\<lparr>astack := d\<rparr>)"
  "with_env c rv k s\<lparr>cond_stack := cs\<rparr> = with_env c rv k (s\<lparr>cond_stack := cs\<rparr>)"
  "with_env c rv k s\<lparr>num_ops := n\<rparr> = with_env c rv k (s\<lparr>num_ops := n\<rparr>)"
  by (simp_all add: with_env_def)

lemma with_env_self [simp]: "with_env (vm_sig_cache s) (vm_reused s) (vm_counter s) s = s"
  by (simp add: with_env_def)

lemma with_env_twice [simp]: "with_env c rv k (with_env c' rv' k' s) = with_env c rv k s"
  by (simp add: with_env_def)

definition stacky :: "'a vm_op \<Rightarrow> bool" where
  "stacky m \<longleftrightarrow>
     (\<forall>s. script_source (snd (m s)) = script_source s) \<and>
     (\<forall>s. fst (m s) \<noteq> Inl Panicked) \<and>
     (\<forall>s c rv k. m (with_env c rv k s) = (fst (m s), with_env c rv k (snd (m s))))"

named_theorems stacky_rules "rules that show that a program touches only the stacks"

lemma stackyI:
  assumes "\<And>s. script_source (snd (m s)) = script_source s" "\<And>s. fst (m s) \<noteq> Inl Panicked"
    "\<And>s c rv k. m (with_env c rv k s) = (fst (m s), with_env c rv k (snd (m s)))"
  shows "stacky m"
  using assms by (simp add: stacky_def)

lemma stacky_ret [stacky_rules]: "stacky (sret a)"
  by (simp add: stacky_def sret_def)

lemma stacky_throw [stacky_rules]: "e \<noteq> Panicked \<Longrightarrow> stacky (sthrow e)"
  by (simp add: stacky_def sthrow_def)

lemma stacky_lift [stacky_rules]: "r \<noteq> Inl Panicked \<Longrightarrow> stacky (slift r)"
  by (simp add: stacky_def slift_def)

lemma stacky_get: "(\<And>s c rv k. f (with_env c rv k s) = f s) \<Longrightarrow> stacky (sget f)"
  by (simp add: stacky_def sget_def)

lemmas stacky_gets [stacky_rules] =
  stacky_get [of dstack, simplified] stacky_get [of astack, simplified]
  stacky_get [of script_source, simplified] stacky_get [of is_executing, simplified]
  stacky_get [of num_ops, simplified]

lemma stacky_mod:
  "(\<And>s. script_source (f s) = script_source s) \<Longrightarrow>
   (\<And>s c rv k. f (with_env c rv k s) = with_env c rv k (f s)) \<Longrightarrow> stacky (smod f)"
  by (simp add: stacky_def smod_def)

lemma stacky_bind [stacky_rules]:
  assumes "stacky m" "\<And>a. stacky (f a)" shows "stacky (sbind m f)"
proof (rule stackyI)
  fix s c rv k
  show "script_source (snd (sbind m f s)) = script_source s"
    using assms by (cases "m s"; cases "fst (m s)") (auto simp: stacky_def sbind_def dest: spec [of _ s])
  show "fst (sbind m f s) \<noteq> Inl Panicked"
    using assms by (cases "m s"; cases "fst (m s)") (auto simp: stacky_def sbind_def dest: spec [of _ s])
  show "sbind m f (with_env c rv k s) = (fst (sbind m f s), with_env c rv k (snd (sbind m f s)))"
    using assms by (cases "m s"; cases "fst (m s)") (auto simp: stacky_def sbind_def)
qed

lemma stacky_if [stacky_rules]:
  "(b \<Longrightarrow> stacky m) \<Longrightarrow> (\<not> b \<Longrightarrow> stacky n) \<Longrightarrow> stacky (if b then m else n)"
  by simp

lemma stacky_option [stacky_rules]:
  "(x = None \<Longrightarrow> stacky m) \<Longrightarrow> (\<And>a. x = Some a \<Longrightarrow> stacky (f a)) \<Longrightarrow>
   stacky (case x of None \<Rightarrow> m | Some a \<Rightarrow> f a)"
  by (cases x) auto

lemma stacky_source [stacky_rules]:
  "(\<And>p i n e b. stacky (f p i n e b)) \<Longrightarrow> (\<And>ss. stacky (g ss)) \<Longrightarrow>
   stacky (case src of TxInput p i n e b \<Rightarrow> f p i n e b | StandAloneScripts ss \<Rightarrow> g ss)"
  by (cases src) auto

section \<open>Stack operations\<close>

definition no_panic :: "'a stack_op \<Rightarrow> bool" where
  "no_panic m \<longleftrightarrow> (\<forall>st. fst (m st) \<noteq> Inl Panicked)"

lemma stacky_on_dstack [stacky_rules]: "no_panic m \<Longrightarrow> stacky (on_dstack m)"
  by (auto simp: stacky_def no_panic_def on_dstack_def split: prod.split) (metis fst_conv)

lemma rcollect_no_panic: "(\<And>x. f x \<noteq> Inl e) \<Longrightarrow> rcollect f xs \<noteq> Inl e"
  by (induction xs) (auto simp: rbind_def split: sum.splits)

lemma deserialize_no_panic:
  "deserialize_num64 v \<noteq> Inl Panicked" "deserialize_num32 v \<noteq> Inl Panicked"
  "deserialize_bool v \<noteq> Inl Panicked"
  by (auto simp: deserialize_num64_def deserialize_num32_def deserialize_bool_def deserialize_sized_def
      deserialize_i64_def check_minimal_data_encoding_def Let_def rbind_def split: if_splits sum.splits)

lemma no_panic_ops [stacky_rules]:
  "no_panic (pop_raw n)" "no_panic (peek_raw n)" "no_panic (push_item ser x)" "no_panic (drop_items n)"
  "no_panic (dup_items n)" "no_panic (over_items n)" "no_panic (rot_items n)" "no_panic (swap_items n)"
  "no_panic (pop_items n deserialize_num64)" "no_panic (pop_items n deserialize_num32)"
  "no_panic (pop_items n deserialize_bool)"
  by (auto simp: no_panic_def stack_op_defs rcollect_no_panic deserialize_no_panic Let_def split: sum.split)

lemma stacky_push_data [stacky_rules]: "stacky (push_data d)"
  unfolding push_data_def by (rule stacky_mod) simp_all

lemma stacky_pushes [stacky_rules]:
  "stacky (push_number n)" "stacky (push_bool b)" "stacky (push_checked n)" "stacky (push_amount a)"
  by (auto simp: push_number_def push_bool_def push_checked_def push_amount_def intro!: stacky_rules)

lemma stacky_pops [stacky_rules]:
  "stacky (pop_num64s n)" "stacky pop_num32" "stacky pop_bool" "stacky (pop_raws n)"
  by (auto simp: pop_num64s_def pop_num32_def pop_bool_def pop_raws_def intro!: stacky_rules)

section \<open>Opcodes\<close>

lemma stacky_state_ops:
  "stacky op_if" "stacky op_notif" "stacky op_else" "stacky op_endif" "stacky op_from_alt_stack"
  "stacky op_nip" "stacky op_tuck"
  by (auto simp: op_if_def op_notif_def op_else_def op_endif_def op_from_alt_stack_def op_nip_def op_tuck_def
      Let_def stacky_def split: list.split)

lemma stacky_roll: "stacky op_roll"
  unfolding op_roll_def by (intro stacky_rules stackyI) (simp_all add: Let_def)

lemma stacky_to_alt_stack: "stacky op_to_alt_stack"
  unfolding op_to_alt_stack_def by (intro stacky_rules stacky_mod) simp_all

lemma stacky_stack_ops:
  "stacky op_verify" "stacky op_if_dup" "stacky op_depth" "stacky op_pick" "stacky op_size" "stacky op_equal"
  "stacky op_equal_verify"
  by (auto simp: op_verify_def op_if_dup_def op_depth_def op_pick_def op_size_def op_equal_def
      op_equal_verify_def deserialize_no_panic intro!: stacky_rules)

lemmas numeric_defs = op_1add_def op_1sub_def op_negate_def op_abs_def op_not_def op_0not_equal_def
  op_add_def op_sub_def op_bool_and_def op_bool_or_def op_num_equal_def op_num_equal_verify_def
  op_num_not_equal_def op_less_than_def op_greater_than_def op_less_than_or_equal_def
  op_greater_than_or_equal_def op_min_def op_max_def op_within_def

lemma stacky_numeric:
  "stacky op_1add" "stacky op_1sub" "stacky op_negate" "stacky op_abs" "stacky op_not" "stacky op_0not_equal"
  "stacky op_add" "stacky op_sub" "stacky op_bool_and" "stacky op_bool_or" "stacky op_num_equal"
  "stacky op_num_equal_verify" "stacky op_num_not_equal" "stacky op_less_than" "stacky op_greater_than"
  "stacky op_less_than_or_equal" "stacky op_greater_than_or_equal" "stacky op_min" "stacky op_max" "stacky op_within"
  unfolding numeric_defs by (intro stacky_rules; simp)+

lemma stacky_hashes: "stacky (op_sha256 cr)" "stacky (op_blake2b cr)"
  unfolding op_sha256_def op_blake2b_def by (intro stacky_rules)+

lemma stacky_lock_times: "stacky op_check_lock_time_verify" "stacky op_check_sequence_verify"
  unfolding op_check_lock_time_verify_def op_check_sequence_verify_def Let_def
  by (intro stacky_rules; simp)+

lemma stacky_introspection:
  "stacky op_tx_input_count" "stacky op_tx_output_count" "stacky op_tx_input_index"
  "stacky op_tx_input_amount" "stacky op_tx_input_spk" "stacky op_tx_output_amount" "stacky op_tx_output_spk"
  unfolding op_tx_input_count_def op_tx_output_count_def op_tx_input_index_def op_tx_input_amount_def
    op_tx_input_spk_def op_tx_output_amount_def op_tx_output_spk_def with_tx_def
  by (intro stacky_rules; simp)+

lemma stacky_push_ops: "stacky op_false" "stacky (op_push opc)" "stacky op_1negate" "stacky (op_small_int opc)"
  unfolding op_false_def op_push_def op_1negate_def op_small_int_def by (intro stacky_rules)+

text \<open>The opcodes that check signatures.\<close>

definition checks_signature :: "opcode \<Rightarrow> bool" where
  "checks_signature opc \<longleftrightarrow> op_value opc \<in> {0xa9, 0xab, 0xac, 0xad, 0xae, 0xaf}"

text \<open>A lookup in a dispatch table keeps what holds of every entry.\<close>

lemma map_of_all: "list_all (\<lambda>(k, v). k \<in> K \<or> P v) t \<Longrightarrow> map_of t k = Some v \<Longrightarrow> k \<notin> K \<Longrightarrow> P v"
  by (induction t) (auto split: if_splits)

lemma stacky_table:
  assumes "\<not> checks_signature opc"
  shows "exec_control opc = Some m \<Longrightarrow> stacky m" "exec_stack opc = Some m \<Longrightarrow> stacky m"
    "exec_numeric opc = Some m \<Longrightarrow> stacky m" "exec_crypto cr opc = Some m \<Longrightarrow> stacky m"
    "exec_introspection opc = Some m \<Longrightarrow> stacky m"
proof -
  note facts = stacky_state_ops stacky_roll stacky_to_alt_stack stacky_stack_ops stacky_numeric
    stacky_hashes stacky_lock_times stacky_introspection stacky_rules
  show "exec_control opc = Some m \<Longrightarrow> stacky m"
    unfolding exec_control_def by (erule map_of_all [where K = "{}", rotated]) (simp_all add: facts)
  show "exec_stack opc = Some m \<Longrightarrow> stacky m"
    unfolding exec_stack_def by (erule map_of_all [where K = "{}", rotated]) (simp_all add: facts)
  show "exec_numeric opc = Some m \<Longrightarrow> stacky m"
    unfolding exec_numeric_def by (erule map_of_all [where K = "{}", rotated]) (simp_all add: facts)
  show "exec_crypto cr opc = Some m \<Longrightarrow> stacky m"
    unfolding exec_crypto_def
    by (erule map_of_all [where K = "{0xa9, 0xab, 0xac, 0xad, 0xae, 0xaf}", rotated])
       (use assms in \<open>simp_all add: facts checks_signature_def\<close>)
  show "exec_introspection opc = Some m \<Longrightarrow> stacky m"
    unfolding exec_introspection_def by (erule map_of_all [where K = "{}", rotated]) (simp_all add: facts)
qed

lemma orelse_Some: "orelse a b = Some m \<Longrightarrow> a = Some m \<or> b = Some m"
  by (auto simp: orelse_def split: option.splits)

lemma stacky_opcode_execute: "\<not> checks_signature opc \<Longrightarrow> stacky (opcode_execute cr opc)"
  unfolding opcode_execute_def Let_def
  by (intro stacky_rules stacky_push_ops) (auto dest!: orelse_Some intro: stacky_table)

section \<open>The engine around the opcodes\<close>

lemma stacky_charge: "stacky (charge_opcode opc)"
  by (auto simp: charge_opcode_def stacky_def Let_def)

lemma stacky_stack_size: "stacky check_stack_size"
  by (auto simp: check_stack_size_def stacky_def Let_def)

lemma stacky_pop_script: "stacky pop_script"
  by (auto simp: pop_script_def stacky_def)

lemma stacky_error_condition: "stacky (check_error_condition final)"
  unfolding check_error_condition_def by (intro stacky_rules; simp)

lemma stacky_set_dstack: "stacky (smod (\<lambda>s. s\<lparr>dstack := st\<rparr>))"
  by (rule stacky_mod) simp_all

lemma check_minimal_no_panic: "check_minimal_data_push opc \<noteq> Inl Panicked"
  by (simp add: check_minimal_data_push_def Let_def)

lemma exec_crypto_cases:
  assumes "exec_crypto cr opc = Some m" "checks_signature opc"
  shows "m \<in> {op_check_multisig cr, op_check_sig_ecdsa cr, op_check_sig cr, op_check_sig_verify cr,
    op_check_multisig_verify cr}"
  using assms by (auto simp: exec_crypto_def checks_signature_def)

lemma opcode_execute_signature:
  assumes "checks_signature opc"
  shows "opcode_execute cr opc = the (exec_crypto cr opc)" "exec_crypto cr opc \<noteq> None"
  using assms unfolding checks_signature_def
  by (elim insertE emptyE; simp add: opcode_execute_def Let_def op_reserved_def is_disabled_def
      orelse_def exec_control_def exec_stack_def exec_numeric_def exec_crypto_def)+

end
