(* ===== verification/Engine_Memo.thy ===== *)
theory Engine_Memo
  imports Engine_Frame
begin

text \<open>
  The two memo tables of the engine, the signature cache and the reused partial hashes, do
  not influence a result: two engines that differ only in (valid) memo tables run the same
  way.  The proof follows the program with the rules of \<open>transparent_rules\<close>, and uses the
  contract of the cache through the interpretation \<open>sig_memo\<close>.
\<close>

definition verdict :: "crypto \<Rightarrow> sig_cache_key \<Rightarrow> bool" where
  "verdict cr key = dilithium_verify cr (key_pub_key key) (key_signature key) (key_message key)"

definition memo_ok :: "crypto \<Rightarrow> vm \<Rightarrow> bool" where
  "memo_ok cr s \<longleftrightarrow>
     distinct_keys (vm_sig_cache s) \<and> agrees cache_lookup (verdict cr) (vm_sig_cache s) \<and>
     (case script_source s of
        TxInput ptx _ _ _ _ \<Rightarrow> reused_ok (sha3_256 cr) (pop_tx ptx) (vm_reused s)
      | StandAloneScripts _ \<Rightarrow> True)"

definition twin :: "crypto \<Rightarrow> vm \<Rightarrow> vm \<Rightarrow> bool" where
  "twin cr s t \<longleftrightarrow> memo_ok cr s \<and> memo_ok cr t \<and> (\<exists>c rv. t = with_env c rv (vm_counter s) s)"

definition transparent :: "crypto \<Rightarrow> 'a vm_op \<Rightarrow> bool" where
  "transparent cr m \<longleftrightarrow>
     (\<forall>s t. twin cr s t \<longrightarrow> fst (m t) = fst (m s) \<and> twin cr (snd (m s)) (snd (m t)))"

named_theorems transparent_rules "rules that show that a program does not depend on the memo tables"

lemma twin_refl: "memo_ok cr s \<Longrightarrow> twin cr s s"
  unfolding twin_def by (metis with_env_self)

lemma twin_sel:
  assumes "twin cr s t"
  shows "dstack t = dstack s" "astack t = astack s" "cond_stack t = cond_stack s" "num_ops t = num_ops s"
    "script_source t = script_source s" "vm_counter t = vm_counter s"
  using assms by (auto simp: twin_def)

lemma memo_ok_cong:
  "memo_ok cr s \<Longrightarrow> vm_sig_cache s' = vm_sig_cache s \<Longrightarrow> vm_reused s' = vm_reused s \<Longrightarrow>
   script_source s' = script_source s \<Longrightarrow> memo_ok cr s'"
  by (simp add: memo_ok_def split: script_source.splits)

lemma memo_ok_cache:
  "memo_ok cr s \<Longrightarrow> distinct_keys c \<Longrightarrow> agrees cache_lookup (verdict cr) c \<Longrightarrow>
   memo_ok cr (s\<lparr>vm_sig_cache := c\<rparr>)"
  by (simp add: memo_ok_def split: script_source.splits)

lemma stacky_env:
  assumes "stacky m"
  shows "vm_sig_cache (snd (m s)) = vm_sig_cache s" "vm_reused (snd (m s)) = vm_reused s"
    "vm_counter (snd (m s)) = vm_counter s" "script_source (snd (m s)) = script_source s"
proof -
  have "m s = (fst (m s), with_env (vm_sig_cache s) (vm_reused s) (vm_counter s) (snd (m s)))"
    using assms unfolding stacky_def by (metis with_env_self)
  then have "snd (m s) = with_env (vm_sig_cache s) (vm_reused s) (vm_counter s) (snd (m s))"
    by (metis snd_conv)
  then show "vm_sig_cache (snd (m s)) = vm_sig_cache s" "vm_reused (snd (m s)) = vm_reused s"
    "vm_counter (snd (m s)) = vm_counter s"
    by (metis with_env_sel(5), metis with_env_sel(4), metis with_env_sel(8))
  show "script_source (snd (m s)) = script_source s"
    using assms by (simp add: stacky_def)
qed

lemma transparent_stacky: "stacky m \<Longrightarrow> transparent cr m"
  unfolding transparent_def
proof (intro allI impI)
  fix s t assume st: "stacky m" and tw: "twin cr s t"
  then obtain c rv where t: "t = with_env c rv (vm_counter s) s" by (auto simp: twin_def)
  have mt: "m t = (fst (m s), with_env c rv (vm_counter s) (snd (m s)))"
    using st by (simp add: stacky_def t)
  have "memo_ok cr (snd (m s))" "memo_ok cr (snd (m t))"
    using tw stacky_env [OF st] by (auto simp: twin_def intro: memo_ok_cong)
  then show "fst (m t) = fst (m s) \<and> twin cr (snd (m s)) (snd (m t))"
    using mt stacky_env(3) [OF st, of s] by (auto simp: twin_def)
qed

lemma transparent_bind [transparent_rules]:
  assumes "transparent cr m" "\<And>a. transparent cr (f a)"
  shows "transparent cr (sbind m f)"
  unfolding transparent_def
proof (intro allI impI)
  fix s t assume "twin cr s t"
  with assms(1) have 1: "fst (m t) = fst (m s)" "twin cr (snd (m s)) (snd (m t))"
    by (auto simp: transparent_def)
  show "fst (sbind m f t) = fst (sbind m f s) \<and> twin cr (snd (sbind m f s)) (snd (sbind m f t))"
  proof (cases "fst (m s)")
    case (Inl e)
    with 1 show ?thesis by (cases "m s"; cases "m t") (simp add: sbind_def)
  next
    case (Inr a)
    with 1 assms(2) [of a] show ?thesis
      by (cases "m s"; cases "m t") (simp add: sbind_def transparent_def)
  qed
qed

lemma transparent_if [transparent_rules]:
  "(b \<Longrightarrow> transparent cr m) \<Longrightarrow> (\<not> b \<Longrightarrow> transparent cr n) \<Longrightarrow> transparent cr (if b then m else n)"
  by simp

lemma transparent_option [transparent_rules]:
  "(x = None \<Longrightarrow> transparent cr m) \<Longrightarrow> (\<And>a. x = Some a \<Longrightarrow> transparent cr (f a)) \<Longrightarrow>
   transparent cr (case x of None \<Rightarrow> m | Some a \<Rightarrow> f a)"
  by (cases x) auto

lemma transparent_basic [transparent_rules]:
  "transparent cr (sret a)" "e \<noteq> Panicked \<Longrightarrow> transparent cr (sthrow e)"
  "transparent cr (push_bool b)" "transparent cr pop_bool" "transparent cr pop_num32" "transparent cr (pop_raws n)"
  "transparent cr (sget num_ops)" "transparent cr (sget dstack)" "transparent cr (sget script_source)"
  by (auto intro!: transparent_stacky stacky_rules)

section \<open>Signature checks\<close>

lemma twin_counter: "twin cr s t \<Longrightarrow> twin cr (s\<lparr>vm_counter := k\<rparr>) (t\<lparr>vm_counter := k\<rparr>)"
proof -
  assume tw: "twin cr s t"
  then obtain c rv where "t = with_env c rv (vm_counter s) s" by (auto simp: twin_def)
  then have "t\<lparr>vm_counter := k\<rparr> = with_env c rv k (s\<lparr>vm_counter := k\<rparr>)" by (simp add: with_env_def)
  moreover have "memo_ok cr (s\<lparr>vm_counter := k\<rparr>)" "memo_ok cr (t\<lparr>vm_counter := k\<rparr>)"
    using tw by (auto simp: twin_def intro: memo_ok_cong)
  ultimately show ?thesis by (simp add: twin_def) blast
qed

lemma transparent_consume [transparent_rules]: "transparent cr consume_sig_op"
  unfolding transparent_def
proof (intro allI impI)
  fix s t assume tw: "twin cr s t"
  show "fst (consume_sig_op t) = fst (consume_sig_op s) \<and> twin cr (snd (consume_sig_op s)) (snd (consume_sig_op t))"
  proof (cases "counter_consume (vm_counter s)")
    case (Inl e)
    with tw show ?thesis by (simp add: consume_sig_op_def twin_sel(6) [OF tw])
  next
    case (Inr k)
    with twin_counter [OF tw] show ?thesis by (simp add: consume_sig_op_def twin_sel(6) [OF tw])
  qed
qed

text \<open>Both checks with a memo table: a value that does not depend on it, and a valid table.\<close>

lemma with_cache: "s\<lparr>vm_sig_cache := c\<rparr> = with_env c (vm_reused s) (vm_counter s) s"
  by (simp add: with_env_def)

lemma with_reused: "s\<lparr>vm_reused := rv\<rparr> = with_env (vm_sig_cache s) rv (vm_counter s) s"
  by (simp add: with_env_def)

lemma cached_verify_run:
  assumes "memo_ok cr s"
  shows "\<exists>c. cached_verify cr sg pk msg s =
      (Inr (dilithium_verify cr pk sg msg), with_env c (vm_reused s) (vm_counter s) s) \<and>
    memo_ok cr (with_env c (vm_reused s) (vm_counter s) s)"
proof -
  define key where "key = \<lparr> key_signature = sg, key_pub_key = pk, key_message = msg \<rparr>"
  have v: "verdict cr key = dilithium_verify cr pk sg msg" by (simp add: verdict_def key_def)
  have ok: "distinct_keys (vm_sig_cache s)" "agrees cache_lookup (verdict cr) (vm_sig_cache s)"
    using assms by (auto simp: memo_ok_def)
  obtain hit c where get: "cache_get key (vm_sig_cache s) = (hit, c)" by (cases "cache_get key (vm_sig_cache s)")
  have c: "hit = cache_lookup (vm_sig_cache s) key" "cache_lookup c = cache_lookup (vm_sig_cache s)"
    "distinct_keys c" "agrees cache_lookup (verdict cr) c"
    using cache_get_lookup [of key "vm_sig_cache s"] ok by (simp_all add: get agrees_def)
  show ?thesis
  proof (cases hit)
    case (Some b)
    with c(1) ok(2) v have "b = dilithium_verify cr pk sg msg"
      using sig_memo.memo_value [of "verdict cr" "vm_sig_cache s" key b] by simp
    with Some get have "cached_verify cr sg pk msg s = (Inr (dilithium_verify cr pk sg msg), s\<lparr>vm_sig_cache := c\<rparr>)"
      by (simp add: cached_verify_def Let_def key_def [symmetric])
    then show ?thesis using memo_ok_cache [OF assms c(3,4)]
      unfolding with_cache by (intro exI [of _ c] conjI)
  next
    case None
    have "distinct_keys (cache_insert (evict cr) key (verdict cr key) c)"
      "agrees cache_lookup (verdict cr) (cache_insert (evict cr) key (verdict cr key) c)"
      by (rule sig_memo.inv_insert [OF c(3)]) (rule sig_memo.agrees_insert [OF c(3,4)])
    note memo_ok_cache [OF assms this]
    moreover have "cached_verify cr sg pk msg s = (Inr (dilithium_verify cr pk sg msg),
        s\<lparr>vm_sig_cache := cache_insert (evict cr) key (verdict cr key) c\<rparr>)"
      using None get by (simp add: cached_verify_def Let_def v key_def [symmetric])
    ultimately show ?thesis
      unfolding with_cache by (intro exI [of _ "cache_insert (evict cr) key (verdict cr key) c"] conjI)
  qed
qed

lemma digest_of_input_run:
  assumes "memo_ok cr s" "script_source s = TxInput ptx input idx entry b"
  shows "\<exists>rv. digest_of_input cr ptx idx ht s =
      (case signature_hash (sha3_256 cr) ptx idx ht of None \<Rightarrow> Inl Panicked | Some h \<Rightarrow> Inr h,
       with_env (vm_sig_cache s) rv (vm_counter s) s) \<and>
    memo_ok cr (with_env (vm_sig_cache s) rv (vm_counter s) s)"
proof -
  have ok: "reused_ok (sha3_256 cr) (pop_tx ptx) (vm_reused s)"
    using assms by (simp add: memo_ok_def)
  let ?c = "calc_signature_hash (sha3_256 cr) ptx idx ht (vm_reused s)"
  have n: "?c = None \<longleftrightarrow> signature_hash (sha3_256 cr) ptx idx ht = None"
    by (simp add: signature_hash_def calc_signature_hash_None)
  show ?thesis
  proof (cases ?c)
    case None
    with n assms(1) show ?thesis by (intro exI [of _ "vm_reused s"]) (simp add: digest_of_input_def)
  next
    case (Some p)
    obtain h rv where p: "p = (h, rv)" by (cases p)
    note t = calc_signature_hash_transparent [OF ok Some [unfolded p]]
    have "memo_ok cr (s\<lparr>vm_reused := rv\<rparr>)" using t(2) assms by (simp add: memo_ok_def)
    moreover have "digest_of_input cr ptx idx ht s = (Inr h, s\<lparr>vm_reused := rv\<rparr>)"
      using Some p by (simp add: digest_of_input_def)
    ultimately show ?thesis using t(1) unfolding with_reused by (intro exI [of _ rv]) simp
  qed
qed

text \<open>The same, for states with a given script source.\<close>

definition transparent_at :: "crypto \<Rightarrow> script_source \<Rightarrow> 'a vm_op \<Rightarrow> bool" where
  "transparent_at cr src m \<longleftrightarrow>
     (\<forall>s t. twin cr s t \<longrightarrow> script_source s = src \<longrightarrow>
        fst (m t) = fst (m s) \<and> twin cr (snd (m s)) (snd (m t)))"

lemma transparent_source:
  "(\<And>src. transparent_at cr src (f src)) \<Longrightarrow> transparent cr (sbind (sget script_source) f)"
  by (auto simp: transparent_def transparent_at_def sbind_def sget_def twin_sel)

lemma transparent_at: "transparent cr m \<Longrightarrow> transparent_at cr src m"
  by (simp add: transparent_def transparent_at_def)

lemma twin_memo:
  assumes "twin cr s t" "memo_ok cr (with_env c r (vm_counter s) s)" "memo_ok cr (with_env c' r' (vm_counter t) t)"
  shows "twin cr (with_env c r (vm_counter s) s) (with_env c' r' (vm_counter t) t)"
proof -
  obtain d u where t: "t = with_env d u (vm_counter s) s" using assms(1) by (auto simp: twin_def)
  have "with_env c' r' (vm_counter t) t = with_env c' r' (vm_counter s) (with_env c r (vm_counter s) s)"
    by (simp add: t)
  with assms(2,3) show ?thesis unfolding twin_def by auto
qed

lemma digest_and_verify_run:
  assumes "memo_ok cr s" "script_source s = TxInput ptx input idx entry b"
  shows "\<exists>c r. sbind (digest_of_input cr ptx idx ht) (cached_verify cr sg pk) s =
      (case signature_hash (sha3_256 cr) ptx idx ht of
         None \<Rightarrow> Inl Panicked | Some h \<Rightarrow> Inr (dilithium_verify cr pk sg h),
       with_env c r (vm_counter s) s) \<and> memo_ok cr (with_env c r (vm_counter s) s)"
proof -
  obtain r where r: "digest_of_input cr ptx idx ht s =
      (case signature_hash (sha3_256 cr) ptx idx ht of None \<Rightarrow> Inl Panicked | Some h \<Rightarrow> Inr h,
       with_env (vm_sig_cache s) r (vm_counter s) s)"
    "memo_ok cr (with_env (vm_sig_cache s) r (vm_counter s) s)"
    using digest_of_input_run [OF assms, of ht] by (elim exE conjE) (rule that)
  show ?thesis
  proof (cases "signature_hash (sha3_256 cr) ptx idx ht")
    case None
    with r show ?thesis by (intro exI [of _ "vm_sig_cache s"] exI [of _ r] conjI) (simp_all add: sbind_def)
  next
    case (Some h)
    obtain c where c: "cached_verify cr sg pk h (with_env (vm_sig_cache s) r (vm_counter s) s) =
        (Inr (dilithium_verify cr pk sg h), with_env c r (vm_counter s) s)"
      "memo_ok cr (with_env c r (vm_counter s) s)"
      using cached_verify_run [OF r(2), of sg pk h] by (elim exE conjE) (simp add: that)
    with r(1) Some show ?thesis by (intro exI [of _ c] exI [of _ r] conjI) (simp_all add: sbind_def)
  qed
qed

lemma transparent_digest_and_verify:
  "transparent_at cr (TxInput ptx input idx entry b)
     (sbind (digest_of_input cr ptx idx ht) (cached_verify cr sg pk))"
  unfolding transparent_at_def
proof (intro allI impI)
  fix s t assume tw: "twin cr s t" and src: "script_source s = TxInput ptx input idx entry b"
  let ?m = "sbind (digest_of_input cr ptx idx ht) (cached_verify cr sg pk)"
  let ?r = "case signature_hash (sha3_256 cr) ptx idx ht of
         None \<Rightarrow> Inl Panicked | Some h \<Rightarrow> Inr (dilithium_verify cr pk sg h)"
  have ok: "memo_ok cr s" "memo_ok cr t" using tw by (simp_all add: twin_def)
  have src': "script_source t = TxInput ptx input idx entry b" using src tw by (simp add: twin_sel)
  obtain c r where s: "?m s = (?r, with_env c r (vm_counter s) s)" "memo_ok cr (with_env c r (vm_counter s) s)"
    using digest_and_verify_run [OF ok(1) src, of ht sg pk] by (elim exE conjE) (rule that)
  obtain c' r' where t: "?m t = (?r, with_env c' r' (vm_counter t) t)" "memo_ok cr (with_env c' r' (vm_counter t) t)"
    using digest_and_verify_run [OF ok(2) src', of ht sg pk] by (elim exE conjE) (rule that)
  show "fst (?m t) = fst (?m s) \<and> twin cr (snd (?m s)) (snd (?m t))"
    unfolding s(1) t(1) using twin_memo [OF tw s(2) t(2)] by simp
qed

lemma transparent_check [transparent_rules]: "transparent cr (check_dilithium_signature cr pk_hash sig_blob)"
  unfolding check_dilithium_signature_def Let_def
  apply (rule transparent_bind [OF transparent_consume])
  apply (rule transparent_source)
  subgoal for _ src
    by (cases src)
       (simp_all del: One_nat_def add: transparent_at transparent_basic transparent_digest_and_verify split: option.split)
  done

lemma transparent_match [transparent_rules]: "transparent cr (match_pub_key cr signature need pub_keys)"
  by (induction pub_keys) (auto intro!: transparent_rules)

lemma transparent_signatures [transparent_rules]: "transparent cr (check_signatures cr signatures pub_keys)"
  by (induction signatures arbitrary: pub_keys) (auto intro!: transparent_rules)

lemma transparent_multisig [transparent_rules]: "transparent cr (op_check_multisig cr)"
  unfolding op_check_multisig_def
  by (intro transparent_rules transparent_stacky [OF stacky_mod]) simp_all

lemma transparent_signature_ops [transparent_rules]:
  "transparent cr (op_check_sig cr)" "transparent cr (op_check_sig_ecdsa cr)"
  "transparent cr (op_check_sig_verify cr)" "transparent cr (op_check_multisig_verify cr)"
  unfolding op_check_sig_def op_check_sig_ecdsa_def op_check_sig_verify_def op_check_multisig_verify_def
  by (intro transparent_rules; simp)+

section \<open>The engine\<close>

lemma transparent_opcode_execute: "transparent cr (opcode_execute cr opc)"
proof (cases "checks_signature opc")
  case True
  then obtain m where m: "exec_crypto cr opc = Some m" using opcode_execute_signature(2) by blast
  then have "opcode_execute cr opc = m" using opcode_execute_signature(1) [OF True] by simp
  moreover have "transparent cr m" using exec_crypto_cases [OF m True] by (auto intro: transparent_rules)
  ultimately show ?thesis by simp
qed (simp add: transparent_stacky stacky_opcode_execute)

lemma transparent_step: "r \<noteq> Inl Panicked \<Longrightarrow> transparent cr (script_step cr only r)"
  unfolding script_step_def execute_opcode_def
  by (intro transparent_rules transparent_opcode_execute transparent_stacky [OF stacky_charge]
      transparent_stacky [OF stacky_stack_size] transparent_stacky [OF stacky_lift] transparent_stacky [OF stacky_gets(4)])
     (simp_all add: check_minimal_no_panic)

lemma transparent_run_opcodes:
  "Inl Panicked \<notin> set rs \<Longrightarrow> transparent cr (run_opcodes cr only rs)"
  by (induction rs) (auto intro!: transparent_rules transparent_step)

lemma twin_reset: "twin cr s t \<Longrightarrow> twin cr (s\<lparr>astack := [], num_ops := 0\<rparr>) (t\<lparr>astack := [], num_ops := 0\<rparr>)"
  using transparent_stacky [OF stacky_mod, of "\<lambda>s. s\<lparr>astack := [], num_ops := 0\<rparr>" cr]
  by (simp add: transparent_def smod_def)

lemma parse_script_no_panic: "Inl Panicked \<notin> set (parse_script script)"
proof (induction script rule: parse_script.induct)
  case (1 it)
  show ?case
  proof (cases "deserialize_next_opcode it")
    case None
    then show ?thesis by (simp add: parse_script.simps [of it])
  next
    case (Some p)
    obtain r rest where p: "p = (r, rest)" by (cases p)
    have "r \<noteq> Inl Panicked"
      using Some p by (auto simp: deserialize_next_opcode_def opcode_deserialize_def opcode_new_def Let_def
          split: list.splits op_length.splits if_splits)
    with 1 Some p show ?thesis by (simp add: parse_script.simps [of it])
  qed
qed

lemma transparent_execute_script [transparent_rules]: "transparent cr (execute_script cr script only)"
  unfolding transparent_def
proof (intro allI impI)
  fix s t assume tw: "twin cr s t"
  let ?m = "run_opcodes cr only (parse_script script)"
  have "transparent cr ?m" by (intro transparent_run_opcodes parse_script_no_panic)
  with tw have 1: "fst (?m t) = fst (?m s)" "twin cr (snd (?m s)) (snd (?m t))"
    by (auto simp: transparent_def)
  obtain r s1 t1 where m: "?m s = (r, s1)" "?m t = (r, t1)" "twin cr s1 t1"
    using 1 by (cases "?m s"; cases "?m t") auto
  show "fst (execute_script cr script only t) = fst (execute_script cr script only s) \<and>
    twin cr (snd (execute_script cr script only s)) (snd (execute_script cr script only t))"
    using m twin_reset [OF m(3)] twin_sel(3) [OF m(3)]
    by (cases r) (auto simp: execute_script_def)
qed

lemma transparent_run_scripts [transparent_rules]: "transparent cr (run_scripts cr tx p2sh scripts saved)"
  by (induction cr tx p2sh scripts saved rule: run_scripts.induct) (auto intro!: transparent_rules)

lemma transparent_execute_scripts [transparent_rules]: "transparent cr (execute_scripts cr tx p2sh scripts)"
  unfolding execute_scripts_def execute_p2sh_def
  by (intro transparent_rules transparent_stacky [OF stacky_error_condition] transparent_stacky [OF stacky_lift]
      transparent_stacky [OF stacky_set_dstack] transparent_stacky [OF stacky_pop_script])
     (auto simp: ok_or_def split: option.split)

lemma transparent_execute: "transparent cr (execute cr)"
  unfolding execute_def
  apply (rule transparent_bind [OF transparent_basic(9)])
  subgoal for src by (cases src) (auto intro!: transparent_rules)
  done

end
