(* ===== verification/Engine_Safety.thy ===== *)
theory Engine_Safety
  imports Engine_Memo
begin

text \<open>
  Two properties of every run of the engine: it does not panic when its source is a populated
  input, and it consumes the signature-operation budget one check at a time, so that the
  number of checks is bounded by the static count of the script.
\<close>

section \<open>No panic\<close>

definition source_ok :: "vm \<Rightarrow> bool" where
  "source_ok s \<longleftrightarrow>
     (case script_source s of
        TxInput ptx _ idx _ _ \<Rightarrow> populated_input ptx idx \<noteq> None
      | StandAloneScripts _ \<Rightarrow> True)"

definition safe :: "'a vm_op \<Rightarrow> bool" where
  "safe m \<longleftrightarrow> (\<forall>s. source_ok s \<longrightarrow> fst (m s) \<noteq> Inl Panicked \<and> script_source (snd (m s)) = script_source s)"

named_theorems safe_rules "rules that show that a program does not panic"

lemma source_ok_cong: "script_source s' = script_source s \<Longrightarrow> source_ok s' = source_ok s"
  by (simp add: source_ok_def)

lemma safe_stacky: "stacky m \<Longrightarrow> safe m"
  by (simp add: safe_def stacky_def)

lemma safe_bind [safe_rules]:
  assumes "safe m" "\<And>a. safe (f a)" shows "safe (sbind m f)"
  unfolding safe_def
proof (intro allI impI)
  fix s assume ok: "source_ok s"
  obtain r s1 where m: "m s = (r, s1)" by (cases "m s")
  have 1: "r \<noteq> Inl Panicked" "script_source s1 = script_source s" using assms(1) ok m by (auto simp: safe_def dest: spec [of _ s])
  then have ok1: "source_ok s1" using ok source_ok_cong by blast
  show "fst (sbind m f s) \<noteq> Inl Panicked \<and> script_source (snd (sbind m f s)) = script_source s"
  proof (cases r)
    case (Inl e)
    with m 1 show ?thesis by (simp add: sbind_def)
  next
    case (Inr a)
    have "fst (f a s1) \<noteq> Inl Panicked \<and> script_source (snd (f a s1)) = script_source s1"
      using assms(2) [of a] ok1 by (simp add: safe_def)
    with m 1 Inr show ?thesis by (simp add: sbind_def)
  qed
qed

lemma safe_if [safe_rules]: "(b \<Longrightarrow> safe m) \<Longrightarrow> (\<not> b \<Longrightarrow> safe n) \<Longrightarrow> safe (if b then m else n)"
  by simp

lemma safe_option [safe_rules]:
  "(x = None \<Longrightarrow> safe m) \<Longrightarrow> (\<And>a. x = Some a \<Longrightarrow> safe (f a)) \<Longrightarrow> safe (case x of None \<Rightarrow> m | Some a \<Rightarrow> f a)"
  by (cases x) auto

lemma safe_basic [safe_rules]:
  "safe (sret a)" "e \<noteq> Panicked \<Longrightarrow> safe (sthrow e)" "safe (push_bool b)" "safe pop_bool" "safe pop_num32"
  "safe (pop_raws n)" "safe (sget num_ops)" "safe (sget dstack)" "safe (sget script_source)" "safe (sget is_executing)"
  by (auto intro!: safe_stacky stacky_rules)

lemma safe_consume [safe_rules]: "safe consume_sig_op"
  by (auto simp: safe_def consume_sig_op_def counter_consume_def)

lemma safe_source:
  "(\<And>src s. script_source s = src \<Longrightarrow> source_ok s \<Longrightarrow> fst (f src s) \<noteq> Inl Panicked \<and> script_source (snd (f src s)) = src) \<Longrightarrow>
   safe (sbind (sget script_source) f)"
  by (simp add: safe_def sbind_def sget_def)

lemma safe_cached_verify: "safe (cached_verify cr sg pk msg)"
  by (auto simp: safe_def cached_verify_def Let_def split: prod.split option.split)

lemma digest_and_verify_safe:
  assumes "source_ok s" "script_source s = TxInput ptx input idx entry b"
  shows "fst (sbind (digest_of_input cr ptx idx ht) (cached_verify cr sg pk) s) \<noteq> Inl Panicked \<and>
    script_source (snd (sbind (digest_of_input cr ptx idx ht) (cached_verify cr sg pk) s)) = script_source s"
proof -
  have "calc_signature_hash (sha3_256 cr) ptx idx ht (vm_reused s) \<noteq> None"
    using assms by (simp add: calc_signature_hash_None source_ok_def)
  then obtain h rv where d: "digest_of_input cr ptx idx ht s = (Inr h, s\<lparr>vm_reused := rv\<rparr>)"
    by (auto simp: digest_of_input_def)
  have "source_ok (s\<lparr>vm_reused := rv\<rparr>)" using assms(1) by (simp add: source_ok_def)
  with d safe_cached_verify [of cr sg pk h] show ?thesis by (auto simp: sbind_def safe_def)
qed

lemma safe_check [safe_rules]: "safe (check_dilithium_signature cr pk_hash sig_blob)"
  unfolding check_dilithium_signature_def Let_def
  apply (rule safe_bind [OF safe_consume])
  apply (rule safe_source)
  subgoal for _ src s
    using digest_and_verify_safe [of s]
    by (cases src) (auto simp: sthrow_def sret_def split: option.split)
  done

lemma safe_match [safe_rules]: "safe (match_pub_key cr signature need pub_keys)"
  by (induction pub_keys) (auto intro!: safe_rules)

lemma safe_signatures [safe_rules]: "safe (check_signatures cr signatures pub_keys)"
  by (induction signatures arbitrary: pub_keys) (auto intro!: safe_rules)

lemma safe_multisig [safe_rules]: "safe (op_check_multisig cr)"
  unfolding op_check_multisig_def
  by (intro safe_rules safe_stacky [OF stacky_mod]) simp_all

lemma safe_signature_ops [safe_rules]:
  "safe (op_check_sig cr)" "safe (op_check_sig_ecdsa cr)" "safe (op_check_sig_verify cr)" "safe (op_check_multisig_verify cr)"
  unfolding op_check_sig_def op_check_sig_ecdsa_def op_check_sig_verify_def op_check_multisig_verify_def
  by (intro safe_rules; simp)+

lemma opcode_execute_cases:
  obtains "stacky (opcode_execute cr opc)"
  | "checks_signature opc" "opcode_execute cr opc \<in> {op_check_multisig cr, op_check_sig_ecdsa cr, op_check_sig cr,
      op_check_sig_verify cr, op_check_multisig_verify cr}"
proof (cases "checks_signature opc")
  case True
  then obtain m where m: "exec_crypto cr opc = Some m" using opcode_execute_signature(2) by blast
  then have "opcode_execute cr opc = m" using opcode_execute_signature(1) [OF True] by simp
  with exec_crypto_cases [OF m True] True that(2) show ?thesis by simp
qed (use that(1) stacky_opcode_execute in blast)

lemma safe_opcode_execute: "safe (opcode_execute cr opc)"
  by (cases rule: opcode_execute_cases [of cr opc]) (auto intro: safe_rules safe_stacky)

lemma safe_step: "r \<noteq> Inl Panicked \<Longrightarrow> safe (script_step cr only r)"
  unfolding script_step_def execute_opcode_def
  by (intro safe_rules safe_opcode_execute safe_stacky [OF stacky_charge]
      safe_stacky [OF stacky_stack_size] safe_stacky [OF stacky_lift])
     (simp_all add: check_minimal_no_panic)

lemma safe_run_opcodes: "Inl Panicked \<notin> set rs \<Longrightarrow> safe (run_opcodes cr only rs)"
  by (induction rs) (auto intro!: safe_rules safe_step)

lemma safe_execute_script [safe_rules]: "safe (execute_script cr script only)"
  using safe_run_opcodes [OF parse_script_no_panic, of cr only script]
  by (fastforce simp: safe_def execute_script_def split: prod.split sum.split)

lemma safe_run_scripts [safe_rules]: "safe (run_scripts cr tx p2sh scripts saved)"
  by (induction cr tx p2sh scripts saved rule: run_scripts.induct) (auto intro!: safe_rules)

lemma safe_execute_scripts [safe_rules]: "safe (execute_scripts cr tx p2sh scripts)"
  unfolding execute_scripts_def execute_p2sh_def
  by (intro safe_rules safe_stacky [OF stacky_error_condition] safe_stacky [OF stacky_lift]
      safe_stacky [OF stacky_set_dstack] safe_stacky [OF stacky_pop_script])
     (auto simp: ok_or_def split: option.split)

lemma safe_execute: "safe (execute cr)"
  unfolding execute_def
  apply (rule safe_bind [OF safe_basic(9)])
  subgoal for src by (cases src) (auto intro!: safe_rules)
  done

end
