(* ===== verification/Push_Script.thy ===== *)
theory Push_Script
  imports Engine_Frame
begin

text \<open>
  Push-only scripts.  Signature scripts are executed with \<open>verify_only_push\<close>; a successful
  run appends to the stack what each opcode pushes, and nothing else.
\<close>

lemma small_int_range:
  assumes "OpTrue \<le> (c :: u8)" "c \<le> Op16"
  shows "c \<in> {0x51, 0x52, 0x53, 0x54, 0x55, 0x56, 0x57, 0x58, 0x59, 0x5a, 0x5b, 0x5c, 0x5d, 0x5e, 0x5f, 0x60}"
proof -
  have "unat c \<in> {0x51..0x60}" using assms by (simp add: word_le_nat_alt)
  then have "unat c \<in> set [0x51..<0x61]" unfolding set_upt by simp
  then have "word_of_nat (unat c) \<in> (word_of_nat :: nat \<Rightarrow> u8) ` set [0x51..<0x61]" by (rule imageI)
  then show ?thesis by (simp add: upt_rec)
qed

lemma small_int_codec:
  assumes "OpTrue \<le> (c :: u8)" "c \<le> Op16"
  shows "serialize_num64 (uint c - 0x50) = Inr [c - 0x50]" "deserialize_num32 [c - 0x50] = Inr (uint c - 0x50)"
proof -
  have "serialize_num64 (uint c - 0x50) = Inr [c - 0x50] \<and> deserialize_num32 [c - 0x50] = Inr (uint c - 0x50)"
    using small_int_range [OF assms] by (elim insertE emptyE; simp only:; code_simp)
  then show "serialize_num64 (uint c - 0x50) = Inr [c - 0x50]" "deserialize_num32 [c - 0x50] = Inr (uint c - 0x50)"
    by simp_all
qed

lemma script_step_Inr:
  "script_step cr only (Inr op) =
     (if is_disabled op then sthrow (OpcodeDisabled op)
      else if always_illegal op then sthrow (OpcodeReserved op)
      else if only \<and> \<not> is_push_opcode op then sthrow SignatureScriptNotPushOnly
      else sbind (execute_opcode cr op) (\<lambda>_. check_stack_size))"
  by (simp add: script_step_def sbind_def slift_def)

lemma sbind_InrE:
  assumes "sbind m f s = (Inr b, s')"
  obtains a s1 where "m s = (Inr a, s1)" "f a s1 = (Inr b, s')"
  using assms by (cases "m s"; cases "fst (m s)") (auto simp: sbind_def)

text \<open>What a push opcode leaves on the stack.\<close>

definition pushed :: "opcode \<Rightarrow> bytes" where
  "pushed op =
     (if op_value op = OpFalse then []
      else if op_value op \<le> OpPushData4 then op_data op
      else if op_value op = Op1Negate then [0x81]
      else [op_value op - 0x50])"

lemma push_number_minus_one: "push_number (- 1) s = (Inr (), s\<lparr>dstack := dstack s @ [[0x81]]\<rparr>)"
proof -
  have "serialize_num64 (- 1) = Inr [0x81]" by code_simp
  then show ?thesis by (simp add: push_number_def on_dstack_def push_item_def)
qed

lemma push_opcode_range:
  assumes "is_push_opcode op" "op_value op \<noteq> OpFalse" "\<not> op_value op \<le> OpPushData4" "op_value op \<noteq> Op1Negate"
    "op_value op \<noteq> 0x50"
  shows "OpTrue \<le> op_value op" "op_value op \<le> Op16"
proof -
  have "unat (op_value op) \<noteq> 0x4f" "unat (op_value op) \<noteq> 0x50"
    using assms(4,5) by (simp_all add: word_unat_eq_iff)
  then show "OpTrue \<le> op_value op" "op_value op \<le> Op16"
    using assms(1,3) by (simp_all add: is_push_opcode_def op_consts word_le_nat_alt)
qed

lemma push_opcode_execute:
  assumes "is_push_opcode op"
  shows "opcode_execute cr op s =
     (if op_value op = 0x50 then (Inl (OpcodeReserved op), s)
      else (Inr (), s\<lparr>dstack := dstack s @ [pushed op]\<rparr>))"
proof (cases "op_value op = OpFalse \<or> op_value op \<le> OpPushData4 \<or> op_value op = Op1Negate \<or> op_value op = 0x50")
  case True
  then show ?thesis
    by (auto simp: opcode_execute_def pushed_def op_false_def op_push_def op_1negate_def push_number_minus_one
        push_data_def smod_def sthrow_def op_reserved_def Let_def)
next
  case False
  then have r: "OpTrue \<le> op_value op" "op_value op \<le> Op16" using push_opcode_range [OF assms] by auto
  with False show ?thesis
    by (simp add: opcode_execute_def pushed_def op_small_int_def push_number_def on_dstack_def push_item_def
        small_int_codec [OF r] Let_def)
qed

lemma push_step:
  assumes push: "is_push_opcode op" and ex: "cond_stack s = []"
    and step: "script_step cr only (Inr op) s = (Inr u, s')"
  shows "length (op_data op) \<le> MAX_SCRIPT_ELEMENT_SIZE \<and> op_value op \<noteq> 0x50 \<and>
    s' = s\<lparr>dstack := dstack s @ [pushed op]\<rparr>"
proof -
  obtain s1 where s1: "execute_opcode cr op s = (Inr (), s1)" "check_stack_size s1 = (Inr (), s')"
    using step by (auto simp: script_step_Inr sthrow_def split: if_splits elim: sbind_InrE)
  have same: "s' = s1" using s1(2) by (auto simp: check_stack_size_def Let_def split: if_splits)
  have len: "length (op_data op) \<le> MAX_SCRIPT_ELEMENT_SIZE" and charge: "charge_opcode op s = (Inr (), s)"
    using s1(1) push by (auto simp: execute_opcode_def charge_opcode_def sbind_def split: if_splits)
  have "opcode_execute cr op s = (Inr (), s1)"
    using s1(1) charge ex
    by (auto simp: execute_opcode_def sbind_def sget_def slift_def sret_def is_executing_def split: if_splits sum.splits)
  then show ?thesis using len same by (auto simp: push_opcode_execute [OF push] split: if_splits)
qed

lemma run_push_only:
  assumes "cond_stack s = []" "run_opcodes cr True rs s = (Inr u, s')"
  shows "\<exists>ops. rs = map Inr ops \<and> list_all (\<lambda>op. is_push_opcode op \<and> op_value op \<noteq> 0x50 \<and>
      length (op_data op) \<le> MAX_SCRIPT_ELEMENT_SIZE) ops \<and> s' = s\<lparr>dstack := dstack s @ map pushed ops\<rparr>"
  using assms
proof (induction rs arbitrary: s)
  case Nil
  then show ?case by (simp add: sret_def)
next
  case (Cons r rs)
  from Cons.prems(2) obtain v s1 where s1: "script_step cr True r s = (Inr v, s1)" "run_opcodes cr True rs s1 = (Inr u, s')"
    by (auto elim: sbind_InrE)
  then obtain op where r: "r = Inr op" by (cases r) (auto simp: script_step_def sbind_def slift_def)
  have push: "is_push_opcode op" using s1(1) by (auto simp: r script_step_Inr sthrow_def split: if_splits)
  note st = push_step [OF push Cons.prems(1) s1(1) [unfolded r]]
  then have "cond_stack s1 = []" using Cons.prems(1) by simp
  from Cons.IH [OF this s1(2)] obtain ops where ops: "rs = map Inr ops"
    "list_all (\<lambda>op. is_push_opcode op \<and> op_value op \<noteq> 0x50 \<and> length (op_data op) \<le> MAX_SCRIPT_ELEMENT_SIZE) ops"
    "s' = s1\<lparr>dstack := dstack s1 @ map pushed ops\<rparr>" by blast
  show ?case by (rule exI [of _ "op # ops"]) (use r st ops push in simp)
qed

lemma execute_push_only:
  assumes "cond_stack s = []" "execute_script cr script True s = (Inr u, s')"
  obtains ops where "parse_script script = map Inr ops"
    "list_all (\<lambda>op. is_push_opcode op \<and> op_value op \<noteq> 0x50 \<and> length (op_data op) \<le> MAX_SCRIPT_ELEMENT_SIZE) ops"
    "s' = s\<lparr>dstack := dstack s @ map pushed ops, astack := [], num_ops := 0\<rparr>"
proof -
  obtain s1 where run: "run_opcodes cr True (parse_script script) s = (Inr (), s1)"
    and s': "s' = s1\<lparr>astack := [], num_ops := 0\<rparr>"
    using assms(2) by (auto simp: execute_script_def split: prod.splits sum.splits if_splits)
  from run_push_only [OF assms(1) run] obtain ops where "parse_script script = map Inr ops"
    "list_all (\<lambda>op. is_push_opcode op \<and> op_value op \<noteq> 0x50 \<and> length (op_data op) \<le> MAX_SCRIPT_ELEMENT_SIZE) ops"
    "s1 = s\<lparr>dstack := dstack s @ map pushed ops\<rparr>" by blast
  then show thesis using that [of ops] s' by simp
qed

text \<open>A parsed push opcode outside of the data pushes carries no data, so every pushed element is short.\<close>

lemma pushed_small:
  "is_push_opcode op \<Longrightarrow> length (op_data op) \<le> MAX_SCRIPT_ELEMENT_SIZE \<Longrightarrow>
   length (pushed op) \<le> MAX_SCRIPT_ELEMENT_SIZE"
  by (simp add: pushed_def MAX_SCRIPT_ELEMENT_SIZE_def)

end
