(* ===== verification/Sigop_Bound.thy ===== *)
theory Sigop_Bound
  imports Engine_Safety Push_Script
begin

text \<open>
  The static count of signature operations bounds what a run consumes.  \<open>used s s' n\<close> says
  that at most \<open>n\<close> operations of the budget were consumed between two states.
\<close>

section \<open>Consumption\<close>

definition remaining :: "vm \<Rightarrow> nat" where
  "remaining s = unat (sig_op_remaining (vm_counter s))"

definition used :: "vm \<Rightarrow> vm \<Rightarrow> nat \<Rightarrow> bool" where
  "used s s' n \<longleftrightarrow>
     sig_op_limit (vm_counter s') = sig_op_limit (vm_counter s) \<and>
     remaining s' \<le> remaining s \<and> remaining s \<le> remaining s' + n"

definition spends :: "nat \<Rightarrow> 'a vm_op \<Rightarrow> bool" where
  "spends n m \<longleftrightarrow> (\<forall>s. used s (snd (m s)) n)"

named_theorems spends_rules "rules for the consumption of the signature budget"

lemma used_trans: "used s s1 a \<Longrightarrow> used s1 s2 b \<Longrightarrow> used s s2 (a + b)"
  by (simp add: used_def)

lemma used_refl [simp]: "used s s n"
  by (simp add: used_def)

lemma used_mono: "used s s' a \<Longrightarrow> a \<le> b \<Longrightarrow> used s s' b"
  by (simp add: used_def)

lemma used_cong: "vm_counter s1 = vm_counter s2 \<Longrightarrow> used s s1 n = used s s2 n"
  by (simp add: used_def remaining_def)

lemma spends_stacky: "stacky m \<Longrightarrow> spends n m"
  by (simp add: spends_def used_def remaining_def stacky_env)

lemma spends_mono: "spends a m \<Longrightarrow> a \<le> b \<Longrightarrow> spends b m"
  by (auto simp: spends_def intro: used_mono)

lemma sbind_cases:
  obtains (Err) e s1 where "m s = (Inl e, s1)" "sbind m f s = (Inl e, s1)"
  | (Ok) a s1 where "m s = (Inr a, s1)" "sbind m f s = f a s1"
  by (cases "m s"; cases "fst (m s)") (auto simp: sbind_def)

lemma spends_bind:
  assumes "spends a m" "\<And>x. spends b (f x)" shows "spends (a + b) (sbind m f)"
  unfolding spends_def
proof
  fix s show "used s (snd (sbind m f s)) (a + b)"
  proof (cases rule: sbind_cases [of m s f])
    case (Err e s1)
    have "used s s1 a" using assms(1) Err(1) by (auto simp: spends_def dest: spec [of _ s])
    then show ?thesis using Err(2) by (simp add: used_mono)
  next
    case (Ok x s1)
    have "used s s1 a" using assms(1) Ok(1) by (auto simp: spends_def dest: spec [of _ s])
    moreover have "used s1 (snd (f x s1)) b" using assms(2) by (simp add: spends_def)
    ultimately show ?thesis using Ok(2) by (simp add: used_trans)
  qed
qed

lemma spends_bind0: "stacky m \<Longrightarrow> (\<And>x. spends n (f x)) \<Longrightarrow> spends n (sbind m f)"
  using spends_bind [of 0 m n f] by (simp add: spends_stacky)

lemma spends_bind_tail: "spends n m \<Longrightarrow> (\<And>x. stacky (f x)) \<Longrightarrow> spends n (sbind m f)"
  using spends_bind [of n m 0 f] by (simp add: spends_stacky)

lemma spends_if: "(b \<Longrightarrow> spends n m) \<Longrightarrow> (\<not> b \<Longrightarrow> spends n m') \<Longrightarrow> spends n (if b then m else m')"
  by simp

lemma spends_throw: "spends n (sthrow e)"
  by (simp add: spends_def sthrow_def)

lemma unat_dec8: "(r :: u8) \<noteq> 0 \<Longrightarrow> unat (r - 1) = unat r - 1"
  by (simp add: unat_minus_one)

lemma spends_consume: "spends 1 consume_sig_op"
  by (auto simp: spends_def used_def remaining_def consume_sig_op_def counter_consume_def unat_dec8)

lemma spends_digest: "spends 0 (digest_of_input cr ptx idx ht)"
  by (auto simp: spends_def used_def remaining_def digest_of_input_def split: option.split)

lemma spends_cached_verify: "spends 0 (cached_verify cr sg pk msg)"
  by (auto simp: spends_def used_def remaining_def cached_verify_def Let_def split: prod.split option.split)

lemma spends_check: "spends 1 (check_dilithium_signature cr pk_hash sig_blob)"
proof -
  have "spends (1 + 0) (check_dilithium_signature cr pk_hash sig_blob)"
    unfolding check_dilithium_signature_def Let_def
    apply (rule spends_bind [OF spends_consume])
    apply (rule spends_bind0, rule stacky_rules)
    subgoal for _ src
      using spends_bind [OF spends_digest spends_cached_verify]
      by (cases src) (auto simp: spends_stacky stacky_rules split: option.split)
    done
  then show ?thesis by simp
qed

text \<open>One signature consumes at most one operation per public key it is tried on.\<close>

lemma match_pub_key_used:
  "used s (snd (match_pub_key cr sg need pks s)) (length pks) \<and>
   (\<forall>rest s'. match_pub_key cr sg need pks s = (Inr (Some rest), s') \<longrightarrow>
      length rest \<le> length pks \<and> used s s' (length pks - length rest))"
proof (induction pks arbitrary: s)
  case (Cons pk pks)
  show ?case
  proof (cases "length (pk # pks) < need")
    case True
    then show ?thesis by (simp add: sret_def)
  next
    case False
    let ?f = "\<lambda>v. if v then sret (Some pks) else match_pub_key cr sg need pks"
    have eq: "match_pub_key cr sg need (pk # pks) s = sbind (check_dilithium_signature cr pk sg) ?f s"
      using False by simp
    show ?thesis
    proof (cases rule: sbind_cases [of "check_dilithium_signature cr pk sg" s ?f])
      case (Err e s1)
      have "used s s1 1" using spends_check [of cr pk sg] Err(1) by (auto simp: spends_def dest: spec [of _ s])
      then show ?thesis using Err eq by (auto intro: used_mono)
    next
      case (Ok v s1)
      have u: "used s s1 1" using spends_check [of cr pk sg] Ok(1) by (auto simp: spends_def dest: spec [of _ s])
      show ?thesis
      proof (cases v)
        case True
        then show ?thesis using Ok eq u by (auto simp: sret_def intro: used_mono)
      next
        case False
        then have m: "match_pub_key cr sg need (pk # pks) s = match_pub_key cr sg need pks s1" using Ok eq by simp
        show ?thesis unfolding m
          using Cons [of s1] used_trans [OF u] by (fastforce simp: Suc_diff_le)
      qed
    qed
  qed
qed (simp add: sret_def)

lemma check_signatures_used: "used s (snd (check_signatures cr sigs pks s)) (length pks)"
proof (induction sigs arbitrary: pks s)
  case (Cons sg sigs)
  let ?m = "match_pub_key cr (butlast sg) (length (sg # sigs)) pks"
  let ?f = "\<lambda>r. case r of None \<Rightarrow> sret True | Some rest \<Rightarrow> check_signatures cr sigs rest"
  have body: "used s (snd (sbind ?m ?f s)) (length pks)"
  proof (cases rule: sbind_cases [of ?m s ?f])
    case (Err e s1)
    then show ?thesis using match_pub_key_used [of s cr "butlast sg" "length (sg # sigs)" pks] by simp
  next
    case (Ok r s1)
    note u = match_pub_key_used [of s cr "butlast sg" "length (sg # sigs)" pks]
    show ?thesis
    proof (cases r)
      case None
      with Ok u show ?thesis by (simp add: sret_def)
    next
      case (Some rest)
      have "length rest \<le> length pks" "used s s1 (length pks - length rest)" using u Ok Some by auto
      with Cons [of s1 rest] Ok Some show ?thesis
        using used_trans [of s s1 "length pks - length rest" "snd (check_signatures cr sigs rest s1)" "length rest"] by simp
    qed
  qed
  show ?case
  proof (cases "sg = [] \<or> sighash_from_u8 (last sg) = None")
    case True
    then show ?thesis by (auto simp: sret_def sthrow_def split: option.split)
  next
    case False
    then have "check_signatures cr (sg # sigs) pks s = sbind ?m ?f s" by auto
    with body show ?thesis by simp
  qed
qed (simp add: sret_def)

lemma spends_bind_result:
  assumes "stacky m" "\<And>s x s1. m s = (Inr x, s1) \<Longrightarrow> spends n (f x)" shows "spends n (sbind m f)"
  unfolding spends_def
proof
  fix s show "used s (snd (sbind m f s)) n"
  proof (cases rule: sbind_cases [of m s f])
    case (Err e s1)
    then have "vm_counter s1 = vm_counter s" using stacky_env(3) [OF assms(1), of s] by simp
    then show ?thesis using Err(2) used_cong [of s1 s s n] by simp
  next
    case (Ok x s1)
    then have "vm_counter s1 = vm_counter s" using stacky_env(3) [OF assms(1), of s] by simp
    then have "used s s1 0" using used_cong [of s1 s s 0] by simp
    moreover have "used s1 (snd (f x s1)) n" using assms(2) [OF Ok(1)] by (simp add: spends_def)
    ultimately show ?thesis using Ok(2) used_trans [of s s1 0] by simp
  qed
qed

lemma pop_raws_length: "pop_raws n s = (Inr v, s1) \<Longrightarrow> length v = n"
  by (auto simp: pop_raws_def on_dstack_def pop_raw_def split: if_splits)

text \<open>\<open>op_check_multisig\<close> after it has read the number of keys.\<close>

definition multisig_tail :: "crypto \<Rightarrow> int \<Rightarrow> unit vm_op" where
  "multisig_tail cr num_keys =
     (if num_keys < 0 then sthrow InvalidPubKeyCount
     else if num_keys > MAX_PUB_KEYS_PER_MUTLTISIG then sthrow InvalidPubKeyCount
     else
       sbind (smod (\<lambda>s. s\<lparr>num_ops := num_ops s + num_keys\<rparr>)) (\<lambda>_.
       sbind (sget num_ops) (\<lambda>ops.
       if ops > MAX_OPS_PER_SCRIPT then sthrow (TooManyOperations MAX_OPS_PER_SCRIPT)
       else
         sbind (pop_raws (nat num_keys)) (\<lambda>pub_keys.
         sbind pop_num32 (\<lambda>num_sigs.
         if num_sigs < 0 then sthrow InvalidSignatureCount
         else if num_sigs > num_keys then sthrow InvalidSignatureCount
         else
           sbind (pop_raws (nat num_sigs)) (\<lambda>signatures.
           sbind (check_signatures cr signatures pub_keys) (\<lambda>failed.
           if failed \<and> (\<exists>sig \<in> set signatures. sig \<noteq> []) then sthrow NullFail
           else push_bool (\<not> failed))))))))"

lemma op_check_multisig_tail: "op_check_multisig cr = sbind pop_num32 (multisig_tail cr)"
  by (simp add: op_check_multisig_def multisig_tail_def [abs_def])

lemma spends_signatures:
  "spends (length pks) (sbind (check_signatures cr sigs pks) (\<lambda>failed.
     if failed \<and> (\<exists>sig \<in> set sigs. sig \<noteq> []) then sthrow NullFail else push_bool (\<not> failed)))"
proof -
  have "spends (length pks) (check_signatures cr sigs pks)"
    by (simp add: spends_def check_signatures_used)
  moreover have "spends 0 (if failed \<and> (\<exists>sig \<in> set sigs. sig \<noteq> []) then sthrow NullFail else push_bool (\<not> failed))" for failed
    by (auto intro!: spends_stacky stacky_rules)
  ultimately show ?thesis by (rule spends_bind [where b = 0, simplified])
qed

lemma spends_multisig_tail: "spends (nat k) (multisig_tail cr k)"
  unfolding multisig_tail_def
  apply (intro spends_if spends_throw)
  apply (rule spends_bind0 [OF stacky_mod]; simp?)
  apply (rule spends_bind0, rule stacky_rules)
  apply (intro spends_if spends_throw)
  apply (rule spends_bind_result, rule stacky_rules)
  apply (drule pop_raws_length)
  apply (rule spends_bind0, rule stacky_rules)
  apply (intro spends_if spends_throw)
  apply (rule spends_bind0, rule stacky_rules)
  subgoal premises prems for ops _ pub_keys _ num_sigs signatures
    using spends_signatures [of pub_keys cr signatures] prems by simp
  done

lemma multisig_tail_max: "spends 20 (multisig_tail cr k)"
proof (cases "k \<le> 20")
  case True
  then show ?thesis by (intro spends_mono [OF spends_multisig_tail]) simp
next
  case False
  then show ?thesis by (auto simp: multisig_tail_def MAX_PUB_KEYS_PER_MUTLTISIG_def intro!: spends_stacky stacky_rules)
qed

lemma spends_multisig: "spends 20 (op_check_multisig cr)"
  unfolding op_check_multisig_tail by (rule spends_bind0) (auto intro: stacky_rules multisig_tail_max)

text \<open>With a known number of keys on top of the stack, the consumption is at most that number.\<close>

lemma multisig_used:
  assumes "dstack s = st @ [v]" "deserialize_num32 v = Inr k"
  shows "used s (snd (op_check_multisig cr s)) (nat k)"
proof -
  have "pop_num32 s = (Inr k, s\<lparr>dstack := st\<rparr>)"
    using assms pop_items_append [of "[v]" 1 deserialize_num32 st]
    by (simp add: pop_num32_def on_dstack_def sbind_def sret_def)
  then have "op_check_multisig cr s = multisig_tail cr k (s\<lparr>dstack := st\<rparr>)"
    by (simp add: op_check_multisig_tail sbind_def)
  then show ?thesis using spends_multisig_tail [of k cr]
    by (auto simp: spends_def used_def remaining_def dest: spec [of _ "s\<lparr>dstack := st\<rparr>"])
qed

section \<open>One opcode\<close>

definition single_check :: "opcode \<Rightarrow> bool" where
  "single_check op \<longleftrightarrow> op_value op \<in> {OpCheckSig, OpCheckSigVerify, OpCheckSigECDSA}"

definition multi_check :: "opcode \<Rightarrow> bool" where
  "multi_check op \<longleftrightarrow> op_value op \<in> {OpCheckMultiSig, OpCheckMultiSigVerify, OpCheckMultiSigECDSA}"

lemma checks_signature_iff: "checks_signature op \<longleftrightarrow> single_check op \<or> multi_check op"
  by (auto simp: checks_signature_def single_check_def multi_check_def)

lemma spends_single_ops:
  "spends 1 (op_check_sig cr)" "spends 1 (op_check_sig_ecdsa cr)" "spends 1 (op_check_sig_verify cr)"
proof -
  have tail: "spends 1 (sbind (check_dilithium_signature cr a b) push_bool)" for a b
    by (intro spends_bind_tail spends_check stacky_rules)
  show sig: "spends 1 (op_check_sig cr)" unfolding op_check_sig_def
    by (intro spends_bind0 stacky_rules tail)
  show "spends 1 (op_check_sig_ecdsa cr)" unfolding op_check_sig_ecdsa_def
    by (intro spends_bind0 stacky_rules tail)
  show "spends 1 (op_check_sig_verify cr)" unfolding op_check_sig_verify_def
    by (intro spends_bind_tail sig stacky_rules) simp
qed

lemma opcode_execute_single: "single_check op \<Longrightarrow> spends 1 (opcode_execute cr op)"
  using opcode_execute_signature(1) [of op cr] spends_single_ops [of cr]
  by (auto simp: checks_signature_iff single_check_def exec_crypto_def)

lemma opcode_execute_multi:
  assumes "multi_check op"
  shows "opcode_execute cr op \<in> {op_check_multisig cr, op_check_multisig_verify cr}"
  using assms opcode_execute_signature(1) [of op cr]
  by (auto simp: checks_signature_iff multi_check_def exec_crypto_def)

lemma multi_verify_used:
  "used s (snd (op_check_multisig cr s)) n \<Longrightarrow> used s (snd (op_check_multisig_verify cr s)) n"
proof -
  let ?f = "\<lambda>_. sbind pop_bool (\<lambda>v. if v then sret () else sthrow VerifyError)"
  assume u: "used s (snd (op_check_multisig cr s)) n"
  have tail: "spends 0 (sbind pop_bool (\<lambda>v. if v then sret () else sthrow VerifyError))"
    by (auto intro!: spends_stacky stacky_rules)
  show ?thesis
  proof (cases rule: sbind_cases [of "op_check_multisig cr" s ?f])
    case (Err e s1)
    with u show ?thesis by (simp add: op_check_multisig_verify_def)
  next
    case (Ok a s1)
    with u have "used s s1 n" by simp
    moreover have "used s1 (snd (?f a s1)) 0" using tail by (simp add: spends_def)
    ultimately show ?thesis using Ok(2) used_trans [of s s1 n _ 0] by (simp add: op_check_multisig_verify_def)
  qed
qed

text \<open>The cost of an opcode after \<open>prev\<close>, as the static analysis counts it.\<close>

definition static_cost :: "opcode option \<Rightarrow> opcode \<Rightarrow> nat option" where
  "static_cost prev op =
     (if single_check op then Some 1
      else if multi_check op then
        (case prev of None \<Rightarrow> Some 20
         | Some p \<Rightarrow> if OpTrue \<le> op_value p \<and> op_value p \<le> Op16 then map_option unat (to_small_int p) else Some 20)
      else Some 0)"

lemma count_sig_ops_cost:
  "count_sig_ops prev (Inr op # ops) n =
     (case static_cost prev op of None \<Rightarrow> None | Some k \<Rightarrow> count_sig_ops (Some op) ops (n + word_of_nat k))"
  by (auto simp: static_cost_def single_check_def multi_check_def split: option.split)

text \<open>What a preceding small-integer opcode has left on the stack.\<close>

definition after_prev :: "opcode option \<Rightarrow> vm \<Rightarrow> bool" where
  "after_prev prev s \<longleftrightarrow>
     (is_executing s \<longrightarrow>
       (\<forall>p. prev = Some p \<longrightarrow> OpTrue \<le> op_value p \<and> op_value p \<le> Op16 \<longrightarrow>
          (\<exists>st. dstack s = st @ [[op_value p - 0x50]])))"

text \<open>An opcode that is not a signature check consumes nothing.\<close>

lemma spends_step_free:
  assumes "\<not> checks_signature op" shows "spends 0 (script_step cr only (Inr op))"
  unfolding script_step_Inr execute_opcode_def
  by (intro spends_stacky stacky_rules stacky_charge stacky_stack_size stacky_opcode_execute assms)
     (simp_all add: check_minimal_no_panic)

text \<open>The step of a signature check: charged, then executed when the branch is active.\<close>

definition charged :: "vm \<Rightarrow> vm" where
  "charged s = s\<lparr>num_ops := num_ops s + 1\<rparr>"

lemma step_signature_used:
  assumes sig: "checks_signature op"
    and ex: "is_executing s \<Longrightarrow> used (charged s) (snd (opcode_execute cr op (charged s))) n"
  shows "used s (snd (script_step cr only (Inr op) s)) n"
proof -
  have props: "\<not> is_push_opcode op" "\<not> is_conditional op" "\<not> op_value op \<le> 0x4e"
    using sig by (auto simp: checks_signature_def is_push_opcode_def is_conditional_def op_consts)
  have c: "vm_counter (charged s) = vm_counter s" "is_executing (charged s) = is_executing s"
    by (simp_all add: charged_def is_executing_def)
  have charge: "charge_opcode op s = (Inl (TooManyOperations MAX_OPS_PER_SCRIPT), charged s) \<or>
      charge_opcode op s = (Inr (), charged s)"
    using props by (auto simp: charge_opcode_def charged_def Let_def)
  have exec: "used s (snd (execute_opcode cr op s)) n"
    using charge
  proof
    assume "charge_opcode op s = (Inl (TooManyOperations MAX_OPS_PER_SCRIPT), charged s)"
    then show ?thesis using used_cong [OF c(1), of s n] by (simp add: execute_opcode_def sbind_def)
  next
    assume ch: "charge_opcode op s = (Inr (), charged s)"
    show ?thesis
    proof (cases "is_executing s")
      case True
      have "execute_opcode cr op s = opcode_execute cr op (charged s)"
        using ch True props c by (auto simp: execute_opcode_def sbind_def sget_def slift_def)
      moreover have "used s (charged s) 0" using used_cong [OF c(1), of s 0] by simp
      ultimately show ?thesis using used_trans [of s "charged s" 0 _ n] ex [OF True] by simp
    next
      case False
      then have "execute_opcode cr op s = (Inr (), charged s)"
        using ch props c by (simp add: execute_opcode_def sbind_def sget_def sret_def)
      then show ?thesis using used_cong [OF c(1), of s n] by simp
    qed
  qed
  have after: "used s (snd (sbind (execute_opcode cr op) (\<lambda>_. check_stack_size) s)) n"
  proof (cases rule: sbind_cases [of "execute_opcode cr op" s "\<lambda>_. check_stack_size"])
    case (Err e s1)
    with exec show ?thesis by simp
  next
    case (Ok a s1)
    have "used s1 (snd (check_stack_size s1)) 0" using spends_stacky [OF stacky_stack_size] by (simp add: spends_def)
    with exec Ok show ?thesis using used_trans [of s s1 n _ 0] by simp
  qed
  then show ?thesis by (simp add: script_step_def sbind_def slift_def sthrow_def)
qed

lemma step_used:
  assumes ctx: "after_prev prev s" and cost: "static_cost prev op = Some k"
  shows "used s (snd (script_step cr only (Inr op) s)) k"
proof (cases "checks_signature op")
  case False
  then have "spends 0 (script_step cr only (Inr op))" by (rule spends_step_free)
  then show ?thesis by (auto simp: spends_def intro: used_mono)
next
  case True
  show ?thesis
  proof (cases "single_check op")
    case sc: True
    with cost have "k = 1" by (simp add: static_cost_def)
    then show ?thesis using opcode_execute_single [OF sc] by (intro step_signature_used [OF True]) (simp add: spends_def)
  next
    case False
    with True have mc: "multi_check op" by (simp add: checks_signature_iff)
    show ?thesis
    proof (rule step_signature_used [OF True])
      assume ex: "is_executing s"
      have "used (charged s) (snd (op_check_multisig cr (charged s))) k"
      proof (cases "\<exists>p. prev = Some p \<and> OpTrue \<le> op_value p \<and> op_value p \<le> Op16")
        case True
        then obtain p where p: "prev = Some p" "OpTrue \<le> op_value p" "op_value p \<le> Op16" by blast
        then obtain st where st: "dstack s = st @ [[op_value p - 0x50]]" using ctx ex by (auto simp: after_prev_def)
        have k: "k = nat (uint (op_value p) - 0x50)"
          using cost p False mc small_int_range [OF p(2,3)]
          by (auto simp: static_cost_def to_small_int_def Let_def split: if_splits)
        show ?thesis unfolding k
          by (rule multisig_used [of _ st "[op_value p - 0x50]"]) (simp_all add: charged_def st small_int_codec(2) [OF p(2,3)])
      next
        case False
        with cost mc \<open>\<not> single_check op\<close> have "k = 20" by (auto simp: static_cost_def split: option.splits if_splits)
        then show ?thesis using spends_multisig [of cr] by (simp add: spends_def)
      qed
      then show "used (charged s) (snd (opcode_execute cr op (charged s))) k"
        using opcode_execute_multi [OF mc, of cr] multi_verify_used by auto
    qed
  qed
qed

text \<open>A small-integer opcode that was executed has left its number on the stack.\<close>

lemma step_small_int:
  assumes op: "OpTrue \<le> op_value op" "op_value op \<le> Op16"
    and step: "script_step cr only (Inr op) s = (Inr (), s')"
  shows "cond_stack s' = cond_stack s"
    and "is_executing s \<Longrightarrow> dstack s' = dstack s @ [[op_value op - 0x50]]"
proof -
  have v: "op_value op \<noteq> OpFalse" "\<not> op_value op \<le> OpPushData4" "op_value op \<noteq> Op1Negate"
    "is_push_opcode op" "\<not> is_conditional op" "\<not> op_value op \<le> 0x4e"
    using small_int_range [OF op] by (auto simp: is_push_opcode_def is_conditional_def op_consts)
  have x: "opcode_execute cr op = op_small_int op" using v op by (simp add: opcode_execute_def Let_def)
  obtain s1 where s1: "execute_opcode cr op s = (Inr (), s1)" "check_stack_size s1 = (Inr (), s')"
    using step by (auto simp: script_step_Inr sthrow_def split: if_splits elim: sbind_InrE)
  have same: "s' = s1" using s1(2) by (auto simp: check_stack_size_def Let_def split: if_splits)
  have charge: "charge_opcode op s = (Inr (), s)"
    using s1(1) v(4) by (auto simp: execute_opcode_def charge_opcode_def sbind_def split: if_splits)
  have push: "op_small_int op s = (Inr (), s\<lparr>dstack := dstack s @ [[op_value op - 0x50]]\<rparr>)"
    by (simp add: op_small_int_def push_number_def on_dstack_def push_item_def small_int_codec [OF op])
  have "execute_opcode cr op s =
      (if is_executing s then (Inr (), s\<lparr>dstack := dstack s @ [[op_value op - 0x50]]\<rparr>) else (Inr (), s))"
    using charge v push x by (auto simp: execute_opcode_def sbind_def sget_def slift_def sret_def)
  with s1(1) same show "cond_stack s' = cond_stack s"
    "is_executing s \<Longrightarrow> dstack s' = dstack s @ [[op_value op - 0x50]]"
    by (auto split: if_splits)
qed

lemma step_after_prev:
  assumes "script_step cr only (Inr op) s = (Inr (), s')" shows "after_prev (Some op) s'"
  unfolding after_prev_def
proof (intro impI allI)
  fix p assume ex: "is_executing s'" and p: "Some op = Some p" and r: "OpTrue \<le> op_value p \<and> op_value p \<le> Op16"
  with step_small_int [OF _ _ assms] have "cond_stack s' = cond_stack s" by auto
  with ex have "is_executing s" by (simp add: is_executing_def)
  with step_small_int(2) [OF _ _ assms] p r show "\<exists>st. dstack s' = st @ [[op_value p - 0x50]]" by auto
qed

section \<open>Scripts\<close>

lemma static_cost_le: "static_cost prev op = Some k \<Longrightarrow> k \<le> 20"
proof -
  assume c: "static_cost prev op = Some k"
  have "unat v \<le> 20" if "to_small_int p = Some v" for p v
    using that small_int_range [of "op_value p", OF _ less_imp_le]
    by (auto simp: to_small_int_def Let_def split: if_splits)
  with c show ?thesis by (auto simp: static_cost_def split: if_splits option.splits)
qed

lemma run_opcodes_used:
  "after_prev prev s \<Longrightarrow> count_sig_ops prev ops n = Some m \<Longrightarrow> unat n + 20 * length ops < 2 ^ 64 \<Longrightarrow>
   unat n \<le> unat m \<and> used s (snd (run_opcodes cr only ops s)) (unat m - unat n)"
proof (induction ops arbitrary: prev s n)
  case Nil
  then show ?case by (simp add: sret_def)
next
  case (Cons r ops)
  show ?case
  proof (cases r)
    case (Inl e)
    with Cons.prems show ?thesis by (simp add: script_step_def sbind_def slift_def)
  next
    case (Inr op)
    with Cons.prems(2) obtain k where k: "static_cost prev op = Some k"
      and m: "count_sig_ops (Some op) ops (n + word_of_nat k) = Some m"
      unfolding Inr count_sig_ops_cost by (auto split: option.splits)
    have k20: "k \<le> 20" using static_cost_le [OF k] .
    have nk: "unat (n + word_of_nat k) = unat n + k"
    proof -
      have "unat (word_of_nat k :: u64) = k" using k20 by (simp add: unsigned_of_nat take_bit_nat_eq_self)
      then show ?thesis using Cons.prems(3) k20 by (subst unat_add64) simp_all
    qed
    note u = step_used [OF Cons.prems(1) k, of cr only]
    show ?thesis
    proof (cases rule: sbind_cases [of "script_step cr only (Inr op)" s "\<lambda>_. run_opcodes cr only ops"])
      case (Err e s1)
      have "unat n + k \<le> unat m"
        using Cons.IH [of "Some op" "s\<lparr>cond_stack := [CondSkip]\<rparr>" "n + word_of_nat k"] m Cons.prems(3) k20 nk
        by (simp add: after_prev_def is_executing_def)
      with u Err Inr show ?thesis by (auto intro: used_mono)
    next
      case (Ok a s1)
      have "after_prev (Some op) s1" using Ok(1) step_after_prev by simp
      with Cons.IH [of "Some op" s1 "n + word_of_nat k"] m Cons.prems(3) k20 nk
      have ih: "unat n + k \<le> unat m" "used s1 (snd (run_opcodes cr only ops s1)) (unat m - (unat n + k))" by auto
      have "used s s1 k" using u Ok(1) by simp
      from used_trans [OF this ih(2)] ih(1) Ok(2) Inr show ?thesis by simp
    qed
  qed
qed

lemma parse_script_length: "length (parse_script script) \<le> length script"
proof (induction script rule: parse_script.induct)
  case (1 it)
  show ?case
  proof (cases it)
    case (Cons c it')
    have "length (parse_script (snd (opcode_deserialize c it'))) \<le> length (snd (opcode_deserialize c it'))"
      using 1 [of "opcode_deserialize c it'" "fst (opcode_deserialize c it')" "snd (opcode_deserialize c it')"] Cons
      by (simp add: deserialize_next_opcode_def)
    with opcode_deserialize_rest [of c it'] Cons show ?thesis by (simp add: parse_script_Cons)
  qed simp
qed

lemma used_reset: "used s (s1\<lparr>astack := [], num_ops := 0\<rparr>) n = used s s1 n"
  by (rule used_cong) simp

lemma execute_script_state:
  "used s (snd (execute_script cr script only s)) n = used s (snd (run_opcodes cr only (parse_script script) s)) n"
  by (simp add: execute_script_def used_reset split: prod.split sum.split)

lemma execute_script_used:
  assumes "get_sig_op_count_by_opcodes (parse_script script) = Some m" "length script \<le> 2 ^ 58"
  shows "used s (snd (execute_script cr script only s)) (unat m)"
proof -
  have "after_prev None s" by (simp add: after_prev_def)
  moreover have "unat (0 :: u64) + 20 * length (parse_script script) < 2 ^ 64"
    using assms(2) parse_script_length [of script] by simp
  ultimately show ?thesis
    using run_opcodes_used [of None s "parse_script script" 0 m cr only] assms(1)
    by (simp add: execute_script_state get_sig_op_count_by_opcodes_def)
qed

text \<open>A push-only script consumes nothing.\<close>

lemma spends_push_only: "spends 0 (run_opcodes cr True rs)"
proof (induction rs)
  case Nil
  then show ?case by (simp add: spends_def sret_def)
next
  case (Cons r rs)
  have "spends 0 (script_step cr True r)"
  proof (cases r)
    case (Inl e)
    then show ?thesis by (simp add: spends_def script_step_def sbind_def slift_def)
  next
    case (Inr op)
    show ?thesis
    proof (cases "is_push_opcode op")
      case True
      then have "\<not> checks_signature op"
        by (auto simp: is_push_opcode_def checks_signature_def op_consts)
      then show ?thesis unfolding Inr by (rule spends_step_free)
    next
      case False
      then show ?thesis by (auto simp: Inr script_step_Inr intro: spends_throw)
    qed
  qed
  from spends_bind [OF this Cons] show ?case by simp
qed

lemma spends_signature_script: "spends 0 (execute_script cr script True)"
  using spends_push_only [of cr "parse_script script"] by (simp add: spends_def execute_script_state)

section \<open>A whole input\<close>

lemma used_bindI:
  assumes "used s (snd (m s)) a" "\<And>x s1. m s = (Inr x, s1) \<Longrightarrow> used s1 (snd (f x s1)) b"
  shows "used s (snd (sbind m f s)) (a + b)"
proof (cases rule: sbind_cases [of m s f])
  case (Err e s1)
  then show ?thesis using assms(1) by (auto intro: used_mono)
next
  case (Ok x s1)
  then show ?thesis using assms(1) assms(2) [OF Ok(1)] used_trans by auto
qed

lemma used_stackyI: "stacky m \<Longrightarrow> used s (snd (m s)) n"
  using spends_stacky [of m n] by (simp add: spends_def)

text \<open>A pushed element has at most as many signature checks as the data of its opcode.\<close>

lemma count_small:
  "get_sig_op_count_by_opcodes (parse_script [0x81]) = Some 0"
  "OpTrue \<le> (c :: u8) \<Longrightarrow> c \<le> Op16 \<Longrightarrow> get_sig_op_count_by_opcodes (parse_script [c - 0x50]) = Some 0"
proof -
  show "get_sig_op_count_by_opcodes (parse_script [0x81]) = Some 0" by code_simp
  assume "OpTrue \<le> c" "c \<le> Op16"
  from small_int_range [OF this] show "get_sig_op_count_by_opcodes (parse_script [c - 0x50]) = Some 0"
    by (elim insertE emptyE; simp only:; code_simp)
qed

lemma pushed_count:
  assumes "is_push_opcode op" "op_value op \<noteq> 0x50" "get_sig_op_count_by_opcodes (parse_script (op_data op)) = Some m"
  obtains m' where "get_sig_op_count_by_opcodes (parse_script (pushed op)) = Some m'" "unat m' \<le> unat m"
proof -
  consider "op_value op = OpFalse" | "op_value op \<noteq> OpFalse" "op_value op \<le> OpPushData4" | "op_value op = Op1Negate"
    | "op_value op \<noteq> OpFalse" "\<not> op_value op \<le> OpPushData4" "op_value op \<noteq> Op1Negate" by blast
  then show thesis
  proof cases
    case 1
    then show thesis using that [of 0] by (simp add: pushed_def get_sig_op_count_by_opcodes_def)
  next
    case 2
    then show thesis using that assms(3) by (simp add: pushed_def)
  next
    case 3
    then show thesis using that [of 0] count_small(1) by (simp add: pushed_def)
  next
    case 4
    with push_opcode_range [OF assms(1) 4 assms(2)] show thesis
      using that [of 0] count_small(2) [of "op_value op"] by (simp add: pushed_def)
  qed
qed

lemma count_p2sh:
  assumes "is_pay_to_script_hash script" shows "get_sig_op_count_by_opcodes (parse_script script) = Some 0"
proof -
  obtain h where h: "length h = 32" "script = [OpBlake2b, OpData32] @ h @ [OpEqual]"
    using assms by (auto simp: is_pay_to_script_hash_iff pay_to_script_hash_def split: if_splits)
  let ?ops = "[OpCode OpBlake2b [], OpCode OpData32 h, OpCode OpEqual []]"
  have wf: "list_all wf_opcode ?ops" using h by (simp add: wf_opcode_def opcode_length_def)
  have ser: "concat (map opcode_serialize ?ops) = script"
    using h by (simp add: opcode_serialize_def opcode_length_def)
  have "parse_script script = map Inr ?ops" using parse_script_serialize [OF wf] unfolding ser .
  then show ?thesis by (simp add: get_sig_op_count_by_opcodes_def)
qed

lemma run_scripts_pair:
  "filter (\<lambda>(_, s). s \<noteq> []) (enumerate 0 [a, b]) =
     (if a = [] then [] else [(0, a)]) @ (if b = [] then [] else [(1, b)])"
  by simp

text \<open>Without P2SH: the signature script is free, the public-key script is bounded.\<close>

lemma execute_plain_used:
  assumes "get_sig_op_count_by_opcodes (parse_script spk) = Some n"
  shows "used s (snd (execute_scripts cr True False [sig, spk] s)) (unat n)"
proof (cases "length spk > MAX_SCRIPTS_SIZE")
  case True
  then show ?thesis by (auto simp: execute_scripts_def sthrow_def split: option.split)
next
  case False
  then have spk: "used t (snd (execute_script cr spk False t)) (unat n)" for t
    by (intro execute_script_used [OF assms]) (simp add: MAX_SCRIPTS_SIZE_def)
  have sig: "used t (snd (execute_script cr sig True t)) 0" for t
    using spends_signature_script by (simp add: spends_def)
  let ?scripts = "filter (\<lambda>(_, s). s \<noteq> []) (enumerate 0 [sig, spk])"
  have second: "used t (snd (run_scripts cr True False (if spk = [] then [] else [(1, spk)]) v t)) (unat n)" for t v
    using used_bindI [of t "execute_script cr spk False" "unat n" "\<lambda>_. sret v" 0, OF spk]
    by (simp add: sret_def sbind_def sget_def)
  have "used t (snd (run_scripts cr True False ?scripts None t)) (0 + unat n)" for t
  proof (cases "sig = []")
    case True
    then show ?thesis using second [of t None] unfolding run_scripts_pair by (simp only: simp_thms if_True append_Nil add_0)
  next
    case False
    have "used t (snd (sbind (execute_script cr sig True)
        (\<lambda>_. run_scripts cr True False (if spk = [] then [] else [(1, spk)]) None) t)) (0 + unat n)"
      by (rule used_bindI [OF sig second])
    with False show ?thesis unfolding run_scripts_pair by (simp add: sbind_def sget_def)
  qed
  then have run: "used t (snd (run_scripts cr True False ?scripts None t)) (unat n)" for t by simp
  have "used s (snd (sbind (run_scripts cr True False ?scripts None)
      (\<lambda>saved. sbind (sret ()) (\<lambda>_. check_error_condition True)) s)) (unat n + 0)"
    by (rule used_bindI [OF run]) (intro used_stackyI stacky_rules stacky_error_condition)
  then show ?thesis by (simp add: execute_scripts_def sthrow_def del: enumerate_simps filter.simps split: option.split)
qed

text \<open>With P2SH: the redeem script is the last element that the signature script pushed.\<close>

lemma execute_p2sh_used:
  assumes "\<And>t. used t (snd (execute_script cr script False t)) n"
  shows "used s (snd (execute_p2sh cr (Some (st @ [script])) s)) n"
proof -
  have pop: "pop_script t = (Inr script, t\<lparr>dstack := st\<rparr>)" if "dstack t = st @ [script]" for t
    using that by (simp add: pop_script_def)
  have "used t (snd (sbind (smod (\<lambda>s. s\<lparr>dstack := st @ [script]\<rparr>)) (\<lambda>_. sbind pop_script (\<lambda>script. execute_script cr script False)) t)) (0 + n)" for t
  proof (rule used_bindI)
    show "used t (snd (smod (\<lambda>s. s\<lparr>dstack := st @ [script]\<rparr>) t)) 0" by (simp add: smod_def used_def remaining_def)
    fix x s1 assume "smod (\<lambda>s. s\<lparr>dstack := st @ [script]\<rparr>) t = (Inr x, s1)"
    then have d: "dstack s1 = st @ [script]" by (auto simp: smod_def)
    have "used s1 (s1\<lparr>dstack := st\<rparr>) 0" by (simp add: used_def remaining_def)
    from used_trans [OF this assms] show "used s1 (snd (sbind pop_script (\<lambda>script. execute_script cr script False) s1)) n"
      by (simp add: sbind_def pop [OF d])
  qed
  then have inner: "used t (snd (sbind (smod (\<lambda>s. s\<lparr>dstack := st @ [script]\<rparr>)) (\<lambda>_. sbind pop_script (\<lambda>script. execute_script cr script False)) t)) n" for t
    by simp
  have "used s (snd (sbind (check_error_condition False) (\<lambda>_. sbind (smod (\<lambda>s. s\<lparr>dstack := st @ [script]\<rparr>))
      (\<lambda>_. sbind pop_script (\<lambda>script. execute_script cr script False))) s)) (0 + n)"
    by (rule used_bindI [OF used_stackyI [OF stacky_error_condition] inner])
  then show ?thesis by (simp add: execute_p2sh_def sbind_def slift_def)
qed

lemma execute_p2sh_free: "saved = None \<or> saved = Some [] \<Longrightarrow> used s (snd (execute_p2sh cr saved s)) n"
proof -
  assume "saved = None \<or> saved = Some []"
  then have "used t (snd (sbind (slift (ok_or EmptyStack saved)) (\<lambda>st. sbind (smod (\<lambda>s. s\<lparr>dstack := st\<rparr>)) (\<lambda>_.
      sbind pop_script (\<lambda>script. execute_script cr script False))) t)) n" for t
    by (auto simp: sbind_def slift_def smod_def pop_script_def used_def remaining_def)
  then have "used s (snd (execute_p2sh cr saved s)) (0 + n)"
    unfolding execute_p2sh_def using used_stackyI [OF stacky_error_condition]
    by (intro used_bindI) assumption+
  then show ?thesis by simp
qed

text \<open>The stack that \<open>execute\<close> saves, and the consumption up to there.\<close>

lemma run_scripts_p2sh:
  assumes spk: "is_pay_to_script_hash spk" and start: "dstack s = []" "cond_stack s = []"
    and len: "length spk \<le> MAX_SCRIPTS_SIZE"
  shows "used s (snd (run_scripts cr True True (filter (\<lambda>(_, s). s \<noteq> []) (enumerate 0 [sig, spk])) None s)) 0"
    and "run_scripts cr True True (filter (\<lambda>(_, s). s \<noteq> []) (enumerate 0 [sig, spk])) None s = (Inr saved, s') \<Longrightarrow>
      \<exists>ops. parse_script sig = map Inr ops \<and> saved = Some (map pushed ops) \<and>
        list_all (\<lambda>op. is_push_opcode op \<and> op_value op \<noteq> 0x50 \<and> length (op_data op) \<le> MAX_SCRIPT_ELEMENT_SIZE) ops"
proof -
  have ne: "spk \<noteq> []" using spk by (auto simp: is_pay_to_script_hash_def)
  have used_spk: "used t (snd (execute_script cr spk False t)) 0" for t
    using execute_script_used [OF count_p2sh [OF spk], of t cr False] len by (simp add: MAX_SCRIPTS_SIZE_def)
  let ?second = "\<lambda>v. run_scripts cr True True [(1, spk)] v"
  have second: "used t (snd (?second v t)) 0" for t v
    using used_bindI [of t "execute_script cr spk False" 0 "\<lambda>_. sret (Some (dstack t))" 0, OF used_spk]
    by (simp add: sret_def sbind_def sget_def)
  have saved2: "saved = Some (dstack t)" if "?second v t = (Inr saved, s')" for t v saved s'
    using that by (auto simp: sbind_def sget_def sret_def split: prod.splits sum.splits)
  have list: "filter (\<lambda>(_, s). s \<noteq> []) (enumerate 0 [sig, spk]) = (if sig = [] then [] else [(0, sig)]) @ [(1, spk)]"
    using ne by simp
  have free: "used t (snd (execute_script cr sig True t)) 0" for t
    using spends_signature_script by (simp add: spends_def)
  have split: "run_scripts cr True True ((0, sig) # [(1, spk)]) None s = sbind (execute_script cr sig True) (\<lambda>_. ?second None) s"
    by (simp add: sbind_def sget_def)
  show "used s (snd (run_scripts cr True True (filter (\<lambda>(_, s). s \<noteq> []) (enumerate 0 [sig, spk])) None s)) 0"
    using second used_bindI [of s "execute_script cr sig True" 0 "\<lambda>_. ?second None" 0, OF free second]
    unfolding list by (cases "sig = []") (simp_all only: simp_thms if_True if_False append_Nil append_Cons split add_0)
  assume run: "run_scripts cr True True (filter (\<lambda>(_, s). s \<noteq> []) (enumerate 0 [sig, spk])) None s = (Inr saved, s')"
  show "\<exists>ops. parse_script sig = map Inr ops \<and> saved = Some (map pushed ops) \<and>
        list_all (\<lambda>op. is_push_opcode op \<and> op_value op \<noteq> 0x50 \<and> length (op_data op) \<le> MAX_SCRIPT_ELEMENT_SIZE) ops"
  proof (cases "sig = []")
    case True
    then have "saved = Some []" using run saved2 [of None s saved s'] start unfolding list by simp
    with True show ?thesis by (intro exI [of _ "[]"]) simp
  next
    case False
    then have "sbind (execute_script cr sig True) (\<lambda>_. ?second None) s = (Inr saved, s')"
      using run split unfolding list by (simp only: if_False append_Nil append_Cons)
    then obtain s1 where s1: "execute_script cr sig True s = (Inr (), s1)" "?second None s1 = (Inr saved, s')"
      by (auto elim: sbind_InrE)
    obtain ops where ops: "parse_script sig = map Inr ops"
      "list_all (\<lambda>op. is_push_opcode op \<and> op_value op \<noteq> 0x50 \<and> length (op_data op) \<le> MAX_SCRIPT_ELEMENT_SIZE) ops"
      "s1 = s\<lparr>dstack := dstack s @ map pushed ops, astack := [], num_ops := 0\<rparr>"
      using start(2) s1(1) by (rule execute_push_only)
    from saved2 [OF s1(2)] ops(3) start(1) have "saved = Some (map pushed ops)" by simp
    with ops show ?thesis by blast
  qed
qed

lemma execute_with_p2sh_used:
  assumes spk: "is_pay_to_script_hash spk" and start: "dstack s = []" "cond_stack s = []"
    and bound: "get_sig_op_count_upper_bound sig \<lparr> spk_version = v, spk_script = spk \<rparr> = Some n"
  shows "used s (snd (execute_scripts cr True True [sig, spk] s)) (unat n)"
proof -
  have len: "length spk \<le> MAX_SCRIPTS_SIZE" using spk by (simp add: is_pay_to_script_hash_def MAX_SCRIPTS_SIZE_def)
  let ?scripts = "filter (\<lambda>(_, s). s \<noteq> []) (enumerate 0 [sig, spk])"
  let ?tail = "\<lambda>saved. sbind (execute_p2sh cr saved) (\<lambda>_. check_error_condition True)"
  have "used s (snd (sbind (run_scripts cr True True ?scripts None) ?tail s)) (0 + unat n)"
  proof (rule used_bindI)
    show "used s (snd (run_scripts cr True True ?scripts None s)) 0" by (rule run_scripts_p2sh(1) [OF spk start len])
    fix saved s1 assume "run_scripts cr True True ?scripts None s = (Inr saved, s1)"
    from run_scripts_p2sh(2) [OF spk start len this] obtain ops where ops: "parse_script sig = map Inr ops"
      "saved = Some (map pushed ops)"
      "list_all (\<lambda>op. is_push_opcode op \<and> op_value op \<noteq> 0x50 \<and> length (op_data op) \<le> MAX_SCRIPT_ELEMENT_SIZE) ops"
      by blast
    have "used s1 (snd (execute_p2sh cr saved s1)) (unat n)"
    proof (cases ops rule: rev_cases)
      case Nil
      with ops(2) show ?thesis by (intro execute_p2sh_free) simp
    next
      case (snoc init op)
      have "list_all (\<lambda>r. case r of Inl _ \<Rightarrow> False | Inr op \<Rightarrow> is_push_opcode op) (map Inr ops :: (tx_script_error, opcode) result list)"
        using ops(3) by (simp add: list_all_length)
      then have count: "get_sig_op_count_by_opcodes (parse_script (op_data op)) = Some n"
        using bound spk ops(1) snoc by (simp add: get_sig_op_count_upper_bound_def Let_def)
      have op: "is_push_opcode op" "op_value op \<noteq> 0x50" "length (op_data op) \<le> MAX_SCRIPT_ELEMENT_SIZE"
        using ops(3) snoc by simp_all
      obtain m where m: "get_sig_op_count_by_opcodes (parse_script (pushed op)) = Some m" "unat m \<le> unat n"
        using op(1,2) count by (rule pushed_count)
      have "used t (snd (execute_script cr (pushed op) False t)) (unat n)" for t
        using execute_script_used [OF m(1), of t cr False] m(2) pushed_small [OF op(1,3)]
        by (auto simp: MAX_SCRIPT_ELEMENT_SIZE_def intro: used_mono)
      then show ?thesis using execute_p2sh_used [of cr "pushed op" "unat n" s1 "map pushed init"] ops(2) snoc by simp
    qed
    then have "used s1 (snd (?tail saved s1)) (unat n + 0)"
      by (rule used_bindI [where m = "execute_p2sh cr saved" and s = s1]) (rule used_stackyI [OF stacky_error_condition])
    then show "used s1 (snd (?tail saved s1)) (unat n)" by simp
  qed
  then show ?thesis by (simp add: execute_scripts_def sthrow_def del: enumerate_simps filter.simps split: option.split)
qed

lemma execute_used:
  assumes "from_transaction_input ptx input idx entry rv cache = Some s"
    and "get_sig_op_count_upper_bound (signature_script input) (ru_script_public_key entry) = Some n"
  shows "used s (snd (execute cr s)) (unat n)"
proof -
  let ?spk = "spk_script (ru_script_public_key entry)"
  have s: "script_source s = TxInput ptx input idx entry (is_pay_to_script_hash ?spk)" "dstack s = []" "cond_stack s = []"
    using assms(1) by (auto simp: from_transaction_input_def split: if_splits)
  have eq: "\<lparr> spk_version = spk_version (ru_script_public_key entry), spk_script = ?spk \<rparr> = ru_script_public_key entry"
    by simp
  have "used s (snd (execute_scripts cr True (is_pay_to_script_hash ?spk) [signature_script input, ?spk] s)) (unat n)"
  proof (cases "is_pay_to_script_hash ?spk")
    case True
    with execute_with_p2sh_used [OF True s(2,3), of "signature_script input" "spk_version (ru_script_public_key entry)" n cr]
      assms(2) eq show ?thesis by simp
  next
    case False
    with execute_plain_used [of ?spk n] assms(2) show ?thesis
      by (simp add: get_sig_op_count_upper_bound_def Let_def)
  qed
  then show ?thesis using s(1) by (simp add: execute_def sbind_def sget_def sret_def)
qed

lemma used_sig_ops_bound:
  assumes "used s s' n" "vm_counter s = sig_op_counter_new limit"
  shows "unat (used_sig_ops (vm_counter s')) \<le> n"
proof -
  let ?l = "sig_op_limit (vm_counter s')" and ?r = "sig_op_remaining (vm_counter s')"
  have "unat ?r \<le> unat ?l" "unat ?l \<le> unat ?r + n" "?l = limit"
    using assms by (auto simp: used_def remaining_def sig_op_counter_new_def)
  then show ?thesis by (simp add: used_sig_ops_def unat_sub word_le_nat_alt)
qed

end
