(* ===== verification/Spendability.thy ===== *)
theory Spendability
  imports Push_Script
begin

text \<open>
  Which scripts can succeed: \<open>is_unspendable\<close> is sound, code in an inactive branch has no
  effect, and a script that checks a Dilithium signature over elements pushed by a signature
  script cannot succeed, because a pushed element is at most 520 bytes long and the check
  requires a blob of at least 1954 bytes.
\<close>

section \<open>Unspendable scripts\<close>

lemma sbind_fails: "(\<And>x. fst (m s) \<noteq> Inr x) \<Longrightarrow> fst (sbind m f s) \<noteq> Inr y"
  by (cases "m s"; cases "fst (m s)") (auto simp: sbind_def)

lemma run_opcodes_parse_error: "Inl e \<in> set rs \<Longrightarrow> fst (run_opcodes cr only rs s) \<noteq> Inr u"
proof (induction rs arbitrary: s)
  case (Cons r rs)
  show ?case
  proof (cases r)
    case (Inl e')
    then show ?thesis by (simp add: script_step_def sbind_def slift_def)
  next
    case (Inr op)
    with Cons.prems have "Inl e \<in> set rs" by auto
    with Cons.IH show ?thesis by (auto simp: sbind_def split: prod.split sum.split)
  qed
qed simp

lemma execute_script_Inl:
  "fst (run_opcodes cr only (parse_script script) s) \<noteq> Inr () \<Longrightarrow> fst (execute_script cr script only s) \<noteq> Inr ()"
  by (auto simp: execute_script_def split: prod.split sum.split)

lemma step_return:
  assumes "op_value op = OpReturn" "cond_stack s = []"
  shows "fst (script_step cr only (Inr op) s) \<noteq> Inr u"
proof -
  have x: "opcode_execute cr op = sthrow EarlyReturn"
    using assms(1) by (simp add: opcode_execute_def Let_def op_reserved_def is_disabled_def exec_control_def orelse_def)
  have "fst (execute_opcode cr op s) \<noteq> Inr v" for v
    using assms by (auto simp: execute_opcode_def x charge_opcode_def is_push_opcode_def op_consts sbind_def sget_def
        slift_def sthrow_def is_executing_def Let_def)
  then show ?thesis by (auto simp: script_step_Inr sthrow_def sbind_def split: prod.split sum.split)
qed

lemma is_unspendable_fails:
  assumes "is_unspendable script" "cond_stack s = []"
  shows "fst (execute_script cr script only s) \<noteq> Inr ()"
proof (rule execute_script_Inl)
  obtain r rs where p: "parse_script script = r # rs" using assms(1)
    by (cases "parse_script script") (auto simp: is_unspendable_def)
  show "fst (run_opcodes cr only (parse_script script) s) \<noteq> Inr ()"
  proof (cases "\<exists>e. Inl e \<in> set (parse_script script)")
    case True
    then show ?thesis using run_opcodes_parse_error by blast
  next
    case False
    then have "\<not> list_ex (\<lambda>r. case r of Inl _ \<Rightarrow> True | Inr _ \<Rightarrow> False) rs"
      by (auto simp: p list_ex_iff split: sum.splits)
    then obtain op where "r = Inr op" "op_value op = OpReturn"
      using assms(1) False p by (cases r) (auto simp: is_unspendable_def)
    then have "fst (script_step cr only r s) \<noteq> Inr u" for u using step_return [OF _ assms(2)] by simp
    then show ?thesis unfolding p run_opcodes.simps by (rule sbind_fails)
  qed
qed

section \<open>A failing public-key script\<close>

text \<open>
  If a public-key script fails in every state that a push-only signature script can leave,
  no transaction input can spend it.
\<close>

definition after_pushes :: "vm \<Rightarrow> vm \<Rightarrow> bool" where
  "after_pushes s t \<longleftrightarrow>
     (\<exists>elems. list_all (\<lambda>e. length e \<le> MAX_SCRIPT_ELEMENT_SIZE) elems \<and>
        dstack t = elems \<and> cond_stack t = [] \<and> script_source t = script_source s)"

lemma execute_script_pushes:
  assumes "dstack s = []" "cond_stack s = []" "execute_script cr script True s = (Inr u, t)"
  shows "after_pushes s t"
proof -
  obtain ops where ops: "parse_script script = map Inr ops"
    "list_all (\<lambda>op. is_push_opcode op \<and> op_value op \<noteq> 0x50 \<and> length (op_data op) \<le> MAX_SCRIPT_ELEMENT_SIZE) ops"
    "t = s\<lparr>dstack := dstack s @ map pushed ops, astack := [], num_ops := 0\<rparr>"
    using assms(2,3) by (rule execute_push_only)
  have "list_all (\<lambda>e. length e \<le> MAX_SCRIPT_ELEMENT_SIZE) (map pushed ops)"
    using ops(2) pushed_small by (auto simp: list_all_iff)
  with ops(3) assms(1,2) show ?thesis by (auto simp: after_pushes_def)
qed

lemma execute_fails:
  assumes s: "from_transaction_input ptx input idx entry rv cache = Some s"
    and ver: "spk_version (ru_script_public_key entry) = 0"
    and ne: "spk_script (ru_script_public_key entry) \<noteq> []"
    and fails: "\<And>t. after_pushes s t \<Longrightarrow> fst (execute_script cr (spk_script (ru_script_public_key entry)) False t) \<noteq> Inr ()"
  shows "\<exists>e. fst (execute cr s) = Inl e"
proof -
  let ?sig = "signature_script input" and ?spk = "spk_script (ru_script_public_key entry)"
  let ?b = "is_pay_to_script_hash ?spk"
  have st: "script_source s = TxInput ptx input idx entry ?b" "dstack s = []" "cond_stack s = []"
    using s by (auto simp: from_transaction_input_def split: if_splits)
  let ?scripts = "filter (\<lambda>(_, s). s \<noteq> []) (enumerate 0 [?sig, ?spk])"
  have here: "after_pushes s s" using st by (auto simp: after_pushes_def)
  have second: "fst (run_scripts cr True b [(1, ?spk)] v t) \<noteq> Inr x" if "after_pushes s t" for t b v x
    using fails [OF that] by (auto simp: sbind_def sget_def split: prod.split sum.split)
  have run: "fst (run_scripts cr True b ?scripts None s) \<noteq> Inr x" for b x
  proof (cases "?sig = []")
    case True
    then have "?scripts = [(1, ?spk)]" using ne by simp
    then show ?thesis using second [OF here] by simp
  next
    case False
    then have l: "?scripts = (0, ?sig) # [(1, ?spk)]" using ne by simp
    show ?thesis
    proof (cases "execute_script cr ?sig True s")
      case (Pair r t)
      show ?thesis
      proof (cases r)
        case (Inl e)
        with Pair l show ?thesis by (simp add: sbind_def sget_def)
      next
        case (Inr u)
        from execute_script_pushes [OF st(2,3) Pair [unfolded Inr]] have "after_pushes s t" .
        from second [OF this] Pair Inr l show ?thesis by (simp add: sbind_def sget_def)
      qed
    qed
  qed
  have "fst (sbind (run_scripts cr True ?b ?scripts None) f s) \<noteq> Inr x"
    for f :: "stack option \<Rightarrow> unit vm_op" and x by (rule sbind_fails) (rule run)
  then have "fst (execute_scripts cr True ?b [?sig, ?spk] s) \<noteq> Inr x" for x
    by (simp add: execute_scripts_def sthrow_def del: enumerate_simps filter.simps split: option.split)
  then show ?thesis using st(1) ver
    by (cases "fst (execute_scripts cr True ?b [?sig, ?spk] s)")
       (auto simp: execute_def sbind_def sget_def MAX_SCRIPT_PUBLIC_KEY_VERSION_def)
qed

section \<open>Signature checks on short elements\<close>

lemma check_fails:
  assumes "length pk_hash \<noteq> 20 \<or> length sig_blob < 1954"
  shows "fst (check_dilithium_signature cr pk_hash sig_blob s) \<noteq> Inr u"
  using assms
  by (auto simp: check_dilithium_signature_def sbind_def sget_def sthrow_def consume_sig_op_def
      split: prod.split sum.split script_source.split option.split)

text \<open>A script that pushes a key and checks a signature: \<open><key> OpCheckSig\<close>.\<close>

lemma key_check_parse:
  assumes "0 < length key" "length key \<le> 75" "c \<in> {OpCheckSig, OpCheckSigECDSA}"
  shows "parse_script (word_of_nat (length key) # key @ [c]) =
    [Inr (OpCode (word_of_nat (length key)) key), Inr (OpCode c [])]"
proof -
  let ?ops = "[OpCode (word_of_nat (length key)) key, OpCode c []]"
  have u: "unat (word_of_nat (length key) :: u8) = length key"
    using assms(2) by (simp add: unsigned_of_nat take_bit_nat_eq_self)
  have r: "OpData1 \<le> (word_of_nat (length key) :: u8)" "(word_of_nat (length key) :: u8) \<le> OpData75"
    using assms(1,2) by (simp_all add: word_le_nat_alt u Suc_le_eq)
  then have l: "opcode_length (word_of_nat (length key)) = Fixed (length key + 1)"
    using assms(2) u by (auto simp: opcode_length_def word_le_nat_alt word_unat_eq_iff)
  have "opcode_length c = Fixed 1" using assms(3) by (auto simp: opcode_length_def)
  then have wf: "list_all wf_opcode ?ops" and ser: "concat (map opcode_serialize ?ops) = word_of_nat (length key) # key @ [c]"
    using l by (simp_all add: wf_opcode_def opcode_serialize_def)
  show ?thesis using parse_script_serialize [OF wf] unfolding ser by simp
qed

lemma check_sig_fails:
  assumes "dstack s = elems @ [key]" "list_all (\<lambda>e. length e \<le> MAX_SCRIPT_ELEMENT_SIZE) elems"
  shows "fst (op_check_sig cr s) \<noteq> Inr u" "fst (op_check_sig_ecdsa cr s) \<noteq> Inr u"
proof -
  have "fst (sbind (pop_raws 2) (\<lambda>v. sbind (check_dilithium_signature cr (v ! 1) (v ! 0)) push_bool) s) \<noteq> Inr u"
  proof (cases elems rule: rev_cases)
    case Nil
    with assms(1) show ?thesis by (simp add: pop_raws_def on_dstack_def pop_raw_def sbind_def)
  next
    case (snoc rest blob)
    have pop: "pop_raws 2 s = (Inr [blob, key], s\<lparr>dstack := rest\<rparr>)"
      using assms(1) snoc pop_raw_append [of "[blob, key]" 2 rest] by (simp add: pop_raws_def on_dstack_def)
    have "length blob < 1954" using assms(2) snoc by (simp add: MAX_SCRIPT_ELEMENT_SIZE_def)
    then have "fst (check_dilithium_signature cr key blob (s\<lparr>dstack := rest\<rparr>)) \<noteq> Inr v" for v
      by (intro check_fails) simp
    from sbind_fails [where m = "check_dilithium_signature cr key blob" and s = "s\<lparr>dstack := rest\<rparr>" and f = push_bool, OF this]
    show ?thesis by (subst sbind_def) (simp add: pop)
  qed
  then show "fst (op_check_sig cr s) \<noteq> Inr u" "fst (op_check_sig_ecdsa cr s) \<noteq> Inr u"
    by (simp_all add: op_check_sig_def op_check_sig_ecdsa_def)
qed

lemma step_check_sig_fails:
  assumes "c \<in> {OpCheckSig, OpCheckSigECDSA}" "cond_stack s = []"
    "dstack s = elems @ [key]" "list_all (\<lambda>e. length e \<le> MAX_SCRIPT_ELEMENT_SIZE) elems"
  shows "fst (script_step cr only (Inr (OpCode c [])) s) \<noteq> Inr u"
proof -
  let ?op = "OpCode c []"
  have x: "opcode_execute cr ?op \<in> {op_check_sig cr, op_check_sig_ecdsa cr}"
    using assms(1) opcode_execute_signature(1) [of ?op cr] by (auto simp: checks_signature_def exec_crypto_def)
  have f: "fst (opcode_execute cr ?op (s\<lparr>num_ops := n\<rparr>)) \<noteq> Inr v" for n v
    using x check_sig_fails [of "s\<lparr>num_ops := n\<rparr>" elems key cr v] assms(3,4) by auto
  have "fst (execute_opcode cr ?op s) \<noteq> Inr v" for v
    using assms(1,2) f by (auto simp: execute_opcode_def charge_opcode_def is_push_opcode_def op_consts sbind_def sget_def
        slift_def is_executing_def Let_def)
  from sbind_fails [where m = "execute_opcode cr ?op" and s = s and f = "\<lambda>_. check_stack_size", OF this]
  show ?thesis by (auto simp: script_step_Inr sthrow_def)
qed

lemma key_check_fails:
  assumes key: "0 < length key" "length key \<le> 75" "c \<in> {OpCheckSig, OpCheckSigECDSA}" and t: "after_pushes s t"
  shows "fst (execute_script cr (word_of_nat (length key) # key @ [c]) only t) \<noteq> Inr ()"
proof (rule execute_script_Inl)
  let ?op = "OpCode (word_of_nat (length key)) key"
  from t obtain elems where e: "list_all (\<lambda>e. length e \<le> MAX_SCRIPT_ELEMENT_SIZE) elems" "dstack t = elems" "cond_stack t = []"
    by (auto simp: after_pushes_def)
  have u: "unat (word_of_nat (length key) :: u8) = length key"
    using key(2) by (simp add: unsigned_of_nat take_bit_nat_eq_self)
  have push: "is_push_opcode ?op" and pd: "pushed ?op = key"
    using key(1,2) u by (auto simp: is_push_opcode_def op_consts pushed_def word_le_nat_alt word_unat_eq_iff)
  show "fst (run_opcodes cr only (parse_script (word_of_nat (length key) # key @ [c])) t) \<noteq> Inr ()"
  proof (cases "script_step cr only (Inr ?op) t")
    case (Pair r t1)
    show ?thesis
    proof (cases r)
      case (Inl err)
      with Pair show ?thesis by (simp add: key_check_parse [OF key] sbind_def)
    next
      case (Inr v)
      then have t1: "t1 = t\<lparr>dstack := dstack t @ [key]\<rparr>" using push_step [OF push e(3)] Pair pd by simp
      have "fst (script_step cr only (Inr (OpCode c [])) t1) \<noteq> Inr w" for w
        using step_check_sig_fails [OF key(3), of t1 elems key cr only w] e t1 by simp
      from sbind_fails [where m = "script_step cr only (Inr (OpCode c []))" and s = t1 and f = "\<lambda>_. sret ()", OF this]
      show ?thesis using Pair Inr by (simp add: key_check_parse [OF key]) (simp add: sbind_def)
    qed
  qed
qed

end
