(* ===== verification/Signing.thy ===== *)
theory Signing
  imports Spendability
begin

text \<open>
  Signing and verifying transactions outside of the script engine
  (\<^verbatim>\<open>consensus/core/src/sign.rs\<close>).  A key pair is a public key and a signing function,
  whose failure (\<open>None\<close>) the source turns into a panic.  The lemmas show that \<open>verify\<close>
  accepts what \<open>sign\<close> produces.
\<close>

section \<open>Definitions\<close>

record keypair =
  kp_public :: bytes
  kp_sign :: "bytes \<Rightarrow> bytes option"

datatype sign_message = SignatureEmpty | InvalidFormat | Truncated | TooShort | InvalidSpk | HashMismatch | NotVerified

datatype sign_error = Message sign_message nat

definition build_sig_script :: "bytes \<Rightarrow> bytes \<Rightarrow> u8 \<Rightarrow> bytes" where
  "build_sig_script pk sig_bytes sighash_type =
     [0x4d] @ u16_to_le (word_of_nat (length pk + length sig_bytes + 1)) @ pk @ sig_bytes @ [sighash_type]"

definition build_expected_script :: "(bytes \<Rightarrow> bytes) \<Rightarrow> bytes \<Rightarrow> bytes" where
  "build_expected_script sha pk = [0x14] @ take 20 (sha pk) @ [0xac]"

definition set_signature_script :: "nat \<Rightarrow> bytes \<Rightarrow> populated_transaction \<Rightarrow> populated_transaction" where
  "set_signature_script i script ptx =
     ptx\<lparr>pop_tx := (pop_tx ptx)\<lparr>tx_inputs :=
       (tx_inputs (pop_tx ptx))[i := (tx_inputs (pop_tx ptx) ! i)\<lparr>signature_script := script\<rparr>]\<rparr>\<rparr>"

definition set_sig_op_counts :: "populated_transaction \<Rightarrow> populated_transaction" where
  "set_sig_op_counts ptx =
     ptx\<lparr>pop_tx := (pop_tx ptx)\<lparr>tx_inputs := map (\<lambda>input. input\<lparr>sig_op_count := 1\<rparr>) (tx_inputs (pop_tx ptx))\<rparr>\<rparr>"

text \<open>One round of the signing loops; \<open>None\<close> is a panic.\<close>

definition sign_at :: "(bytes \<Rightarrow> bytes) \<Rightarrow> nat \<Rightarrow> keypair \<Rightarrow> populated_transaction \<times> reused_values \<Rightarrow>
    (populated_transaction \<times> reused_values) option" where
  "sign_at sha3 i kp = (\<lambda>(ptx, rv).
     case calc_signature_hash sha3 ptx i SIG_HASH_ALL rv of
       None \<Rightarrow> None
     | Some (sig_hash, rv') \<Rightarrow>
         (case kp_sign kp sig_hash of
            None \<Rightarrow> None
          | Some sg \<Rightarrow> Some (set_signature_script i (build_sig_script (kp_public kp) sg SIG_HASH_ALL) ptx, rv')))"

fun sign_loop :: "(bytes \<Rightarrow> bytes) \<Rightarrow> (nat \<times> keypair) list \<Rightarrow> populated_transaction \<times> reused_values \<Rightarrow>
    (populated_transaction \<times> reused_values) option" where
  "sign_loop sha3 [] st = Some st"
| "sign_loop sha3 ((i, kp) # rounds) st =
     (case sign_at sha3 i kp st of None \<Rightarrow> None | Some st' \<Rightarrow> sign_loop sha3 rounds st')"

definition sign :: "(bytes \<Rightarrow> bytes) \<Rightarrow> populated_transaction \<Rightarrow> keypair \<Rightarrow> populated_transaction option" where
  "sign sha3 ptx kp =
     map_option fst (sign_loop sha3 (map (\<lambda>i. (i, kp)) [0..<length (tx_inputs (pop_tx ptx))])
       (set_sig_op_counts ptx, reused_values_new))"

definition sign_with_multiple :: "(bytes \<Rightarrow> bytes) \<Rightarrow> populated_transaction \<Rightarrow> keypair list \<Rightarrow> populated_transaction option" where
  "sign_with_multiple sha3 ptx kps =
     map_option fst (sign_loop sha3 (filter (\<lambda>(i, _). i < length (tx_inputs (pop_tx ptx))) (enumerate 0 kps))
       (set_sig_op_counts ptx, reused_values_new))"

datatype signed = Fully populated_transaction | Partially populated_transaction

text \<open>
  \<open>sign_with_multiple_v2\<close>: the \<open>BTreeMap\<close> of scripts is an association list in which a later
  key pair with the same script replaces an earlier one.
\<close>

definition sign_with_multiple_v2 ::
    "(bytes \<Rightarrow> bytes) \<Rightarrow> (bytes \<Rightarrow> bytes) \<Rightarrow> populated_transaction \<Rightarrow> keypair list \<Rightarrow> signed option" where
  "sign_with_multiple_v2 sha sha3 ptx kps =
     (let m = map_of (rev (map (\<lambda>kp. (build_expected_script sha (kp_public kp), kp)) kps));
          n = length (tx_inputs (pop_tx ptx));
          key = (\<lambda>i. m (spk_script (ru_script_public_key (pop_entries ptx ! i))))
      in if n > length (pop_entries ptx) then None
         else map_option
           (\<lambda>(p, _). if list_all (\<lambda>i. key i \<noteq> None) [0..<n] then Fully p else Partially p)
           (sign_loop sha3 (List.map_filter (\<lambda>i. map_option (Pair i) (key i)) [0..<n]) (ptx, reused_values_new)))"

definition sign_input :: "(bytes \<Rightarrow> bytes) \<Rightarrow> populated_transaction \<Rightarrow> nat \<Rightarrow> keypair \<Rightarrow> u8 \<Rightarrow> bytes option" where
  "sign_input sha3 ptx i kp hash_type =
     (case calc_signature_hash sha3 ptx i hash_type reused_values_new of
        None \<Rightarrow> None
      | Some (h, _) \<Rightarrow> map_option (\<lambda>sg. build_sig_script (kp_public kp) sg hash_type) (kp_sign kp h))"

text \<open>The body of the loop of \<open>verify\<close>; the outer \<open>option\<close> is the panic of the digest.\<close>

definition verify_at ::
    "(bytes \<Rightarrow> bytes) \<Rightarrow> (bytes \<Rightarrow> bytes) \<Rightarrow> (bytes \<Rightarrow> bytes \<Rightarrow> bytes \<Rightarrow> bool) \<Rightarrow> populated_transaction \<Rightarrow>
     nat \<Rightarrow> transaction_input \<Rightarrow> registry_unit \<Rightarrow> reused_values \<Rightarrow> (sign_error, reused_values) result option" where
  "verify_at sha sha3 dverify ptx i input entry rv =
     (let ss = signature_script input in
      if ss = [] then Some (Inl (Message SignatureEmpty i))
      else if length ss < 3 \<or> ss ! 0 \<noteq> 0x4d then Some (Inl (Message InvalidFormat i))
      else let data_len = unat (u16_from_le [ss ! 1, ss ! 2]) in
        if length ss < 3 + data_len then Some (Inl (Message Truncated i))
        else let data = take data_len (drop 3 ss) in
          if length data < PUBKEY_SIZE + SIG_SIZE + 1 then Some (Inl (Message TooShort i))
          else let pk = take PUBKEY_SIZE data; sg = take SIG_SIZE (drop PUBKEY_SIZE data);
                   script = spk_script (ru_script_public_key entry) in
            if length script < 22 \<or> script ! 0 \<noteq> 0x14 then Some (Inl (Message InvalidSpk i))
            else if take 20 (sha pk) \<noteq> take 20 (drop 1 script) then Some (Inl (Message HashMismatch i))
            else case calc_signature_hash sha3 ptx i SIG_HASH_ALL rv of
              None \<Rightarrow> None
            | Some (h, rv') \<Rightarrow>
                if dverify pk sg h then Some (Inr rv') else Some (Inl (Message NotVerified i)))"

fun verify_loop ::
    "(bytes \<Rightarrow> bytes) \<Rightarrow> (bytes \<Rightarrow> bytes) \<Rightarrow> (bytes \<Rightarrow> bytes \<Rightarrow> bytes \<Rightarrow> bool) \<Rightarrow> populated_transaction \<Rightarrow>
     (nat \<times> transaction_input \<times> registry_unit) list \<Rightarrow> reused_values \<Rightarrow> (sign_error, unit) result option" where
  "verify_loop sha sha3 dverify ptx [] rv = Some (Inr ())"
| "verify_loop sha sha3 dverify ptx ((i, input, entry) # rest) rv =
     (case verify_at sha sha3 dverify ptx i input entry rv of
        None \<Rightarrow> None
      | Some (Inl e) \<Rightarrow> Some (Inl e)
      | Some (Inr rv') \<Rightarrow> verify_loop sha sha3 dverify ptx rest rv')"

definition verify ::
    "(bytes \<Rightarrow> bytes) \<Rightarrow> (bytes \<Rightarrow> bytes) \<Rightarrow> (bytes \<Rightarrow> bytes \<Rightarrow> bytes \<Rightarrow> bool) \<Rightarrow> populated_transaction \<Rightarrow>
     (sign_error, unit) result option" where
  "verify sha sha3 dverify ptx =
     verify_loop sha sha3 dverify ptx (enumerate 0 (populated_inputs ptx)) reused_values_new"

section \<open>Signature scripts do not enter the digest\<close>

definition unsigned_inputs :: "transaction \<Rightarrow> transaction_input list" where
  "unsigned_inputs tx = map (\<lambda>input. input\<lparr>signature_script := []\<rparr>) (tx_inputs tx)"

definition same_unsigned :: "populated_transaction \<Rightarrow> populated_transaction \<Rightarrow> bool" where
  "same_unsigned p q \<longleftrightarrow>
     unsigned_inputs (pop_tx p) = unsigned_inputs (pop_tx q) \<and>
     (pop_tx p)\<lparr>tx_inputs := []\<rparr> = (pop_tx q)\<lparr>tx_inputs := []\<rparr> \<and> pop_entries p = pop_entries q"

lemma same_unsigned_refl [simp]: "same_unsigned p p"
  by (simp add: same_unsigned_def)

lemma same_unsigned_trans: "same_unsigned p q \<Longrightarrow> same_unsigned q r \<Longrightarrow> same_unsigned p r"
  by (simp add: same_unsigned_def)

lemma same_unsigned_sym: "same_unsigned p q \<Longrightarrow> same_unsigned q p"
  by (simp add: same_unsigned_def)

lemma same_unsigned_fields:
  assumes "same_unsigned p q"
  shows "tx_version (pop_tx p) = tx_version (pop_tx q)" "tx_outputs (pop_tx p) = tx_outputs (pop_tx q)"
    "tx_lock_time (pop_tx p) = tx_lock_time (pop_tx q)" "tx_subnetwork_id (pop_tx p) = tx_subnetwork_id (pop_tx q)"
    "tx_gas (pop_tx p) = tx_gas (pop_tx q)" "tx_payload (pop_tx p) = tx_payload (pop_tx q)"
    "pop_entries p = pop_entries q"
proof -
  have eq: "(pop_tx p)\<lparr>tx_inputs := []\<rparr> = (pop_tx q)\<lparr>tx_inputs := []\<rparr>" using assms by (simp add: same_unsigned_def)
  show "tx_version (pop_tx p) = tx_version (pop_tx q)" using arg_cong [OF eq, of tx_version] by simp
  show "tx_outputs (pop_tx p) = tx_outputs (pop_tx q)" using arg_cong [OF eq, of tx_outputs] by simp
  show "tx_lock_time (pop_tx p) = tx_lock_time (pop_tx q)" using arg_cong [OF eq, of tx_lock_time] by simp
  show "tx_subnetwork_id (pop_tx p) = tx_subnetwork_id (pop_tx q)" using arg_cong [OF eq, of tx_subnetwork_id] by simp
  show "tx_gas (pop_tx p) = tx_gas (pop_tx q)" using arg_cong [OF eq, of tx_gas] by simp
  show "tx_payload (pop_tx p) = tx_payload (pop_tx q)" using arg_cong [OF eq, of tx_payload] by simp
  show "pop_entries p = pop_entries q" using assms by (simp add: same_unsigned_def)
qed

lemma unsigned_map:
  "(\<And>input. f (input\<lparr>signature_script := []\<rparr>) = f input) \<Longrightarrow> map f (unsigned_inputs tx) = map f (tx_inputs tx)"
  by (simp add: unsigned_inputs_def comp_def)

lemma same_unsigned_map:
  assumes "same_unsigned p q" "\<And>input. f (input\<lparr>signature_script := []\<rparr>) = f input"
  shows "map f (tx_inputs (pop_tx p)) = map f (tx_inputs (pop_tx q))"
proof -
  have "map f (tx_inputs (pop_tx p)) = map f (unsigned_inputs (pop_tx p))"
    by (rule unsigned_map [symmetric]) (rule assms(2))
  also have "\<dots> = map f (unsigned_inputs (pop_tx q))" using assms(1) by (simp only: same_unsigned_def)
  also have "\<dots> = map f (tx_inputs (pop_tx q))" by (rule unsigned_map) (rule assms(2))
  finally show ?thesis .
qed

lemma same_unsigned_length: "same_unsigned p q \<Longrightarrow> length (tx_inputs (pop_tx p)) = length (tx_inputs (pop_tx q))"
proof -
  assume "same_unsigned p q"
  then have "length (unsigned_inputs (pop_tx p)) = length (unsigned_inputs (pop_tx q))" by (simp only: same_unsigned_def)
  then show ?thesis by (simp add: unsigned_inputs_def)
qed

lemma same_unsigned_nth:
  assumes "same_unsigned p q" "i < length (tx_inputs (pop_tx p))" "\<And>input. f (input\<lparr>signature_script := []\<rparr>) = f input"
  shows "f (tx_inputs (pop_tx p) ! i) = f (tx_inputs (pop_tx q) ! i)"
proof -
  have "map f (tx_inputs (pop_tx p)) ! i = map f (tx_inputs (pop_tx q)) ! i"
    by (rule arg_cong [OF same_unsigned_map [OF assms(1)]]) (rule assms(3))
  then show ?thesis using assms(2) same_unsigned_length [OF assms(1)] by simp
qed

lemma same_unsigned_strings:
  assumes "same_unsigned p q"
  shows "outpoints_string (pop_tx p) = outpoints_string (pop_tx q)"
    "sequences_string (pop_tx p) = sequences_string (pop_tx q)"
    "sig_op_counts_string (pop_tx p) = sig_op_counts_string (pop_tx q)"
    "outputs_string (pop_tx p) = outputs_string (pop_tx q)"
  using same_unsigned_map [OF assms, of "\<lambda>input. hash_outpoint (previous_outpoint input)"]
    same_unsigned_map [OF assms, of "\<lambda>input. u64_to_le (sequence input)"]
    same_unsigned_map [OF assms, of "\<lambda>input. [sig_op_count input]"] same_unsigned_fields [OF assms]
  by (simp_all add: outpoints_string_def sequences_string_def sig_op_counts_string_def outputs_string_def)

lemma populated_input_same:
  assumes "same_unsigned p q"
  shows "populated_input p i = None \<longleftrightarrow> populated_input q i = None"
  using same_unsigned_length [OF assms] same_unsigned_fields(7) [OF assms]
  by (simp add: populated_input_def registry_unit_at_def)

lemma signature_hash_same:
  assumes "same_unsigned p q"
  shows "signature_hash sha3 p i SIG_HASH_ALL = signature_hash sha3 q i SIG_HASH_ALL"
proof (cases "i < length (tx_inputs (pop_tx p)) \<and> i < length (pop_entries p)")
  case True
  have q: "i < length (tx_inputs (pop_tx q))" "i < length (pop_entries q)"
    using True same_unsigned_length [OF assms] same_unsigned_fields(7) [OF assms] by auto
  have nth: "previous_outpoint (tx_inputs (pop_tx p) ! i) = previous_outpoint (tx_inputs (pop_tx q) ! i)"
    "sequence (tx_inputs (pop_tx p) ! i) = sequence (tx_inputs (pop_tx q) ! i)"
    "sig_op_count (tx_inputs (pop_tx p) ! i) = sig_op_count (tx_inputs (pop_tx q) ! i)"
    using True by (auto intro!: same_unsigned_nth [OF assms])
  show ?thesis using True q nth same_unsigned_strings [OF assms] same_unsigned_fields [OF assms]
    by (simp add: signature_hash_message populated_input_def registry_unit_at_def sighash_message_all)
next
  case False
  then have "populated_input p i = None" by (auto simp: populated_input_def registry_unit_at_def)
  moreover from this have "populated_input q i = None" using populated_input_same [OF assms] by simp
  ultimately show ?thesis by (simp add: signature_hash_message)
qed

lemma reused_ok_same:
  assumes "same_unsigned p q"
  shows "reused_ok sha3 (pop_tx p) rv = reused_ok sha3 (pop_tx q) rv"
  using same_unsigned_strings [OF assms] same_unsigned_fields [OF assms] same_unsigned_map [OF assms, of sig_op_count]
  by (simp add: reused_ok_def flip: outpoints_string_def sequences_string_def sig_op_counts_string_def outputs_string_def)

lemma same_unsigned_set:
  assumes "i < length (tx_inputs (pop_tx p))"
  shows "same_unsigned p (set_signature_script i script p)"
proof -
  have "map (\<lambda>input. input\<lparr>signature_script := []\<rparr>)
      ((tx_inputs (pop_tx p))[i := (tx_inputs (pop_tx p) ! i)\<lparr>signature_script := script\<rparr>]) =
    map (\<lambda>input. input\<lparr>signature_script := []\<rparr>) (tx_inputs (pop_tx p))"
    using assms by (intro nth_equalityI) (auto simp: nth_list_update)
  then show ?thesis by (simp add: same_unsigned_def set_signature_script_def unsigned_inputs_def)
qed

section \<open>What was signed verifies\<close>

text \<open>What the Dilithium scheme promises: sizes, and that its own signatures verify.\<close>

definition key_ok :: "(bytes \<Rightarrow> bytes \<Rightarrow> bytes \<Rightarrow> bool) \<Rightarrow> keypair \<Rightarrow> bool" where
  "key_ok dverify kp \<longleftrightarrow>
     length (kp_public kp) = PUBKEY_SIZE \<and>
     (\<forall>m. \<exists>sg. kp_sign kp m = Some sg \<and> length sg = SIG_SIZE \<and> dverify (kp_public kp) sg m)"

definition signed_ok ::
    "(bytes \<Rightarrow> bytes) \<Rightarrow> (bytes \<Rightarrow> bytes \<Rightarrow> bytes \<Rightarrow> bool) \<Rightarrow> keypair \<Rightarrow> populated_transaction \<Rightarrow>
     populated_transaction \<Rightarrow> nat \<Rightarrow> bool" where
  "signed_ok sha3 dverify kp base p j \<longleftrightarrow>
     (\<exists>h sg. signature_hash sha3 base j SIG_HASH_ALL = Some h \<and> length sg = SIG_SIZE \<and>
        dverify (kp_public kp) sg h \<and>
        signature_script (tx_inputs (pop_tx p) ! j) = build_sig_script (kp_public kp) sg SIG_HASH_ALL)"

lemma sign_at_ok:
  assumes kp: "key_ok dverify kp" and same: "same_unsigned base p" and rv: "reused_ok sha3 (pop_tx p) rv"
    and i: "i < length (tx_inputs (pop_tx base))" "length (tx_inputs (pop_tx base)) = length (pop_entries base)"
    and before: "\<And>j. j < i \<Longrightarrow> signed_ok sha3 dverify kp base p j"
  obtains p' rv' where "sign_at sha3 i kp (p, rv) = Some (p', rv')" "same_unsigned base p'"
    "reused_ok sha3 (pop_tx p') rv'" "\<And>j. j \<le> i \<Longrightarrow> signed_ok sha3 dverify kp base p' j"
proof -
  have len: "length (tx_inputs (pop_tx p)) = length (tx_inputs (pop_tx base))" "pop_entries p = pop_entries base"
    using same_unsigned_length [OF same] same_unsigned_fields(7) [OF same] by simp_all
  have "populated_input p i \<noteq> None" using i len by (simp add: populated_input_def registry_unit_at_def)
  then obtain h rv' where c: "calc_signature_hash sha3 p i SIG_HASH_ALL rv = Some (h, rv')"
    using calc_signature_hash_None [of sha3 p i SIG_HASH_ALL rv] by (cases "calc_signature_hash sha3 p i SIG_HASH_ALL rv") auto
  note t = calc_signature_hash_transparent [OF rv c]
  have h: "signature_hash sha3 base i SIG_HASH_ALL = Some h" using t(1) signature_hash_same [OF same] by simp
  obtain sg where sg: "kp_sign kp h = Some sg" "length sg = SIG_SIZE" "dverify (kp_public kp) sg h"
    using kp by (auto simp: key_ok_def)
  let ?p' = "set_signature_script i (build_sig_script (kp_public kp) sg SIG_HASH_ALL) p"
  have up: "same_unsigned p ?p'" using i len by (intro same_unsigned_set) simp
  have at: "signature_script (tx_inputs (pop_tx ?p') ! j) =
      (if j = i then build_sig_script (kp_public kp) sg SIG_HASH_ALL else signature_script (tx_inputs (pop_tx p) ! j))" for j
    using i len by (simp add: set_signature_script_def nth_list_update)
  show thesis
  proof (rule that [of ?p' rv'])
    show "sign_at sha3 i kp (p, rv) = Some (?p', rv')" using c sg(1) by (simp add: sign_at_def)
    show "same_unsigned base ?p'" using same_unsigned_trans [OF same up] .
    show "reused_ok sha3 (pop_tx ?p') rv'" using t(2) reused_ok_same [OF up] by simp
    show "signed_ok sha3 dverify kp base ?p' j" if "j \<le> i" for j
    proof (cases "j = i")
      case True
      with h sg at show ?thesis by (auto simp: signed_ok_def)
    next
      case False
      with that before [of j] at show ?thesis by (auto simp: signed_ok_def)
    qed
  qed
qed

lemma sign_loop_ok:
  assumes kp: "key_ok dverify kp" and n: "n = length (tx_inputs (pop_tx base))" "n = length (pop_entries base)"
  shows "k \<le> n \<Longrightarrow> same_unsigned base p \<Longrightarrow> reused_ok sha3 (pop_tx p) rv \<Longrightarrow>
    (\<And>j. j < k \<Longrightarrow> signed_ok sha3 dverify kp base p j) \<Longrightarrow>
    \<exists>p' rv'. sign_loop sha3 (map (\<lambda>i. (i, kp)) [k..<n]) (p, rv) = Some (p', rv') \<and> same_unsigned base p' \<and>
      (\<forall>j<n. signed_ok sha3 dverify kp base p' j)"
proof (induction "n - k" arbitrary: k p rv)
  case 0
  then show ?case by simp
next
  case (Suc d)
  then have k: "k < n" by simp
  obtain p1 rv1 where 1: "sign_at sha3 k kp (p, rv) = Some (p1, rv1)" "same_unsigned base p1"
    "reused_ok sha3 (pop_tx p1) rv1" "\<And>j. j \<le> k \<Longrightarrow> signed_ok sha3 dverify kp base p1 j"
    using sign_at_ok [OF kp Suc.prems(2,3), of k] k n Suc.prems(4) by metis
  have "\<exists>p' rv'. sign_loop sha3 (map (\<lambda>i. (i, kp)) [Suc k..<n]) (p1, rv1) = Some (p', rv') \<and> same_unsigned base p' \<and>
      (\<forall>j<n. signed_ok sha3 dverify kp base p' j)"
    using Suc.hyps(2) k 1 by (intro Suc.hyps(1)) auto
  with 1(1) show ?case using k by (simp add: upt_conv_Cons)
qed

lemma u16_to_le_two: "u16_to_le w = [u16_to_le w ! 0, u16_to_le w ! 1]"
  by (intro nth_equalityI) (auto simp: less_Suc_eq numeral_2_eq_2)

lemma build_sig_script_layout:
  assumes "length pk = PUBKEY_SIZE" "length sg = SIG_SIZE"
  shows "length (build_sig_script pk sg t) = 5265" "build_sig_script pk sg t ! 0 = 0x4d"
    "u16_from_le [build_sig_script pk sg t ! 1, build_sig_script pk sg t ! 2] = 5262"
    "drop 3 (build_sig_script pk sg t) = pk @ sg @ [t]"
proof -
  have s: "build_sig_script pk sg t = 0x4d # u16_to_le 5262 @ pk @ sg @ [t]"
    using assms by (simp add: build_sig_script_def PUBKEY_SIZE_def SIG_SIZE_def)
  show "length (build_sig_script pk sg t) = 5265" using assms by (simp add: s PUBKEY_SIZE_def SIG_SIZE_def)
  show "build_sig_script pk sg t ! 0 = 0x4d" by (simp add: s)
  show "u16_from_le [build_sig_script pk sg t ! 1, build_sig_script pk sg t ! 2] = 5262"
    using u16_le_roundtrip [of 5262] by (subst (asm) u16_to_le_two) (simp add: s nth_append)
  show "drop 3 (build_sig_script pk sg t) = pk @ sg @ [t]" by (simp add: s numeral_3_eq_3)
qed

lemma verify_at_signed:
  assumes kp: "length pk = PUBKEY_SIZE" "length sg = SIG_SIZE" and sha: "20 \<le> length (sha pk)"
    and script: "signature_script input = build_sig_script pk sg t"
    and spk: "spk_script (ru_script_public_key entry) = build_expected_script sha pk"
    and c: "calc_signature_hash sha3 p i SIG_HASH_ALL rv = Some (h, rv')" and v: "dverify pk sg h"
  shows "verify_at sha sha3 dverify p i input entry rv = Some (Inr rv')"
proof -
  note l = build_sig_script_layout [OF kp, of t]
  have "build_sig_script pk sg t \<noteq> []" using l(1) by auto
  moreover have "take 5262 (drop 3 (build_sig_script pk sg t)) = pk @ sg @ [t]"
    using kp by (simp add: l(4) PUBKEY_SIZE_def SIG_SIZE_def)
  ultimately show ?thesis using kp sha c v
    by (simp add: verify_at_def script spk l build_expected_script_def Let_def PUBKEY_SIZE_def SIG_SIZE_def drop_Cons'
        del: One_nat_def)
qed

lemma verify_loop_ok:
  assumes pk: "length pk = PUBKEY_SIZE" "20 \<le> length (sha pk)"
  shows "reused_ok sha3 (pop_tx p) rv \<Longrightarrow>
    list_all (\<lambda>(i, input, entry).
      spk_script (ru_script_public_key entry) = build_expected_script sha pk \<and>
      (\<exists>h sg. signature_hash sha3 p i SIG_HASH_ALL = Some h \<and> length sg = SIG_SIZE \<and> dverify pk sg h \<and>
         signature_script input = build_sig_script pk sg SIG_HASH_ALL)) items \<Longrightarrow>
    verify_loop sha sha3 dverify p items rv = Some (Inr ())"
proof (induction items arbitrary: rv)
  case (Cons item items)
  obtain i input entry where item: "item = (i, input, entry)" by (cases item)
  from Cons.prems(2) obtain h sg where
    spk: "spk_script (ru_script_public_key entry) = build_expected_script sha pk"
    and h: "signature_hash sha3 p i SIG_HASH_ALL = Some h" "length sg = SIG_SIZE" "dverify pk sg h"
      "signature_script input = build_sig_script pk sg SIG_HASH_ALL"
    by (auto simp: item)
  obtain rv' where c: "calc_signature_hash sha3 p i SIG_HASH_ALL rv = Some (h, rv')"
  proof (cases "calc_signature_hash sha3 p i SIG_HASH_ALL rv")
    case None
    then have "signature_hash sha3 p i SIG_HASH_ALL = None"
      by (simp add: signature_hash_message calc_signature_hash_None)
    with h(1) show thesis by simp
  next
    case (Some r)
    obtain h' rv' where r: "r = (h', rv')" by (cases r)
    from calc_signature_hash_transparent(1) [OF Cons.prems(1) Some [unfolded r]] h(1) Some r that show thesis by simp
  qed
  have "verify_at sha sha3 dverify p i input entry rv = Some (Inr rv')"
    using verify_at_signed [OF pk(1) h(2) pk(2) h(4) spk c] h(3) by simp
  moreover have "verify_loop sha sha3 dverify p items rv' = Some (Inr ())"
    using Cons.IH [OF calc_signature_hash_transparent(2) [OF Cons.prems(1) c]] Cons.prems(2) by simp
  ultimately show ?case by (simp add: item)
qed simp

lemma sign_then_verify:
  assumes kp: "key_ok dverify kp" and sha: "20 \<le> length (sha (kp_public kp))"
    and len: "length (tx_inputs (pop_tx ptx)) = length (pop_entries ptx)"
    and spk: "list_all (\<lambda>entry. spk_script (ru_script_public_key entry) = build_expected_script sha (kp_public kp)) (pop_entries ptx)"
  shows "\<exists>p. sign sha3 ptx kp = Some p \<and> verify sha sha3 dverify p = Some (Inr ()) \<and>
    (\<forall>j < length (tx_inputs (pop_tx ptx)). \<exists>sg. length sg = SIG_SIZE \<and>
       signature_script (tx_inputs (pop_tx p) ! j) = build_sig_script (kp_public kp) sg SIG_HASH_ALL)"
proof -
  let ?base = "set_sig_op_counts ptx" and ?n = "length (tx_inputs (pop_tx ptx))"
  have n: "?n = length (tx_inputs (pop_tx ?base))" "?n = length (pop_entries ?base)"
    and entries: "pop_entries ?base = pop_entries ptx"
    using len by (simp_all add: set_sig_op_counts_def)
  have "\<exists>p rv. sign_loop sha3 (map (\<lambda>i. (i, kp)) [0..<?n]) (?base, reused_values_new) = Some (p, rv) \<and>
      same_unsigned ?base p \<and> (\<forall>j < ?n. signed_ok sha3 dverify kp ?base p j)"
    by (rule sign_loop_ok [OF kp n]) simp_all
  then obtain p rv where p: "sign_loop sha3 (map (\<lambda>i. (i, kp)) [0..<?n]) (?base, reused_values_new) = Some (p, rv)"
    "same_unsigned ?base p" "\<forall>j < ?n. signed_ok sha3 dverify kp ?base p j"
    by (elim exE conjE) (rule that)
  have len': "length (tx_inputs (pop_tx p)) = ?n" "pop_entries p = pop_entries ptx"
    using same_unsigned_length [OF p(2)] n(1) same_unsigned_fields(7) [OF p(2)] entries by simp_all
  let ?ok = "\<lambda>(i, input, entry).
      spk_script (ru_script_public_key entry) = build_expected_script sha (kp_public kp) \<and>
      (\<exists>h sg. signature_hash sha3 p i SIG_HASH_ALL = Some h \<and> length sg = SIG_SIZE \<and> dverify (kp_public kp) sg h \<and>
         signature_script input = build_sig_script (kp_public kp) sg SIG_HASH_ALL)"
  have item: "?ok (j, tx_inputs (pop_tx p) ! j, pop_entries p ! j)" if "j < ?n" for j
    using p(3) that spk len len' unfolding signed_ok_def signature_hash_same [OF p(2), of sha3] list_all_length
    by simp
  have "?ok (enumerate 0 (populated_inputs p) ! j)" if "j < length (enumerate 0 (populated_inputs p))" for j
  proof -
    have j: "j < ?n" using that len' by (simp add: populated_inputs_def)
    then have "enumerate 0 (populated_inputs p) ! j = (j, tx_inputs (pop_tx p) ! j, pop_entries p ! j)"
      using len' by (simp add: nth_enumerate_eq populated_inputs_def)
    with item [OF j] show ?thesis by simp
  qed
  then have "list_all ?ok (enumerate 0 (populated_inputs p))" unfolding list_all_length by blast
  then have "verify sha sha3 dverify p = Some (Inr ())"
    unfolding verify_def using kp sha by (intro verify_loop_ok) (simp_all add: key_ok_def)
  moreover have "sign sha3 ptx kp = Some p" using p(1) by (simp add: sign_def)
  moreover have "\<forall>j < ?n. \<exists>sg. length sg = SIG_SIZE \<and>
       signature_script (tx_inputs (pop_tx p) ! j) = build_sig_script (kp_public kp) sg SIG_HASH_ALL"
    using p(3) unfolding signed_ok_def by blast
  ultimately show ?thesis by blast
qed

section \<open>The engine rejects it\<close>

lemma signed_script_parse:
  assumes "length pk = PUBKEY_SIZE" "length sg = SIG_SIZE"
  shows "parse_script (build_sig_script pk sg t) = [Inr (OpCode OpPushData2 (pk @ sg @ [t]))]"
proof -
  let ?op = "OpCode OpPushData2 (pk @ sg @ [t])"
  have wf: "list_all wf_opcode [?op]" using assms by (simp add: wf_opcode_def opcode_length_def PUBKEY_SIZE_def SIG_SIZE_def)
  have "le_bytes 2 5262 = u16_to_le 5262" by (simp add: u16_to_le_def)
  then have ser: "concat (map opcode_serialize [?op]) = build_sig_script pk sg t"
    using assms by (simp add: opcode_serialize_def opcode_length_def build_sig_script_def PUBKEY_SIZE_def SIG_SIZE_def)
  show ?thesis using parse_script_serialize [OF wf] unfolding ser by simp
qed

lemma signed_input_rejected:
  assumes pk: "length pk = PUBKEY_SIZE" "length sg = SIG_SIZE"
    and s: "from_transaction_input ptx input idx entry rv cache = Some s"
    and sig: "signature_script input = build_sig_script pk sg t"
    and spk: "spk_version (ru_script_public_key entry) = 0" "length (spk_script (ru_script_public_key entry)) \<le> MAX_SCRIPTS_SIZE"
  shows "fst (execute cr s) = Inl (ElementTooBig 5262 520)"
proof -
  let ?spk = "spk_script (ru_script_public_key entry)" and ?sig = "signature_script input"
  have src: "script_source s = TxInput ptx input idx entry (is_pay_to_script_hash ?spk)"
    using s by (auto simp: from_transaction_input_def split: if_splits)
  have len: "length ?sig = 5265" using build_sig_script_layout(1) [OF pk] sig by simp
  have ne: "?sig \<noteq> []" using len by auto
  have "fst (execute_script cr ?sig True s) = Inl (ElementTooBig 5262 520)"
    using pk by (simp add: execute_script_def sig signed_script_parse [OF pk] sbind_def script_step_Inr
        execute_opcode_def charge_opcode_def is_push_opcode_def is_disabled_def always_illegal_def op_consts
        MAX_SCRIPT_ELEMENT_SIZE_def PUBKEY_SIZE_def SIG_SIZE_def)
  then obtain s1 where x: "execute_script cr ?sig True s = (Inl (ElementTooBig 5262 520), s1)"
    by (cases "execute_script cr ?sig True s") auto
  let ?scripts = "filter (\<lambda>(_, s). s \<noteq> []) (enumerate 0 [?sig, ?spk])"
  have "run_scripts cr True b ?scripts None s = (Inl (ElementTooBig 5262 520), s1)" for b
    using ne x by (simp add: sbind_def sget_def)
  then have run: "sbind (run_scripts cr True b ?scripts None) f s = (Inl (ElementTooBig 5262 520), s1)"
    for b and f :: "stack option \<Rightarrow> unit vm_op"
    unfolding sbind_def by simp
  have "fst (execute_scripts cr True b [?sig, ?spk] s) = Inl (ElementTooBig 5262 520)" for b
    unfolding execute_scripts_def using spk ne len run
    by (simp add: MAX_SCRIPTS_SIZE_def del: enumerate_simps filter.simps)
  then show ?thesis using src spk by (simp add: execute_def sbind_def sget_def MAX_SCRIPT_PUBLIC_KEY_VERSION_def)
qed

end
