(* ===== verification/Script_Builder.thy ===== *)
theory Script_Builder
  imports Push_Script
begin

text \<open>
  The script builder (\<open>script_builder.rs\<close>), the multi-signature redeem scripts
  (\<open>standard/multisig.rs\<close>) and the signature script of a pay-to-script-hash input.  The
  builder is its one field, the script; each method returns the extended script or an error.
\<close>

section \<open>Definitions\<close>

datatype builder_error =
    OpCodeRejected u8
  | OpCodesRejected nat
  | DataRejected nat
  | ElementExceedsMaxSize nat
  | IntegerRejected int
  | BuilderSerialization serialization_error

definition builder_new :: bytes where "builder_new = []"

definition add_op :: "u8 \<Rightarrow> bytes \<Rightarrow> (builder_error, bytes) result" where
  "add_op opc script =
     (if length script \<ge> MAX_SCRIPTS_SIZE then Inl (OpCodeRejected opc) else Inr (script @ [opc]))"

definition add_ops :: "bytes \<Rightarrow> bytes \<Rightarrow> (builder_error, bytes) result" where
  "add_ops opcs script =
     (if length script + length opcs > MAX_SCRIPTS_SIZE then Inl (OpCodesRejected (length opcs))
      else Inr (script @ opcs))"

definition canonical_data_size :: "bytes \<Rightarrow> nat" where
  "canonical_data_size d =
     (let data_len = length d in
      if data_len = 0 \<or> data_len = 1 \<and> (d ! 0 \<le> OP_SMALL_INT_MAX_VAL \<or> d ! 0 = OP_1_NEGATE_VAL) then 1
      else data_len +
        (if data_len \<le> unat OP_DATA_MAX_VAL then 1
         else if data_len \<le> 255 then 2
         else if data_len \<le> 65535 then 3
         else 5))"

definition add_raw_data :: "bytes \<Rightarrow> bytes \<Rightarrow> bytes" where
  "add_raw_data d script =
     (let data_len = length d in
      if data_len = 0 \<or> data_len = 1 \<and> d ! 0 = 0 then script @ [OpFalse]
      else if data_len = 1 \<and> d ! 0 \<le> OP_SMALL_INT_MAX_VAL then script @ [(OpTrue - 1) + d ! 0]
      else if data_len = 1 \<and> d ! 0 = OP_1_NEGATE_VAL then script @ [Op1Negate]
      else (if data_len \<le> unat OP_DATA_MAX_VAL then script @ [(OP_DATA_MIN_VAL - 1) + word_of_nat data_len]
            else if data_len \<le> 255 then script @ [OpPushData1, word_of_nat data_len]
            else if data_len \<le> 65535 then script @ OpPushData2 # u16_to_le (word_of_nat data_len)
            else script @ OpPushData4 # u32_to_le (word_of_nat data_len)) @ d)"

definition add_data :: "bytes \<Rightarrow> bytes \<Rightarrow> (builder_error, bytes) result" where
  "add_data d script =
     (let data_size = canonical_data_size d in
      if length script + data_size > MAX_SCRIPTS_SIZE then Inl (DataRejected data_size)
      else if length d > MAX_SCRIPT_ELEMENT_SIZE then Inl (ElementExceedsMaxSize (length d))
      else Inr (add_raw_data d script))"

definition add_i64 :: "int \<Rightarrow> bytes \<Rightarrow> (builder_error, bytes) result" where
  "add_i64 val script =
     (if length script + 1 > MAX_SCRIPTS_SIZE then Inl (IntegerRejected val)
      else if val = 0 then Inr (script @ [OpFalse])
      else if val = - 1 \<or> 1 \<le> val \<and> val \<le> 16 then Inr (script @ [word_of_int ((uint OpTrue - 1) + val)])
      else case serialize_num64 val of
        Inl e \<Rightarrow> Inl (BuilderSerialization e)
      | Inr bs \<Rightarrow> add_data bs script)"

text \<open>The little-endian bytes without the trailing zeros.\<close>

definition trimmed_le :: "u64 \<Rightarrow> bytes" where
  "trimmed_le val = rev (dropWhile (\<lambda>x. x = 0) (rev (u64_to_le val)))"

definition add_u64 :: "u64 \<Rightarrow> bytes \<Rightarrow> (builder_error, bytes) result" where
  "add_u64 val = add_data (trimmed_le val)"

definition add_lock_time :: "u64 \<Rightarrow> bytes \<Rightarrow> (builder_error, bytes) result" where
  "add_lock_time lock_time = add_u64 lock_time"

definition add_sequence :: "u64 \<Rightarrow> bytes \<Rightarrow> (builder_error, bytes) result" where
  "add_sequence sq = add_u64 sq"

text \<open>The loops over several pushes.\<close>

fun add_all :: "bytes list \<Rightarrow> bytes \<Rightarrow> (builder_error, bytes) result" where
  "add_all [] script = Inr script"
| "add_all (d # ds) script = rbind (add_data d script) (add_all ds)"

datatype multisig_error = ErrTooManyRequiredSigs | MultisigBuilder builder_error | EmptyKeys

definition map_err :: "('e \<Rightarrow> 'f) \<Rightarrow> ('e, 'a) result \<Rightarrow> ('f, 'a) result" where
  "map_err f r = (case r of Inl e \<Rightarrow> Inl (f e) | Inr a \<Rightarrow> Inr a)"

text \<open>
  The two redeem scripts differ in the key length, which the types enforce, and in the opcode.
  \<open>hint\<close> is the upper bound that the iterator's \<open>size_hint\<close> gives, if any.
\<close>

definition redeem_script :: "u8 \<Rightarrow> bytes list \<Rightarrow> nat option \<Rightarrow> nat \<Rightarrow> (multisig_error, bytes) result" where
  "redeem_script check_op pub_keys hint required =
     (if (case hint of None \<Rightarrow> False | Some upper \<Rightarrow> upper < required) then Inl ErrTooManyRequiredSigs
      else rbind (map_err MultisigBuilder (add_i64 (sint (word_of_nat required :: u64)) builder_new)) (\<lambda>script.
        rbind (map_err MultisigBuilder (add_all pub_keys script)) (\<lambda>script.
          if length pub_keys < required then Inl ErrTooManyRequiredSigs
          else if pub_keys = [] then Inl EmptyKeys
          else rbind (map_err MultisigBuilder (add_i64 (int (length pub_keys)) script)) (\<lambda>script.
            map_err MultisigBuilder (add_op check_op script)))))"

definition multisig_redeem_script :: "bytes list \<Rightarrow> nat option \<Rightarrow> nat \<Rightarrow> (multisig_error, bytes) result" where
  "multisig_redeem_script = redeem_script OpCheckMultiSig"

definition multisig_redeem_script_ecdsa :: "bytes list \<Rightarrow> nat option \<Rightarrow> nat \<Rightarrow> (multisig_error, bytes) result" where
  "multisig_redeem_script_ecdsa = redeem_script OpCheckMultiSigECDSA"

definition pay_to_script_hash_signature_script :: "bytes \<Rightarrow> bytes \<Rightarrow> (builder_error, bytes) result" where
  "pay_to_script_hash_signature_script redeem signature =
     rbind (add_data redeem builder_new) (\<lambda>as_data. Inr (signature @ as_data))"

section \<open>The opcode of a canonical push\<close>

definition canonical_push :: "bytes \<Rightarrow> opcode" where
  "canonical_push d =
     (if d = [] \<or> d = [0] then OpCode OpFalse []
      else if length d = 1 \<and> d ! 0 \<le> 16 then OpCode (0x50 + d ! 0) []
      else if d = [0x81] then OpCode Op1Negate []
      else if length d \<le> 75 then OpCode (word_of_nat (length d)) d
      else if length d \<le> 255 then OpCode OpPushData1 d
      else if length d \<le> 65535 then OpCode OpPushData2 d
      else OpCode OpPushData4 d)"

lemma length_1_conv: "length d = Suc 0 \<and> d ! 0 = x \<longleftrightarrow> d = [x]"
  by (cases d) auto

lemma small_opcode: "unat n \<le> 75 \<Longrightarrow> 0 < unat n \<Longrightarrow> opcode_length n = Fixed (unat n + 1)"
  by (auto simp: opcode_length_def word_le_nat_alt word_unat_eq_iff)

lemma nullary_opcode: "0x4e < unat n \<Longrightarrow> opcode_length n = Fixed 1"
  by (auto simp: opcode_length_def word_le_nat_alt word_unat_eq_iff)

lemma unat_small_int: "b \<le> 16 \<Longrightarrow> unat (0x50 + b :: u8) = 80 + unat b"
  by (simp add: unat_word_ariths word_le_nat_alt)

lemma canonical_push_cases:
  obtains (zero) "d = [] \<or> d = [0]" "canonical_push d = OpCode OpFalse []"
  | (small) b where "d = [b]" "b \<noteq> 0" "b \<le> 16" "canonical_push d = OpCode (0x50 + b) []"
  | (negate) "d = [0x81]" "canonical_push d = OpCode Op1Negate []"
  | (data) "0 < length d" "length d \<le> 75" "\<not> (length d = 1 \<and> (d ! 0 \<le> 16 \<or> d ! 0 = 0x81))"
      "canonical_push d = OpCode (word_of_nat (length d)) d"
  | (data1) "75 < length d" "length d \<le> 255" "canonical_push d = OpCode OpPushData1 d"
  | (data2) "255 < length d" "length d \<le> 65535" "canonical_push d = OpCode OpPushData2 d"
  | (data4) "65535 < length d" "canonical_push d = OpCode OpPushData4 d"
proof (cases "length d = 1")
  case True
  then obtain b where d: "d = [b]" by (cases d) auto
  consider "b = 0" | "b \<noteq> 0" "b \<le> 16" | "b = 0x81" | "\<not> b \<le> 16" "b \<noteq> 0x81" by blast
  then show thesis
  proof cases
    case 4
    then have "b \<noteq> 0" by auto
    with 4 d show thesis using data by (simp add: canonical_push_def)
  qed (use d zero small negate in \<open>auto simp: canonical_push_def\<close>)
next
  case False
  then show thesis
  proof (cases "d = []")
    case True
    then show thesis using zero by (simp add: canonical_push_def)
  next
    case ne: False
    then have c: "canonical_push d = (if length d \<le> 75 then OpCode (word_of_nat (length d)) d
        else if length d \<le> 255 then OpCode OpPushData1 d
        else if length d \<le> 65535 then OpCode OpPushData2 d else OpCode OpPushData4 d)"
      using False by (auto simp: canonical_push_def)
    consider "length d \<le> 75" | "75 < length d" "length d \<le> 255" | "255 < length d" "length d \<le> 65535" | "65535 < length d"
      by linarith
    then show thesis by cases (use c ne False data data1 data2 data4 in auto)
  qed
qed

lemma canonical_push_wf: "length d < 2 ^ 32 \<Longrightarrow> wf_opcode (canonical_push d)"
proof (cases d rule: canonical_push_cases)
  case (small b)
  then have "0x4e < unat (0x50 + b)" by (simp add: unat_small_int)
  with small show ?thesis by (simp add: wf_opcode_def nullary_opcode)
next
  case data
  then have "unat (word_of_nat (length d) :: u8) = length d" by (simp add: unsigned_of_nat take_bit_nat_eq_self)
  with data show ?thesis by (simp add: wf_opcode_def small_opcode)
qed (auto simp: wf_opcode_def opcode_length_def)

lemma canonical_push_serialize:
  "length d < 2 ^ 32 \<Longrightarrow> add_raw_data d script = script @ opcode_serialize (canonical_push d)"
proof (cases d rule: canonical_push_cases)
  case zero
  then show ?thesis by (auto simp: add_raw_data_def opcode_serialize_def opcode_length_def)
next
  case (small b)
  then have "0x4e < unat (0x50 + b)" by (simp add: unat_small_int)
  with small show ?thesis by (simp add: add_raw_data_def opcode_serialize_def nullary_opcode op_consts)
next
  case negate
  then show ?thesis by (simp add: add_raw_data_def opcode_serialize_def opcode_length_def op_consts)
next
  case data
  then have "unat (word_of_nat (length d) :: u8) = length d" by (simp add: unsigned_of_nat take_bit_nat_eq_self)
  with data show ?thesis by (auto simp: add_raw_data_def opcode_serialize_def small_opcode op_consts Let_def)
next
  case data1
  then show ?thesis
    by (auto simp: add_raw_data_def opcode_serialize_def opcode_length_def op_consts Let_def)
next
  case data2
  then have "unat (word_of_nat (length d) :: u16) = length d" by (simp add: unsigned_of_nat take_bit_nat_eq_self)
  with data2 show ?thesis
    by (auto simp: add_raw_data_def opcode_serialize_def opcode_length_def op_consts Let_def u16_to_le_def)
next
  case data4
  assume "length d < 2 ^ 32"
  then have "unat (word_of_nat (length d) :: u32) = length d" by (simp add: unsigned_of_nat take_bit_nat_eq_self)
  with data4 show ?thesis
    by (auto simp: add_raw_data_def opcode_serialize_def opcode_length_def op_consts Let_def u32_to_le_def)
qed

lemma canonical_push_size:
  "length d < 2 ^ 32 \<Longrightarrow> length (opcode_serialize (canonical_push d)) = canonical_data_size d"
proof (cases d rule: canonical_push_cases)
  case (small b)
  then have "0x4e < unat (0x50 + b)" by (simp add: unat_small_int)
  with small show ?thesis by (simp add: canonical_data_size_def opcode_serialize_def nullary_opcode op_consts)
next
  case data
  then have "unat (word_of_nat (length d) :: u8) = length d" by (simp add: unsigned_of_nat take_bit_nat_eq_self)
  with data show ?thesis by (auto simp: canonical_data_size_def opcode_serialize_def small_opcode op_consts Let_def)
qed (auto simp: canonical_data_size_def opcode_serialize_def opcode_length_def op_consts Let_def)

lemma canonical_push_value:
  assumes "length d \<le> 65535"
  shows "is_push_opcode (canonical_push d)" "op_value (canonical_push d) \<noteq> 0x50"
    "pushed (canonical_push d) = (if d = [0] then [] else d)" "length (op_data (canonical_push d)) \<le> length d"
    "0 < op_value (canonical_push d) \<Longrightarrow> op_value (canonical_push d) \<le> 0x4e \<Longrightarrow>
     check_minimal_data_push (canonical_push d) = Inr ()"
  using assms
proof -
  have "is_push_opcode (canonical_push d) \<and> op_value (canonical_push d) \<noteq> 0x50 \<and>
    pushed (canonical_push d) = (if d = [0] then [] else d) \<and> length (op_data (canonical_push d)) \<le> length d \<and>
    (0 < op_value (canonical_push d) \<longrightarrow> op_value (canonical_push d) \<le> 0x4e \<longrightarrow>
     check_minimal_data_push (canonical_push d) = Inr ())"
  proof (cases d rule: canonical_push_cases)
    case (small b)
    have "unat (0x50 + b) = 80 + unat b" "0 < unat b" "unat b \<le> 16"
      using small by (simp_all add: unat_small_int unat_gt_0 word_le_nat_alt)
    then show ?thesis using small
      by (auto simp: is_push_opcode_def op_consts pushed_def word_le_nat_alt word_unat_eq_iff)
  next
    case data
    then have u: "unat (word_of_nat (length d) :: u8) = length d" by (simp add: unsigned_of_nat take_bit_nat_eq_self)
    let ?c = "word_of_nat (length d) :: u8"
    have c: "?c \<le> 0x4e" "?c \<le> 0x60" "?c \<noteq> 0" "?c \<noteq> 0x50" using data(1,2) u by (simp_all add: word_le_nat_alt word_unat_eq_iff)
    have one: "\<not> (length d = 1 \<and> 1 \<le> d ! 0 \<and> d ! 0 \<le> 16)" "\<not> (length d = 1 \<and> d ! 0 = 0x81)" "d \<noteq> [0]"
      using data(3) by auto
    have "check_minimal_data_push (OpCode ?c d) = Inr ()"
      unfolding check_minimal_data_push_def Let_def opcode.sel using one(1,2) data(1,2) u
      by (simp only: op_consts if_False simp_thms refl if_True) simp
    then show ?thesis using data c one(3) by (simp add: is_push_opcode_def op_consts pushed_def)
  next
    case zero
    then show ?thesis by (auto simp: is_push_opcode_def op_consts pushed_def)
  next
    case negate
    then show ?thesis by (simp add: is_push_opcode_def op_consts pushed_def)
  next
    case data1
    then show ?thesis by (auto simp: is_push_opcode_def op_consts pushed_def check_minimal_data_push_def Let_def)
  next
    case data2
    then show ?thesis by (auto simp: is_push_opcode_def op_consts pushed_def check_minimal_data_push_def Let_def)
  next
    case data4
    then show ?thesis using assms by simp
  qed
  then show "is_push_opcode (canonical_push d)" "op_value (canonical_push d) \<noteq> 0x50"
    "pushed (canonical_push d) = (if d = [0] then [] else d)" "length (op_data (canonical_push d)) \<le> length d"
    "0 < op_value (canonical_push d) \<Longrightarrow> op_value (canonical_push d) \<le> 0x4e \<Longrightarrow>
     check_minimal_data_push (canonical_push d) = Inr ()" by auto
qed

section \<open>The methods\<close>

lemma add_data_Inr:
  "add_data d script = Inr script' \<longleftrightarrow>
     length script + canonical_data_size d \<le> MAX_SCRIPTS_SIZE \<and> length d \<le> MAX_SCRIPT_ELEMENT_SIZE \<and>
     script' = script @ opcode_serialize (canonical_push d)"
proof (cases "length d \<le> MAX_SCRIPT_ELEMENT_SIZE")
  case True
  then have "length d < 2 ^ 32" by (simp add: MAX_SCRIPT_ELEMENT_SIZE_def)
  with True show ?thesis by (auto simp: add_data_def Let_def canonical_push_serialize)
next
  case False
  then show ?thesis by (simp add: add_data_def Let_def)
qed

lemma add_data_size: "length d \<le> MAX_SCRIPT_ELEMENT_SIZE \<Longrightarrow> length (opcode_serialize (canonical_push d)) = canonical_data_size d"
  by (rule canonical_push_size) (simp add: MAX_SCRIPT_ELEMENT_SIZE_def)

lemma add_all_Inr:
  "add_all ds script = Inr script' \<Longrightarrow>
     list_all (\<lambda>d. length d \<le> MAX_SCRIPT_ELEMENT_SIZE) ds \<and>
     script' = script @ concat (map opcode_serialize (map canonical_push ds))"
proof (induction ds arbitrary: script)
  case (Cons d ds)
  then obtain s1 where s1: "add_data d script = Inr s1" "add_all ds s1 = Inr script'" by (auto simp: rbind_Inr_iff)
  then show ?case using Cons.IH [OF s1(2)] by (auto simp: add_data_Inr)
qed simp

text \<open>The opcode that pushes a number.\<close>

definition number_push :: "int \<Rightarrow> opcode" where
  "number_push n =
     (if n = 0 then OpCode OpFalse []
      else if n = - 1 \<or> 1 \<le> n \<and> n \<le> 16 then OpCode (word_of_int (0x50 + n)) []
      else canonical_push (serialize_i64 n))"

lemma small_number_cases:
  assumes "n = - 1 \<or> 1 \<le> n \<and> n \<le> (16 :: int)"
  shows "n \<in> set [-1, 1, 2, 3, 4, 5, 6, 7, 8, 9, 10, 11, 12, 13, 14, 15, 16]"
  using assms by simp presburger

lemma number_push_small:
  assumes "n = - 1 \<or> 1 \<le> n \<and> n \<le> (16 :: int)"
  shows "wf_opcode (number_push n) \<and> opcode_serialize (number_push n) = [word_of_int (0x50 + n)] \<and>
    is_push_opcode (number_push n) \<and> op_value (number_push n) \<noteq> 0x50 \<and> \<not> op_value (number_push n) \<le> 0x4e \<and>
    deserialize_num64 (pushed (number_push n)) = Inr n"
  using small_number_cases [OF assms] unfolding list.set by (elim insertE emptyE; simp only:; code_simp)

lemma add_i64_Inr:
  assumes "add_i64 n script = Inr script'"
  shows "script' = script @ opcode_serialize (number_push n)" "wf_opcode (number_push n)"
    "is_push_opcode (number_push n)" "deserialize_num64 (pushed (number_push n)) = Inr n"
    "length script < MAX_SCRIPTS_SIZE \<and> length script' \<le> MAX_SCRIPTS_SIZE"
proof -
  have "script' = script @ opcode_serialize (number_push n) \<and> wf_opcode (number_push n) \<and>
    is_push_opcode (number_push n) \<and> deserialize_num64 (pushed (number_push n)) = Inr n \<and>
    length script < MAX_SCRIPTS_SIZE \<and> length script' \<le> MAX_SCRIPTS_SIZE"
  proof -
    consider (zero) "n = 0" | (small) "n = - 1 \<or> 1 \<le> n \<and> n \<le> 16" | (big) "n \<noteq> 0" "\<not> (n = - 1 \<or> 1 \<le> n \<and> n \<le> 16)"
      by blast
    then show ?thesis
    proof cases
      case zero
      then show ?thesis using assms
        by (auto simp: add_i64_def number_push_def wf_opcode_def opcode_length_def opcode_serialize_def is_push_opcode_def
            op_consts pushed_def deserialize_num64_def deserialize_sized_def deserialize_i64_def split: if_splits)
    next
      case small
      with number_push_small [OF small] assms show ?thesis by (auto simp: add_i64_def split: if_splits)
    next
      case big
      have push: "number_push n = canonical_push (serialize_i64 n)" unfolding number_push_def using big by argo
      obtain bs where bs: "serialize_num64 n = Inr bs" "add_data bs script = Inr script'" "length script + 1 \<le> MAX_SCRIPTS_SIZE"
        using assms big by (auto simp: add_i64_def split: if_splits sum.splits)
      then have v: "bs = serialize_i64 n" "length bs \<le> 8" unfolding serialize_num64_iff by blast+
      have "deserialize_num64 bs = Inr n" using deserialize_serialize [of n] v by (simp add: deserialize_num64_iff)
      moreover have "bs \<noteq> [0]" using calculation big(1)
        by (auto simp: deserialize_num64_iff deserialize_i64_def check_minimal_data_encoding_def)
      moreover have "length bs \<le> 65535" "length bs < 2 ^ 32" using v(2) by simp_all
      ultimately show ?thesis
        using bs v(1) canonical_push_value [of bs] canonical_push_wf [of bs] canonical_push_size [of bs]
        by (simp add: push add_data_Inr)
    qed
  qed
  then show "script' = script @ opcode_serialize (number_push n)" "wf_opcode (number_push n)"
    "is_push_opcode (number_push n)" "deserialize_num64 (pushed (number_push n)) = Inr n"
    "length script < MAX_SCRIPTS_SIZE \<and> length script' \<le> MAX_SCRIPTS_SIZE" by blast+
qed

lemma add_data_bounded: "add_data d script = Inr script' \<Longrightarrow> length script' \<le> MAX_SCRIPTS_SIZE"
  using add_data_size [of d] by (auto simp: add_data_Inr)

section \<open>Running pushes\<close>

lemma push_step_ok:
  assumes "is_push_opcode op" "op_value op \<noteq> 0x50" "length (op_data op) \<le> MAX_SCRIPT_ELEMENT_SIZE"
    and "0 < op_value op \<Longrightarrow> op_value op \<le> 0x4e \<Longrightarrow> check_minimal_data_push op = Inr ()"
    and "cond_stack s = []" "length (astack s) + length (dstack s) < MAX_STACK_SIZE"
  shows "script_step cr only (Inr op) s = (Inr (), s\<lparr>dstack := dstack s @ [pushed op]\<rparr>)"
proof -
  have le: "op_value op \<le> 0x60" using assms(1) by (simp add: is_push_opcode_def op_consts)
  then have "unat (op_value op) \<le> 0x60" by (simp add: word_le_nat_alt)
  then have "\<not> is_disabled op" "\<not> always_illegal op"
    by (auto simp: is_disabled_def always_illegal_def word_unat_eq_iff)
  moreover have "charge_opcode op s = (Inr (), s)" using assms(1,3) by (simp add: charge_opcode_def)
  moreover have "(if op_value op > 0 \<and> op_value op \<le> 0x4e then check_minimal_data_push op else Inr ()) = Inr ()"
    using assms(4) by auto
  ultimately show ?thesis using assms(1,2,5,6)
    by (simp add: script_step_Inr execute_opcode_def sbind_def sget_def is_executing_def slift_def push_opcode_execute
        check_stack_size_def Let_def)
qed

lemma run_pushes:
  assumes "list_all (\<lambda>op. is_push_opcode op \<and> op_value op \<noteq> 0x50 \<and> length (op_data op) \<le> MAX_SCRIPT_ELEMENT_SIZE \<and>
      (0 < op_value op \<longrightarrow> op_value op \<le> 0x4e \<longrightarrow> check_minimal_data_push op = Inr ())) ops"
    and "cond_stack s = []" "length (astack s) + length (dstack s) + length ops \<le> MAX_STACK_SIZE"
  shows "run_opcodes cr only (map Inr ops) s = (Inr (), s\<lparr>dstack := dstack s @ map pushed ops\<rparr>)"
  using assms
proof (induction ops arbitrary: s)
  case (Cons op ops)
  then show ?case by (simp add: sbind_def push_step_ok)
qed (simp add: sret_def)

lemma canonical_pushes_ok:
  assumes "list_all (\<lambda>d. length d \<le> MAX_SCRIPT_ELEMENT_SIZE) ds"
  shows "list_all (\<lambda>op. is_push_opcode op \<and> op_value op \<noteq> 0x50 \<and> length (op_data op) \<le> MAX_SCRIPT_ELEMENT_SIZE \<and>
      (0 < op_value op \<longrightarrow> op_value op \<le> 0x4e \<longrightarrow> check_minimal_data_push op = Inr ())) (map canonical_push ds)"
    "list_all wf_opcode (map canonical_push ds)"
    "map pushed (map canonical_push ds) = map (\<lambda>d. if d = [0] then [] else d) ds"
proof -
  have d: "length d \<le> 65535 \<and> length d < 2 ^ 32" if "d \<in> set ds" for d
    using assms that by (auto simp: list_all_iff MAX_SCRIPT_ELEMENT_SIZE_def)
  show "list_all (\<lambda>op. is_push_opcode op \<and> op_value op \<noteq> 0x50 \<and> length (op_data op) \<le> MAX_SCRIPT_ELEMENT_SIZE \<and>
      (0 < op_value op \<longrightarrow> op_value op \<le> 0x4e \<longrightarrow> check_minimal_data_push op = Inr ())) (map canonical_push ds)"
    unfolding list_all_iff set_map ball_simps
    using assms d canonical_push_value by (fastforce simp: list_all_iff intro: order_trans)
  show "list_all wf_opcode (map canonical_push ds)" using d canonical_push_wf by (auto simp: list_all_iff)
  show "map pushed (map canonical_push ds) = map (\<lambda>d. if d = [0] then [] else d) ds"
    using d canonical_push_value(3) by simp
qed

lemma execute_pushes:
  assumes ops: "list_all (\<lambda>op. is_push_opcode op \<and> op_value op \<noteq> 0x50 \<and> length (op_data op) \<le> MAX_SCRIPT_ELEMENT_SIZE \<and>
      (0 < op_value op \<longrightarrow> op_value op \<le> 0x4e \<longrightarrow> check_minimal_data_push op = Inr ())) ops" "list_all wf_opcode ops"
    and s: "cond_stack s = []" "length (astack s) + length (dstack s) + length ops \<le> MAX_STACK_SIZE"
  shows "execute_script cr (concat (map opcode_serialize ops)) only s =
     (Inr (), s\<lparr>dstack := dstack s @ map pushed ops, astack := [], num_ops := 0\<rparr>)"
  using s by (simp add: execute_script_def parse_script_serialize [OF ops(2)] run_pushes [OF ops(1)])

lemma execute_built:
  assumes "add_all ds builder_new = Inr script" "cond_stack s = []"
    "length (astack s) + length (dstack s) + length ds \<le> MAX_STACK_SIZE"
  shows "execute_script cr script only s =
    (Inr (), s\<lparr>dstack := dstack s @ map (\<lambda>d. if d = [0] then [] else d) ds, astack := [], num_ops := 0\<rparr>)"
proof -
  have b: "list_all (\<lambda>d. length d \<le> MAX_SCRIPT_ELEMENT_SIZE) ds"
    "script = concat (map opcode_serialize (map canonical_push ds))"
    using add_all_Inr [OF assms(1)] by (simp_all add: builder_new_def)
  note ok = canonical_pushes_ok [OF b(1)]
  have "execute_script cr (concat (map opcode_serialize (map canonical_push ds))) only s =
     (Inr (), s\<lparr>dstack := dstack s @ map pushed (map canonical_push ds), astack := [], num_ops := 0\<rparr>)"
    by (rule execute_pushes [OF ok(1,2) assms(2)]) (use assms(3) in simp)
  then show ?thesis unfolding ok(3) b(2) .
qed

section \<open>Lock times\<close>

lemma trimmed_le:
  obtains k where "u64_to_le v = trimmed_le v @ replicate k 0" "length (trimmed_le v) + k = 8"
proof -
  let ?z = "takeWhile (\<lambda>x. x = 0) (rev (u64_to_le v))"
  have z: "?z = replicate (length ?z) 0"
    by (rule replicate_eqI) (auto dest: set_takeWhileD)
  have "rev (u64_to_le v) = ?z @ rev (trimmed_le v)" by (simp add: trimmed_le_def)
  then have "u64_to_le v = trimmed_le v @ rev ?z" by (metis rev_append rev_rev_ident)
  moreover have "rev ?z = replicate (length ?z) 0" by (subst z) simp
  ultimately have u: "u64_to_le v = trimmed_le v @ replicate (length ?z) 0" by simp
  then have "length (u64_to_le v) = length (trimmed_le v) + length ?z" by (metis length_append length_replicate)
  then have "length (trimmed_le v) + length ?z = 8" by simp
  with u show thesis by (rule that)
qed

lemma le_nat_append_zeros: "le_nat (xs @ replicate k 0) = le_nat xs"
  by (simp add: le_nat_append)

lemma padded_trimmed: "padded_u64 (trimmed_le v) = v"
proof -
  obtain k where "u64_to_le v = trimmed_le v @ replicate k 0" "length (trimmed_le v) + k = 8" by (rule trimmed_le)
  then have "le_nat (trimmed_le v @ replicate (8 - length (trimmed_le v)) 0) = le_nat (u64_to_le v)"
    "length (trimmed_le v) \<le> 8" by (metis le_nat_append_zeros, linarith)
  moreover have "u64_from_le (u64_to_le v) = v" by simp
  ultimately show ?thesis by (simp add: padded_u64_def u64_from_le_def)
qed

lemma trimmed_not_zero: "trimmed_le v \<noteq> [0]"
proof
  assume "trimmed_le v = [0]"
  then have "dropWhile (\<lambda>x. x = 0) (rev (u64_to_le v)) = [0]" by (simp add: trimmed_le_def)
  then show False by (metis (full_types) dropWhile_eq_Cons_conv)
qed

section \<open>Pay to script hash\<close>

lemma step_plain:
  assumes "\<not> is_disabled op" "\<not> always_illegal op" "0x60 < op_value op" "cond_stack s = []" "num_ops s < 201"
    and "opcode_execute cr op (s\<lparr>num_ops := num_ops s + 1\<rparr>) = (Inr (), s')"
    "length (astack s') + length (dstack s') \<le> MAX_STACK_SIZE"
  shows "script_step cr False (Inr op) s = (Inr (), s')"
proof -
  have "\<not> is_push_opcode op" "\<not> op_value op \<le> 0x4e"
    using assms(3) by (auto simp: is_push_opcode_def op_consts word_le_nat_alt word_less_nat_alt)
  with assms show ?thesis
    by (simp add: script_step_Inr execute_opcode_def charge_opcode_def sbind_def sget_def is_executing_def slift_def
        check_stack_size_def MAX_OPS_PER_SCRIPT_def Let_def)
qed

lemma op_blake2b_run: "op_blake2b cr (s\<lparr>dstack := st @ [x]\<rparr>) = (Inr (), s\<lparr>dstack := st @ [sha3_256 cr x]\<rparr>)"
  by (simp add: op_blake2b_def sbind_def pop_raws_def on_dstack_def pop_raw_def push_data_def smod_def)

lemma op_equal_run: "op_equal (s\<lparr>dstack := st @ [x, x]\<rparr>) = (Inr (), s\<lparr>dstack := st @ [[1]]\<rparr>)"
  by (simp add: op_equal_def sbind_def pop_raws_def on_dstack_def pop_raw_def push_data_def smod_def)

text \<open>The public-key script checks the hash of the top element.\<close>

lemma execute_p2sh_script:
  assumes h: "length (sha3_256 cr redeem) = 32" and s: "dstack s = st @ [redeem]" "cond_stack s = []" "astack s = []" "num_ops s = 0"
    and len: "length st + 2 \<le> MAX_STACK_SIZE"
  shows "execute_script cr ([OpBlake2b, OpData32] @ sha3_256 cr redeem @ [OpEqual]) False s =
    (Inr (), s\<lparr>dstack := st @ [[1]]\<rparr>)"
proof -
  let ?h = "sha3_256 cr redeem"
  let ?ops = "[OpCode OpBlake2b [], OpCode OpData32 ?h, OpCode OpEqual []]"
  have wf: "list_all wf_opcode ?ops" using h by (simp add: wf_opcode_def opcode_length_def)
  have "[OpBlake2b, OpData32] @ ?h @ [OpEqual] = concat (map opcode_serialize ?ops)"
    by (simp add: opcode_serialize_def opcode_length_def)
  then have p: "parse_script ([OpBlake2b, OpData32] @ ?h @ [OpEqual]) = map Inr ?ops"
    using parse_script_serialize [OF wf] by simp
  have 1: "script_step cr False (Inr (OpCode OpBlake2b [])) s = (Inr (), s\<lparr>dstack := st @ [?h], num_ops := 1\<rparr>)"
    (is "_ = (_, ?s1)")
  proof (rule step_plain)
    have "opcode_execute cr (OpCode OpBlake2b []) = op_blake2b cr"
      by (simp add: opcode_execute_def op_reserved_def is_disabled_def exec_control_def exec_stack_def exec_numeric_def
          exec_crypto_def orelse_def Let_def)
    moreover have "s\<lparr>num_ops := num_ops s + 1\<rparr> = s\<lparr>num_ops := 1\<rparr>\<lparr>dstack := st @ [redeem]\<rparr>" using s by simp
    ultimately show "opcode_execute cr (OpCode OpBlake2b []) (s\<lparr>num_ops := num_ops s + 1\<rparr>) = (Inr (), ?s1)"
      by (simp only: op_blake2b_run) simp
  qed (use s len in \<open>simp_all add: is_disabled_def always_illegal_def\<close>)
  have 2: "script_step cr False (Inr (OpCode OpData32 ?h)) ?s1 = (Inr (), ?s1\<lparr>dstack := st @ [?h, ?h]\<rparr>)"
  proof -
    have "script_step cr False (Inr (OpCode OpData32 ?h)) ?s1 = (Inr (), ?s1\<lparr>dstack := dstack ?s1 @ [pushed (OpCode OpData32 ?h)]\<rparr>)"
      by (rule push_step_ok)
         (use h s len in \<open>simp_all add: is_push_opcode_def op_consts MAX_SCRIPT_ELEMENT_SIZE_def check_minimal_data_push_def\<close>)
    then show ?thesis by (simp add: pushed_def)
  qed
  have 3: "script_step cr False (Inr (OpCode OpEqual [])) (?s1\<lparr>dstack := st @ [?h, ?h]\<rparr>) =
      (Inr (), s\<lparr>dstack := st @ [[1]], num_ops := 2\<rparr>)" (is "script_step _ _ _ ?s2 = _")
  proof (rule step_plain)
    have "opcode_execute cr (OpCode OpEqual []) = op_equal"
      by (simp add: opcode_execute_def op_reserved_def is_disabled_def exec_control_def exec_stack_def orelse_def Let_def)
    moreover have "?s2\<lparr>num_ops := num_ops ?s2 + 1\<rparr> = s\<lparr>num_ops := 2\<rparr>\<lparr>dstack := st @ [?h, ?h]\<rparr>" by simp
    ultimately show "opcode_execute cr (OpCode OpEqual []) (?s2\<lparr>num_ops := num_ops ?s2 + 1\<rparr>) =
        (Inr (), s\<lparr>dstack := st @ [[1]], num_ops := 2\<rparr>)"
      by (simp only: op_equal_run) simp
  qed (use s len in \<open>simp_all add: is_disabled_def always_illegal_def\<close>)
  have "run_opcodes cr False (map Inr ?ops) s = (Inr (), s\<lparr>dstack := st @ [[1]], num_ops := 2\<rparr>)"
    using 1 2 3 by (simp add: sbind_def sret_def)
  then show ?thesis using s unfolding execute_script_def p by simp
qed

lemma p2sh_script:
  assumes "pay_to_script_hash_script sha3 redeem = Some spk"
  shows "length (sha3 redeem) = 32" "spk_script spk = [OpBlake2b, OpData32] @ sha3 redeem @ [OpEqual]" "spk_version spk = 0"
    "is_pay_to_script_hash (spk_script spk)"
  using assms by (auto simp: pay_to_script_hash_script_def pay_to_script_hash_def is_pay_to_script_hash_def nth_append
      split: if_splits)

lemma p2sh_signature_execute:
  assumes "add_all ds builder_new = Inr sig" "pay_to_script_hash_signature_script redeem sig = Inr script" "redeem \<noteq> [0]"
    "cond_stack s = []" "dstack s = []" "astack s = []" "length ds + 1 \<le> MAX_STACK_SIZE"
  shows "execute_script cr script only s =
    (Inr (), s\<lparr>dstack := map (\<lambda>d. if d = [0] then [] else d) ds @ [redeem], num_ops := 0\<rparr>)" "script \<noteq> []"
proof -
  let ?ops = "map canonical_push (ds @ [redeem])"
  have b: "list_all (\<lambda>d. length d \<le> MAX_SCRIPT_ELEMENT_SIZE) (ds @ [redeem])"
    "script = concat (map opcode_serialize ?ops)"
    using add_all_Inr [OF assms(1)] assms(2)
    by (auto simp: builder_new_def pay_to_script_hash_signature_script_def rbind_Inr_iff add_data_Inr)
  note ok = canonical_pushes_ok [OF b(1)]
  have "execute_script cr (concat (map opcode_serialize ?ops)) only s =
     (Inr (), s\<lparr>dstack := dstack s @ map pushed ?ops, astack := [], num_ops := 0\<rparr>)"
    by (rule execute_pushes [OF ok(1,2) assms(4)]) (use assms in simp)
  then show "execute_script cr script only s =
    (Inr (), s\<lparr>dstack := map (\<lambda>d. if d = [0] then [] else d) ds @ [redeem], num_ops := 0\<rparr>)"
    unfolding ok(3) b(2) using assms(3,5,6) by simp
  show "script \<noteq> []" unfolding b(2) by (simp add: opcode_serialize_def split: op_length.split)
qed

lemma check_error_true: "dstack s = st @ [[1]] \<Longrightarrow> check_error_condition False s = (Inr (), s\<lparr>dstack := st\<rparr>)"
  by (simp add: check_error_condition_def sbind_def sget_def pop_bool_def on_dstack_def pop_items_def deserialize_bool_def sret_def)

lemma p2sh_execute:
  assumes s: "from_transaction_input ptx input idx entry rv cache = Some s"
    and spk: "pay_to_script_hash_script (sha3_256 cr) redeem = Some (ru_script_public_key entry)"
    and sig: "add_all ds builder_new = Inr sig" "pay_to_script_hash_signature_script redeem sig = Inr (signature_script input)"
    and redeem: "redeem \<noteq> [0]"
    and len: "length (signature_script input) \<le> MAX_SCRIPTS_SIZE" "length ds + 2 \<le> MAX_STACK_SIZE"
  shows "execute cr s = sbind (execute_script cr redeem False) (\<lambda>_. check_error_condition True)
    (s\<lparr>dstack := map (\<lambda>d. if d = [0] then [] else d) ds\<rparr>)"
proof -
  let ?sig = "signature_script input" and ?spk = "spk_script (ru_script_public_key entry)"
  let ?st = "map (\<lambda>d. if d = [0] then [] else d) ds"
  note p = p2sh_script [OF spk]
  have st: "dstack s = []" "astack s = []" "cond_stack s = []" "num_ops s = 0"
    "script_source s = TxInput ptx input idx entry True"
    using s p(4) by (auto simp: from_transaction_input_def split: if_splits)
  have x1: "execute_script cr ?sig True s = (Inr (), s\<lparr>dstack := ?st @ [redeem]\<rparr>)" and ne: "?sig \<noteq> []"
    using p2sh_signature_execute [OF sig redeem st(3,1,2)] len(2) st(4) by simp_all
  have x2: "execute_script cr ?spk False (s\<lparr>dstack := ?st @ [redeem]\<rparr>) = (Inr (), s\<lparr>dstack := ?st @ [[1]]\<rparr>)"
    using execute_p2sh_script [OF p(1), of "s\<lparr>dstack := ?st @ [redeem]\<rparr>" ?st] st len(2) unfolding p(2) by simp
  have run: "run_scripts cr True True (filter (\<lambda>(_, s). s \<noteq> []) (enumerate 0 [?sig, ?spk])) None s =
      (Inr (Some (?st @ [redeem])), s\<lparr>dstack := ?st @ [[1]]\<rparr>)"
    using ne x1 x2 p(2) by (simp add: sbind_def sget_def sret_def)
  have "execute_p2sh cr (Some (?st @ [redeem])) (s\<lparr>dstack := ?st @ [[1]]\<rparr>) = execute_script cr redeem False (s\<lparr>dstack := ?st\<rparr>)"
    by (simp add: execute_p2sh_def sbind_def check_error_true [of _ ?st] slift_def smod_def pop_script_def)
  then have "sbind (run_scripts cr True True (filter (\<lambda>(_, s). s \<noteq> []) (enumerate 0 [?sig, ?spk])) None)
      (\<lambda>saved. sbind (execute_p2sh cr saved) (\<lambda>_. check_error_condition True)) s =
      sbind (execute_script cr redeem False) (\<lambda>_. check_error_condition True) (s\<lparr>dstack := ?st\<rparr>)"
    unfolding sbind_def run by simp
  moreover have "List.find (\<lambda>s. length s > MAX_SCRIPTS_SIZE) [?sig, ?spk] = None"
    using len(1) p(1,2) by (simp add: MAX_SCRIPTS_SIZE_def)
  moreover have "\<not> list_all (\<lambda>s. s = []) [?sig, ?spk]" using ne by simp
  ultimately have "execute_scripts cr True True [?sig, ?spk] s =
      sbind (execute_script cr redeem False) (\<lambda>_. check_error_condition True) (s\<lparr>dstack := ?st\<rparr>)"
    unfolding execute_scripts_def by (simp only: list.distinct if_False option.case if_True)
  then show ?thesis using st(5) p(3) by (simp add: execute_def sbind_def sget_def MAX_SCRIPT_PUBLIC_KEY_VERSION_def)
qed

section \<open>Multi-signature scripts\<close>

lemma map_err_Inr [simp]: "map_err f r = Inr a \<longleftrightarrow> r = Inr a"
  by (simp add: map_err_def split: sum.split)

lemma add_all_length: "add_all ds script = Inr script' \<Longrightarrow> length script + length ds \<le> length script'"
proof -
  have one: "1 \<le> length (opcode_serialize op)" for op by (simp add: opcode_serialize_def split: op_length.split)
  have "length ds \<le> length (concat (map opcode_serialize (map canonical_push ds)))"
    by (induction ds) (auto intro: add_mono [OF one, simplified])
  then show "add_all ds script = Inr script' \<Longrightarrow> length script + length ds \<le> length script'" using add_all_Inr by fastforce
qed

lemma add_all_bounded: "add_all ds script = Inr script' \<Longrightarrow> length script \<le> MAX_SCRIPTS_SIZE \<Longrightarrow> length script' \<le> MAX_SCRIPTS_SIZE"
proof (induction ds arbitrary: script)
  case (Cons d ds)
  then obtain s1 where "add_data d script = Inr s1" "add_all ds s1 = Inr script'" by (auto simp: rbind_Inr_iff)
  then show ?case using Cons.IH add_data_bounded by blast
qed simp

lemma redeem_script_Inr:
  assumes "redeem_script c keys hint required = Inr script" and c: "0x60 < c"
  shows "required \<le> length keys" "0 < length keys" "length keys < 10000"
    "parse_script script = map Inr (number_push (int required) # map canonical_push keys @
       [number_push (int (length keys)), OpCode c []])"
    "list_all (\<lambda>key. length key \<le> MAX_SCRIPT_ELEMENT_SIZE) keys"
proof -
  let ?n = "sint (word_of_nat required :: u64)"
  obtain s1 s2 s3 where s: "add_i64 ?n builder_new = Inr s1" "add_all keys s1 = Inr s2"
    "add_i64 (int (length keys)) s2 = Inr s3" "add_op c s3 = Inr script" "required \<le> length keys" "keys \<noteq> []"
    using assms(1) by (auto simp: redeem_script_def rbind_Inr_iff not_less split: if_splits)
  show le: "required \<le> length keys" and ne: "0 < length keys" using s(5,6) by auto
  have "length s1 + length keys < MAX_SCRIPTS_SIZE" using add_all_length [OF s(2)] add_i64_Inr(5) [OF s(3)] by linarith
  moreover have "0 < length s1" using add_i64_Inr(1) [OF s(1)] by (simp add: opcode_serialize_def split: op_length.split)
  ultimately show small: "length keys < 10000" by (simp add: MAX_SCRIPTS_SIZE_def)
  have "?n = int required"
    using le small by (simp add: sint_uint unsigned_of_nat signed_take_bit_int_eq_self take_bit_nat_eq_self)
  then have ops: "script = concat (map opcode_serialize (number_push (int required) # map canonical_push keys @
       [number_push (int (length keys)), OpCode c []]))"
    using s(4) add_i64_Inr(1) [OF s(1)] add_all_Inr [OF s(2)] add_i64_Inr(1) [OF s(3)] c
    by (simp add: add_op_def builder_new_def opcode_serialize_def nullary_opcode word_less_nat_alt split: if_splits)
  have wf: "list_all wf_opcode (number_push (int required) # map canonical_push keys @ [number_push (int (length keys)), OpCode c []])"
    using add_i64_Inr(2) [OF s(1)] add_i64_Inr(2) [OF s(3)] canonical_pushes_ok(2) add_all_Inr [OF s(2)] c \<open>?n = int required\<close>
    by (simp add: wf_opcode_def [of "OpCode c []"] nullary_opcode word_less_nat_alt)
  show "parse_script script = map Inr (number_push (int required) # map canonical_push keys @
       [number_push (int (length keys)), OpCode c []])"
    unfolding ops by (rule parse_script_serialize [OF wf])
  show "list_all (\<lambda>key. length key \<le> MAX_SCRIPT_ELEMENT_SIZE) keys" using add_all_Inr [OF s(2)] by blast
qed

text \<open>Pushes do not count.\<close>

lemma count_sig_ops_pushes:
  "list_all is_push_opcode ops \<Longrightarrow> ops \<noteq> [] \<Longrightarrow> count_sig_ops prev (map Inr ops @ rs) n = count_sig_ops (Some (last ops)) rs n"
proof (induction ops arbitrary: prev)
  case (Cons op ops)
  have "unat (op_value op) \<le> 0x60" using Cons.prems(1) by (simp add: is_push_opcode_def op_consts word_le_nat_alt)
  then have "op_value op \<notin> {OpCheckSig, OpCheckSigVerify, OpCheckSigECDSA}"
    "op_value op \<notin> {OpCheckMultiSig, OpCheckMultiSigVerify, OpCheckMultiSigECDSA}" by (auto simp: word_unat_eq_iff)
  then show ?case using Cons by (cases ops) auto
qed simp

lemma count_small_key_count:
  assumes "1 \<le> n" "n \<le> (16 :: nat)"
  shows "count_sig_ops (Some (number_push (int n))) [Inr (OpCode OpCheckMultiSig [])] 0 =
    (if n = 16 then None else Some (word_of_nat n))"
proof -
  have "n \<in> {1, 2, 3, 4, 5, 6, 7, 8, 9, 10, 11, 12, 13, 14, 15, 16}" using assms by simp presburger
  then show ?thesis by (elim insertE emptyE; simp only:; code_simp)
qed

lemma number_push_not_small:
  assumes "16 < n" "n < 10000"
  shows "\<not> (OpTrue \<le> op_value (number_push (int n)) \<and> op_value (number_push (int n)) \<le> Op16)"
    "is_push_opcode (number_push (int n))"
proof -
  let ?d = "serialize_i64 (int n)"
  have push: "number_push (int n) = canonical_push ?d" using assms by (simp add: number_push_def)
  have len: "length ?d \<le> 8" by (rule serialize_i64_length_le) (use assms in simp)
  have val: "deserialize_i64 ?d = Inr (int n)" by (rule deserialize_serialize [OF len])
  have one: "?d \<noteq> [b]" if "b \<le> 16" for b :: u8
  proof
    assume d: "?d = [b]"
    have "unat b \<le> 16" using that by (simp add: word_le_nat_alt)
    then have "unat b \<in> set [0..<17]" unfolding set_upt by simp
    then have "word_of_nat (unat b) \<in> (word_of_nat :: nat \<Rightarrow> u8) ` set [0..<17]" by (rule imageI)
    then have "b \<in> {0, 1, 2, 3, 4, 5, 6, 7, 8, 9, 10, 11, 12, 13, 14, 15, 16}" by (simp add: upt_rec)
    then have "deserialize_i64 [b] \<in> insert (Inl NotMinimalData) (Inr ` {0..16})" by (elim insertE emptyE; simp only:; code_simp)
    then show False using val assms(1) unfolding d by auto
  qed
  have eight: "unat (word_of_nat (length ?d) :: u8) = length ?d" using len by (simp add: unsigned_of_nat take_bit_nat_eq_self)
  show "is_push_opcode (number_push (int n))" unfolding push by (rule canonical_push_value(1)) (use len in simp)
  show "\<not> (OpTrue \<le> op_value (number_push (int n)) \<and> op_value (number_push (int n)) \<le> Op16)"
    unfolding push
  proof (cases ?d rule: canonical_push_cases)
    case (small b)
    then show "\<not> (OpTrue \<le> op_value (canonical_push ?d) \<and> op_value (canonical_push ?d) \<le> Op16)" using one by blast
  next
    case data
    then show "\<not> (OpTrue \<le> op_value (canonical_push ?d) \<and> op_value (canonical_push ?d) \<le> Op16)"
      using eight len by (simp add: word_le_nat_alt)
  qed (use len in auto)
qed

section \<open>Properties\<close>

text \<open>
  No method of the script builder lets the script grow past the maximal script size, and
  the size that \<open>canonical_data_size\<close> announces is exactly what \<open>add_data\<close> appends.
\<close>

theorem builder_bounded:
  assumes "length script \<le> MAX_SCRIPTS_SIZE"
    and "add_op c script = Inr script' \<or> add_ops cs script = Inr script' \<or> add_data d script = Inr script' \<or>
         add_i64 n script = Inr script' \<or> add_lock_time v script = Inr script' \<or> add_sequence v script = Inr script'"
  shows "length script' \<le> MAX_SCRIPTS_SIZE \<and>
    (add_data d script = Inr script' \<longrightarrow> length script' = length script + canonical_data_size d)"
proof
  show "length script' \<le> MAX_SCRIPTS_SIZE"
    using assms add_data_bounded [of d script script'] add_data_bounded [of "trimmed_le v" script script']
      add_i64_Inr(5) [of n script script']
    by (auto simp: add_op_def add_ops_def add_lock_time_def add_sequence_def add_u64_def split: if_splits)
  show "add_data d script = Inr script' \<longrightarrow> length script' = length script + canonical_data_size d"
    using add_data_size [of d] by (auto simp: add_data_Inr)
qed

theorem builder_bounded_witness:
  "length [0x51 :: u8, 2, 8, 9] \<le> MAX_SCRIPTS_SIZE"
  using builder_bounded [of "[0x51]" 0 "[0x51, 2, 8, 9]" "[]" "[8, 9]" 0 0]
  by (simp add: add_data_def canonical_data_size_def add_raw_data_def op_consts MAX_SCRIPTS_SIZE_def MAX_SCRIPT_ELEMENT_SIZE_def)

text \<open>
  What the builder pushes is what the engine finds on its stack: a script built by
  \<open>add_data\<close> from a list of elements executes successfully, as a signature script or not,
  and appends exactly these elements, except that the one-byte element zero becomes empty.
\<close>

theorem built_pushes_execute:
  assumes "add_all ds builder_new = Inr script" "cond_stack s = []"
    "length (astack s) + length (dstack s) + length ds \<le> MAX_STACK_SIZE"
  shows "execute_script cr script only s =
    (Inr (), s\<lparr>dstack := dstack s @ map (\<lambda>d. if d = [0] then [] else d) ds, astack := [], num_ops := 0\<rparr>)"
  by (rule execute_built [OF assms])

theorem built_pushes_execute_witness:
  "execute_script demo_crypto [2, 8, 9, 0, 0x53] True (engine_new reused_values_new (cache_new 0)) =
     (Inr (), (engine_new reused_values_new (cache_new 0))\<lparr>dstack := [[8, 9], [], [3]]\<rparr>)"
proof -
  have "add_all [[8, 9], [0], [3]] builder_new = Inr [2, 8, 9, 0, 0x53]" by code_simp
  from built_pushes_execute [OF this, of "engine_new reused_values_new (cache_new 0)" demo_crypto True]
  show ?thesis by (simp add: engine_new_def MAX_STACK_SIZE_def)
qed

text \<open>
  Numbers and lock times survive the builder: the opcode that \<open>add_i64\<close> appends pushes an
  encoding of the number, and the one that \<open>add_lock_time\<close> and \<open>add_sequence\<close> append pushes
  bytes that \<open>OpCheckLockTimeVerify\<close> and \<open>OpCheckSequenceVerify\<close> read back as the value.
\<close>

theorem built_numbers:
  "(add_i64 n script = Inr script' \<longrightarrow>
      (\<exists>op. script' = script @ opcode_serialize op \<and> wf_opcode op \<and> is_push_opcode op \<and>
         deserialize_num64 (pushed op) = Inr n)) \<and>
   (add_lock_time v script = Inr script' \<or> add_sequence v script = Inr script' \<longrightarrow>
      (\<exists>op. script' = script @ opcode_serialize op \<and> wf_opcode op \<and> is_push_opcode op \<and>
         length (pushed op) \<le> 8 \<and> padded_u64 (pushed op) = v))"
proof -
  obtain k where k: "length (trimmed_le v) + k = 8" by (rule trimmed_le)
  then have len: "length (trimmed_le v) \<le> 65535" "length (trimmed_le v) < 2 ^ 32" "length (trimmed_le v) \<le> 8" by simp_all
  have "\<exists>op. script' = script @ opcode_serialize op \<and> wf_opcode op \<and> is_push_opcode op \<and>
      length (pushed op) \<le> 8 \<and> padded_u64 (pushed op) = v" if "add_data (trimmed_le v) script = Inr script'"
    using that len canonical_push_value [OF len(1)] canonical_push_wf [OF len(2)]
    by (intro exI [of _ "canonical_push (trimmed_le v)"]) (simp add: add_data_Inr trimmed_not_zero padded_trimmed)
  then show ?thesis using add_i64_Inr [of n script script']
    by (auto simp: add_lock_time_def add_sequence_def add_u64_def)
qed

theorem built_numbers_witness:
  "\<exists>op. [0x51, 2, 0xe8, 3] = [0x51] @ opcode_serialize op \<and> wf_opcode op \<and> is_push_opcode op \<and>
     deserialize_num64 (pushed op) = Inr 1000"
proof -
  have "add_i64 1000 [0x51] = Inr [0x51, 2, 0xe8, 3]" by code_simp
  then show ?thesis using built_numbers [of 1000 "[0x51]" "[0x51, 2, 0xe8, 3]" 0] by simp
qed

text \<open>
  A multi-signature redeem script parses to the number of required signatures, the keys in
  order, their number and the check; it is built only when the required number is at most the
  number of keys, which is positive.
\<close>

theorem multisig_script_shape:
  assumes "multisig_redeem_script keys hint required = Inr script"
  shows "required \<le> length keys \<and> 0 < length keys \<and>
    parse_script script = map Inr (number_push (int required) # map canonical_push keys @
       [number_push (int (length keys)), OpCode OpCheckMultiSig []])"
  using redeem_script_Inr [of OpCheckMultiSig keys hint required script] assms by (simp add: multisig_redeem_script_def)

theorem multisig_script_shape_witness:
  "parse_script [0x51, 2, 7, 8, 2, 9, 9, 0x52, 0xae] =
     map Inr [number_push 1, canonical_push [7, 8], canonical_push [9, 9], number_push 2, OpCode OpCheckMultiSig []]"
proof -
  have "multisig_redeem_script [[7, 8], [9, 9]] (Some 2) 1 = Inr [0x51, 2, 7, 8, 2, 9, 9, 0x52, 0xae]" by code_simp
  from multisig_script_shape [OF this] show ?thesis by simp
qed

text \<open>
  The static count of signature operations of a multi-signature redeem script is its number
  of keys up to 15, and 20 above 16; for 16 keys the count panics.
\<close>

theorem multisig_sig_ops:
  assumes "multisig_redeem_script keys hint required = Inr script"
  shows "get_sig_op_count_by_opcodes (parse_script script) =
    (if length keys = 16 then None else if length keys < 16 then Some (word_of_nat (length keys)) else Some 20)"
proof -
  let ?n = "length keys"
  note r = redeem_script_Inr [of OpCheckMultiSig keys hint required script, OF assms [unfolded multisig_redeem_script_def], simplified]
  let ?pushes = "number_push (int required) # map canonical_push keys @ [number_push (int ?n)]"
  have num: "is_push_opcode (number_push (int k))" if "k < 10000" for k
  proof (cases "16 < k")
    case True
    then show ?thesis using number_push_not_small(2) that by blast
  next
    case False
    then show ?thesis using number_push_small [of "int k"] by (cases "k = 0") (simp_all add: number_push_def is_push_opcode_def op_consts)
  qed
  have "list_all is_push_opcode ?pushes"
    using num r(1,3) canonical_pushes_ok(1) [OF r(5)] by (simp add: list_all_iff)
  then have "get_sig_op_count_by_opcodes (parse_script script) =
      count_sig_ops (Some (number_push (int ?n))) [Inr (OpCode OpCheckMultiSig [])] 0"
    using count_sig_ops_pushes [of ?pushes None "[Inr (OpCode OpCheckMultiSig [])]" 0]
    by (simp add: r(4) get_sig_op_count_by_opcodes_def)
  also have "\<dots> = (if ?n = 16 then None else if ?n < 16 then Some (word_of_nat ?n) else Some 20)"
  proof (cases "16 < ?n")
    case True
    then show ?thesis using number_push_not_small(1) [OF True r(3)] by auto
  next
    case False
    then have n: "1 \<le> ?n" "?n \<le> 16" using r(2) by (simp_all add: Suc_le_eq)
    show ?thesis unfolding count_small_key_count [OF n] using n by simp
  qed
  finally show ?thesis .
qed

theorem multisig_sig_ops_witness:
  "get_sig_op_count_by_opcodes (parse_script [0x51, 2, 7, 8, 2, 9, 9, 0x52, 0xae]) = Some 2"
proof -
  have "multisig_redeem_script [[7, 8], [9, 9]] (Some 2) 1 = Inr [0x51, 2, 7, 8, 2, 9, 9, 0x52, 0xae]" by code_simp
  from multisig_sig_ops [OF this] show ?thesis by simp
qed

end
