(* ===== verification/Digits.thy ===== *)
theory Digits
  imports Prelude
begin

text \<open>
  Lists of bytes read as numbers, most significant digit first.  The base is \<open>2 ^ k\<close>: eight
  bits for bytes and hashes, five for the characters of an address.
\<close>

text \<open>The number that a list of \<open>k\<close>-bit digits denotes, most significant digit first.\<close>

definition digits :: "nat \<Rightarrow> bytes \<Rightarrow> nat" where
  "digits k ds = foldl (\<lambda>a d. a * 2 ^ k + unat d) 0 ds"

lemma digits_Nil [simp]: "digits k [] = 0"
  by (simp add: digits_def)

lemma foldl_digits: "foldl (\<lambda>a d. a * 2 ^ k + unat d) a ds = a * 2 ^ (k * length ds) + digits k ds"
proof (induction ds arbitrary: a)
  case (Cons d ds)
  have "foldl (\<lambda>a d. a * 2 ^ k + unat d) a (d # ds) = (a * 2 ^ k + unat d) * 2 ^ (k * length ds) + digits k ds"
    by (simp add: Cons.IH)
  moreover have "digits k (d # ds) = unat d * 2 ^ (k * length ds) + digits k ds"
    using Cons.IH [of "unat d"] by (simp add: digits_def)
  ultimately show ?case by (simp add: algebra_simps power_add)
qed simp

lemma digits_Cons: "digits k (d # ds) = unat d * 2 ^ (k * length ds) + digits k ds"
  using foldl_digits [of k "unat d" ds] by (simp add: digits_def)

lemma digits_append: "digits k (xs @ ys) = digits k xs * 2 ^ (k * length ys) + digits k ys"
  using foldl_digits [of k "digits k xs" ys] by (simp add: digits_def)

lemma digits_bound: "list_all (\<lambda>d. unat d < 2 ^ k) ds \<Longrightarrow> digits k ds < 2 ^ (k * length ds)"
proof (induction ds)
  case (Cons d ds)
  then have "unat d + 1 \<le> 2 ^ k" "digits k ds < 2 ^ (k * length ds)" by auto
  then have "digits k (d # ds) < (unat d + 1) * 2 ^ (k * length ds)" by (simp add: digits_Cons)
  also have "\<dots> \<le> 2 ^ k * 2 ^ (k * length ds)" using \<open>unat d + 1 \<le> 2 ^ k\<close> by (rule mult_right_mono) simp
  finally show ?case by (simp add: power_add)
qed simp

lemma digits_inj:
  "length xs = length ys \<Longrightarrow> list_all (\<lambda>d. unat d < 2 ^ k) xs \<Longrightarrow> list_all (\<lambda>d. unat d < 2 ^ k) ys \<Longrightarrow>
   digits k xs = digits k ys \<Longrightarrow> xs = ys"
proof (induction xs ys rule: list_induct2)
  case (Cons x xs y ys)
  let ?p = "2 ^ (k * length xs) :: nat"
  have eq: "unat x * ?p + digits k xs = unat y * ?p + digits k ys" using Cons.prems(3) Cons.hyps by (simp add: digits_Cons)
  have b: "digits k xs < ?p" "digits k ys < ?p"
    using digits_bound [of k xs] digits_bound [of k ys] Cons.prems(1,2) Cons.hyps by auto
  have "(unat x * ?p + digits k xs) div ?p = unat x" "(unat y * ?p + digits k ys) div ?p = unat y" using b by simp_all
  then have "unat x = unat y" using eq by simp
  moreover from this eq have "digits k xs = digits k ys" by simp
  ultimately show ?case using Cons by (simp add: word_unat_eq_iff)
qed simp

end
