(* ===== verification/Bech32.thy ===== *)
theory Bech32
  imports Script_Class Digits
begin

text \<open>
  The text form of addresses (\<open>crypto/addresses/src/bech32.rs\<close> and the conversions to and from
  strings in \<open>lib.rs\<close>).  A Rust string is the list of its UTF-8 bytes; every character that the
  code looks for is ASCII.
\<close>

section \<open>Definitions\<close>

definition CHARSET :: bytes where
  "CHARSET = ascii ''qpzry9x8gf2tvdw0s3jn54khce6mua7l''"

definition REV_CHARSET :: bytes where
  "REV_CHARSET =
     [100, 100, 100, 100, 100, 100, 100, 100, 100, 100, 100, 100, 100, 100, 100, 100, 100, 100, 100, 100, 100, 100, 100, 100, 100, 100,
      100, 100, 100, 100, 100, 100, 100, 100, 100, 100, 100, 100, 100, 100, 100, 100, 100, 100, 100, 100, 100, 100, 15, 100, 10, 17, 21,
      20, 26, 30, 7, 5, 100, 100, 100, 100, 100, 100, 100, 100, 100, 100, 100, 100, 100, 100, 100, 100, 100, 100, 100, 100, 100, 100,
      100, 100, 100, 100, 100, 100, 100, 100, 100, 100, 100, 100, 100, 100, 100, 100, 100, 29, 100, 24, 13, 25, 9, 8, 23, 100, 18, 22,
      31, 27, 19, 100, 1, 0, 3, 16, 11, 28, 12, 14, 6, 4, 2]"

definition polymod_step :: "u64 \<Rightarrow> u8 \<Rightarrow> u64" where
  "polymod_step c d =
     (let c0 = drop_bit 35 c;
          c = push_bit 5 (c AND 0x07ffffffff) XOR ucast d;
          c = (if c0 AND 0x01 \<noteq> 0 then c XOR 0x98f2bc8e61 else c);
          c = (if c0 AND 0x02 \<noteq> 0 then c XOR 0x79b76d99e2 else c);
          c = (if c0 AND 0x04 \<noteq> 0 then c XOR 0xf33e5fb3c4 else c);
          c = (if c0 AND 0x08 \<noteq> 0 then c XOR 0xae2eabe2a8 else c);
          c = (if c0 AND 0x10 \<noteq> 0 then c XOR 0x1e4f43e470 else c)
      in c)"

definition polymod :: "bytes \<Rightarrow> u64" where
  "polymod vs = foldl polymod_step 1 vs XOR 0x2bc830a3"

definition checksum :: "bytes \<Rightarrow> bytes \<Rightarrow> u64" where
  "checksum payload pfx = polymod (pfx @ [0] @ payload @ replicate 8 0)"

text \<open>
  The inner \<open>while\<close> of the two conversions, which takes groups of \<open>n\<close> bits from the buffer.
  The state is \<open>(buff, bits)\<close>; the emitted values come in order.  The destination vector has
  exactly one slot for each of them, so writing at \<open>current_idx\<close> is appending.
\<close>

function emit_groups :: "nat \<Rightarrow> u16 \<Rightarrow> nat \<Rightarrow> bytes \<times> u16 \<times> nat" where
  "emit_groups n buff bits =
     (if n = 0 \<or> bits < n then ([], buff, bits)
      else let bits' = bits - n;
               c = ucast (drop_bit bits' buff);
               (rest, st) = emit_groups n (buff AND (push_bit bits' 1 - 1)) bits'
           in (c # rest, st))"
  by pat_completeness auto
termination
  by (relation "measure (\<lambda>(n, buff, bits). bits)") auto

declare emit_groups.simps [simp del]

fun regroup :: "nat \<Rightarrow> nat \<Rightarrow> bytes \<Rightarrow> u16 \<Rightarrow> nat \<Rightarrow> bytes \<times> u16 \<times> nat" where
  "regroup m n [] buff bits = ([], buff, bits)"
| "regroup m n (c # cs) buff bits =
     (let (out, buff', bits') = emit_groups n (push_bit m buff OR ucast c) (bits + m);
          (out', st) = regroup m n cs buff' bits'
      in (out @ out', st))"

definition conv8to5 :: "bytes \<Rightarrow> bytes" where
  "conv8to5 payload =
     (let (out, buff, bits) = regroup 8 5 payload 0 0
      in if bits > 0 then out @ [ucast (push_bit (5 - bits) buff)] else out)"

definition conv5to8 :: "bytes \<Rightarrow> bytes" where
  "conv5to8 payload = fst (regroup 5 8 payload 0 0)"

definition prefix_as_str :: "prefix \<Rightarrow> bytes" where
  "prefix_as_str p =
     (case p of Mainnet \<Rightarrow> ascii ''csm'' | Testnet \<Rightarrow> ascii ''csmtest'' | Simnet \<Rightarrow> ascii ''csmsim'' | Devnet \<Rightarrow> ascii ''csmdev'')"

definition prefix_try_from :: "bytes \<Rightarrow> prefix option" where
  "prefix_try_from s =
     (if s = ascii ''csm'' then Some Mainnet
      else if s = ascii ''csmtest'' then Some Testnet
      else if s = ascii ''csmsim'' then Some Simnet
      else if s = ascii ''csmdev'' then Some Devnet
      else None)"

fun version_as_u8 :: "address_version \<Rightarrow> u8" where
  "version_as_u8 VPubKey = 128"
| "version_as_u8 VPubKeyECDSA = 1"
| "version_as_u8 VScriptHash = 8"
| "version_as_u8 VPubKeyDilithium = 129"

definition version_try_from :: "u8 \<Rightarrow> address_version option" where
  "version_try_from v =
     (if v = 128 then Some VPubKey else if v = 1 then Some VPubKeyECDSA else if v = 8 then Some VScriptHash
      else if v = 129 then Some VPubKeyDilithium else None)"

datatype address_error =
    InvalidPrefix bytes
  | MissingPrefix
  | InvalidVersion u8
  | DecodingError u8
  | BadPayload
  | BadChecksumSize
  | BadChecksum

definition fivebit_prefix :: "prefix \<Rightarrow> bytes" where
  "fivebit_prefix p = map (\<lambda>c. c AND 0x1f) (prefix_as_str p)"

definition u64_to_be :: "u64 \<Rightarrow> bytes" where "u64_to_be v = rev (u64_to_le v)"
definition u64_from_be :: "bytes \<Rightarrow> u64" where "u64_from_be bs = u64_from_le (rev bs)"

text \<open>The characters are indexed with five-bit values, which are all in range.\<close>

definition encode_payload :: "address \<Rightarrow> bytes" where
  "encode_payload a =
     (let fivebit_payload = conv8to5 (version_as_u8 (addr_version a) # addr_payload a);
          sum = checksum fivebit_payload (fivebit_prefix (addr_prefix a))
      in map (\<lambda>c. CHARSET ! unat c) (fivebit_payload @ conv8to5 (drop 3 (u64_to_be sum))))"

definition rev_char :: "u8 \<Rightarrow> u8" where
  "rev_char b = (if unat b < length REV_CHARSET then REV_CHARSET ! unat b else 100)"

text \<open>
  The outer \<open>option\<close> is a panic: of the index \<open>payload_u8[0]\<close> or of the assertion in
  \<open>Address::new\<close>.
\<close>

definition decode_payload :: "prefix \<Rightarrow> bytes \<Rightarrow> (address_error, address) result option" where
  "decode_payload pfx addr =
     (case List.find (\<lambda>b. rev_char b = 100) addr of
        Some b \<Rightarrow> Some (Inl (DecodingError b))
      | None \<Rightarrow>
          if length addr < 8 then Some (Inl BadPayload)
          else let address_u5 = map rev_char addr;
                   payload_u5 = take (length addr - 8) address_u5;
                   checksum_u5 = drop (length addr - 8) address_u5;
                   be = replicate 3 0 @ conv5to8 checksum_u5
               in if length be \<noteq> 8 then Some (Inl BadChecksumSize)
                  else if checksum payload_u5 (fivebit_prefix pfx) \<noteq> u64_from_be be then Some (Inl BadChecksum)
                  else case conv5to8 payload_u5 of
                    [] \<Rightarrow> None
                  | v # payload \<Rightarrow>
                      (case version_try_from v of
                         None \<Rightarrow> Some (Inl (InvalidVersion v))
                       | Some version \<Rightarrow> map_option Inr (address_new pfx version payload)))"

definition address_to_string :: "address \<Rightarrow> bytes" where
  "address_to_string a = prefix_as_str (addr_prefix a) @ ascii ''1'' @ encode_payload a"

text \<open>\<open>str::split_once\<close> at the first occurrence.\<close>

fun split_once :: "u8 \<Rightarrow> bytes \<Rightarrow> (bytes \<times> bytes) option" where
  "split_once c [] = None"
| "split_once c (x # xs) =
     (if x = c then Some ([], xs) else map_option (\<lambda>(a, b). (x # a, b)) (split_once c xs))"

definition address_try_from :: "bytes \<Rightarrow> (address_error, address) result option" where
  "address_try_from s =
     (case split_once 0x31 s of
        None \<Rightarrow> Some (Inl MissingPrefix)
      | Some (pfx, payload) \<Rightarrow>
          (case prefix_try_from pfx of
             None \<Rightarrow> Some (Inl (InvalidPrefix pfx))
           | Some p \<Rightarrow> decode_payload p payload))"

section \<open>Regrouping bits\<close>

text \<open>The state of the loop: a number below \<open>2 ^ bits\<close>, with fewer bits than a group.\<close>

lemma emit_groups_spec:
  assumes "0 < n" "n \<le> 8" "bits < 16" "unat buff < 2 ^ bits" "emit_groups n buff bits = (out, buff', bits')"
  shows "unat buff = digits n out * 2 ^ bits' + unat buff'" "unat buff' < 2 ^ bits'" "bits' < n"
    "n * length out + bits' = bits" "list_all (\<lambda>d. unat d < 2 ^ n) out"
proof -
  have "unat buff = digits n out * 2 ^ bits' + unat buff' \<and> unat buff' < 2 ^ bits' \<and> bits' < n \<and>
    n * length out + bits' = bits \<and> list_all (\<lambda>d. unat d < 2 ^ n) out"
    using assms
  proof (induction bits arbitrary: buff out rule: less_induct)
    case (less bits)
    show ?case
    proof (cases "bits < n")
      case True
      then show ?thesis using less.prems by (simp add: emit_groups.simps [of n buff bits])
    next
      case False
      let ?b = "bits - n"
      let ?m = "buff AND (push_bit ?b 1 - 1)"
      obtain rest where rest: "emit_groups n ?m ?b = (rest, buff', bits')" "out = ucast (drop_bit ?b buff) # rest"
        using less.prems(1,5) False by (auto simp: emit_groups.simps [of n buff bits] Let_def split: prod.splits if_splits)
      have "push_bit ?b (1 :: u16) - 1 = mask ?b" by (simp add: mask_eq_exp_minus_1 push_bit_eq_mult)
      then have "?m = take_bit ?b buff" by (simp only: take_bit_eq_mask)
      then have "unat ?m = take_bit ?b (unat buff)" by (simp only: unsigned_take_bit_eq)
      then have m: "unat ?m = unat buff mod 2 ^ ?b" by (simp only: take_bit_eq_mod)
      have "unat (drop_bit ?b buff) = drop_bit ?b (unat buff)"
        using unat_lt2p [of buff] by (simp add: unsigned_drop_bit_eq take_bit_nat_eq_self)
      then have c: "unat (drop_bit ?b buff) = unat buff div 2 ^ ?b" by (simp only: drop_bit_eq_div)
      have "unat buff < 2 ^ n * 2 ^ ?b" using less.prems(4) False by (simp flip: power_add)
      then have lt: "unat buff div 2 ^ ?b < 2 ^ n" by (simp add: less_mult_imp_div_less)
      also have "(2 :: nat) ^ n \<le> 2 ^ 8" using less.prems(2) by (intro power_increasing) auto
      finally have "unat buff div 2 ^ ?b < 256" by simp
      then have u: "unat (ucast (drop_bit ?b buff) :: u8) = unat buff div 2 ^ ?b"
        by (simp add: c unsigned_ucast_eq take_bit_nat_eq_self)
      have ih: "unat ?m = digits n rest * 2 ^ bits' + unat buff' \<and> unat buff' < 2 ^ bits' \<and> bits' < n \<and>
        n * length rest + bits' = ?b \<and> list_all (\<lambda>d. unat d < 2 ^ n) rest"
        by (rule less.IH [OF _ less.prems(1,2) _ _ rest(1)]) (use less.prems False m in simp_all)
      then have pow: "2 ^ (n * length rest) * 2 ^ bits' = (2 :: nat) ^ ?b" by (metis power_add)
      have "digits n out * 2 ^ bits' = (unat buff div 2 ^ ?b) * (2 ^ (n * length rest) * 2 ^ bits') + digits n rest * 2 ^ bits'"
        by (simp add: rest(2) digits_Cons u algebra_simps)
      moreover have "unat buff = (unat buff div 2 ^ ?b) * 2 ^ ?b + unat ?m" by (simp only: m div_mult_mod_eq)
      ultimately have "unat buff = digits n out * 2 ^ bits' + unat buff'" using ih unfolding pow by linarith
      moreover have "n * length out + bits' = bits"
      proof -
        have "n * length rest + bits' = bits - n" using ih by blast
        then show ?thesis using False by (simp add: rest(2))
      qed
      moreover have "list_all (\<lambda>d. unat d < 2 ^ n) out" using ih lt by (simp add: rest(2) u)
      ultimately show ?thesis using ih by blast
    qed
  qed
  then show "unat buff = digits n out * 2 ^ bits' + unat buff'" "unat buff' < 2 ^ bits'" "bits' < n"
    "n * length out + bits' = bits" "list_all (\<lambda>d. unat d < 2 ^ n) out" by blast+
qed

lemma regroup_spec:
  assumes m: "0 < m" "m \<le> 8" and n: "0 < n" "n \<le> 8" and bits: "bits < n" "unat buff < 2 ^ bits"
    and cs: "list_all (\<lambda>c. unat c < 2 ^ m) cs" and r: "regroup m n cs buff bits = (out, buff', bits')"
  shows "unat buff * 2 ^ (m * length cs) + digits m cs = digits n out * 2 ^ bits' + unat buff' \<and>
    unat buff' < 2 ^ bits' \<and> bits' < n \<and> n * length out + bits' = bits + m * length cs \<and>
    list_all (\<lambda>d. unat d < 2 ^ n) out"
  using bits cs r
proof (induction cs arbitrary: buff bits out)
  case Nil
  then show ?case by simp
next
  case (Cons c cs)
  let ?b = "push_bit m buff OR ucast c :: u16"
  obtain o1 b1 k1 o2 where e: "emit_groups n ?b (bits + m) = (o1, b1, k1)" "regroup m n cs b1 k1 = (o2, buff', bits')" "out = o1 @ o2"
    using Cons.prems(4) by (auto simp: Let_def split: prod.splits)
  have c: "unat c < 2 ^ m" using Cons.prems(3) by simp
  have "unat buff * 2 ^ m + unat c < (unat buff + 1) * 2 ^ m" using c by simp
  also have "\<dots> \<le> 2 ^ bits * 2 ^ m" using Cons.prems(2) by (intro mult_right_mono) auto
  finally have lt: "unat buff * 2 ^ m + unat c < 2 ^ (bits + m)" by (simp add: power_add)
  have "(2 :: nat) ^ (bits + m) \<le> 2 ^ 16" using Cons.prems(1) m n by (intro power_increasing) auto
  then have "unat buff * 2 ^ m + unat c < 2 ^ 16" using lt by linarith
  then have "unat buff * 2 ^ m < 2 ^ 16" by linarith
  then have "take_bit 16 (push_bit m (unat buff)) = unat buff * 2 ^ m"
    by (simp only: push_bit_eq_mult take_bit_nat_eq_self)
  moreover have "unat (push_bit m buff) = take_bit 16 (push_bit m (unat buff))" by (simp add: unsigned_push_bit_eq)
  ultimately have pb: "unat (push_bit m buff) = unat buff * 2 ^ m" by simp
  have "unat c < 2 ^ 16" by (rule less_trans [OF unat_byte_lt]) simp
  then have uc: "unat (ucast c :: u16) = unat c" by (simp add: unsigned_ucast_eq take_bit_nat_eq_self)
  have "push_bit m buff AND ucast c = 0"
  proof (rule bit_word_eqI)
    fix i assume "i < LENGTH(16)"
    show "bit (push_bit m buff AND ucast c) i = bit (0 :: u16) i"
    proof (cases "i < m")
      case True
      then show ?thesis by (simp add: bit_simps)
    next
      case False
      have "unat c < 2 ^ i" using c False by (meson less_le_trans not_less one_le_numeral power_increasing)
      then have "\<not> bit (unat c) i" by (simp add: bit_iff_odd)
      then show ?thesis by (simp add: bit_simps bit_unsigned_iff)
    qed
  qed
  then have "?b = push_bit m buff + ucast c" by (simp add: disjunctive_add_eq_or)
  then have ub: "unat ?b = unat buff * 2 ^ m + unat c"
    using \<open>unat buff * 2 ^ m + unat c < 2 ^ 16\<close> by (simp add: unat_word_ariths pb uc)
  have b16: "bits + m < 16" using Cons.prems(1) m n by simp
  note g = emit_groups_spec [OF n b16 _ e(1)]
  have ih: "unat b1 * 2 ^ (m * length cs) + digits m cs = digits n o2 * 2 ^ bits' + unat buff' \<and>
    unat buff' < 2 ^ bits' \<and> bits' < n \<and> n * length o2 + bits' = k1 + m * length cs \<and> list_all (\<lambda>d. unat d < 2 ^ n) o2"
    by (rule Cons.IH [OF _ _ _ e(2)]) (use g ub lt Cons.prems(3) in auto)
  have "unat buff * 2 ^ (m * length (c # cs)) + digits m (c # cs) = unat ?b * 2 ^ (m * length cs) + digits m cs"
    by (simp add: digits_Cons ub power_add algebra_simps)
  also have "\<dots> = digits n o1 * 2 ^ k1 * 2 ^ (m * length cs) + (unat b1 * 2 ^ (m * length cs) + digits m cs)"
    using g(1) ub lt by (simp add: algebra_simps)
  also have "\<dots> = digits n o1 * 2 ^ (n * length o2 + bits') + (digits n o2 * 2 ^ bits' + unat buff')"
    using ih by (simp add: power_add flip: mult.assoc)
  also have "\<dots> = digits n out * 2 ^ bits' + unat buff'" by (simp add: e(3) digits_append power_add algebra_simps)
  finally show ?case using ih g(4,5) ub lt by (simp add: e(3) algebra_simps)
qed

section \<open>The conversions are inverse\<close>

lemma regroup_conv:
  assumes "0 < m" "m \<le> 8" "0 < n" "n \<le> 8" "list_all (\<lambda>c. unat c < 2 ^ m) cs"
  shows "\<exists>out buff bits. regroup m n cs 0 0 = (out, buff, bits) \<and>
    digits m cs = digits n out * 2 ^ bits + unat buff \<and> unat buff < 2 ^ bits \<and> bits < n \<and>
    n * length out + bits = m * length cs \<and> list_all (\<lambda>d. unat d < 2 ^ n) out"
proof -
  obtain out buff bits where r: "regroup m n cs 0 0 = (out, buff, bits)" by (cases "regroup m n cs 0 0")
  from regroup_spec [OF assms(1-4) _ _ assms(5) r] assms(3) r show ?thesis by auto
qed

lemma bytes_small: "list_all (\<lambda>c :: u8. unat c < 2 ^ 8) cs"
  by (simp add: list_all_iff)

lemma conv8to5_spec:
  obtains pad where "pad < 5" "digits 5 (conv8to5 bs) = digits 8 bs * 2 ^ pad"
    "5 * length (conv8to5 bs) = 8 * length bs + pad" "list_all (\<lambda>d. unat d < 2 ^ 5) (conv8to5 bs)"
proof -
  obtain out buff bits where r: "regroup 8 5 bs 0 0 = (out, buff, bits)"
    "digits 8 bs = digits 5 out * 2 ^ bits + unat buff" "unat buff < 2 ^ bits" "bits < 5"
    "5 * length out + bits = 8 * length bs" "list_all (\<lambda>d. unat d < 2 ^ 5) out"
    using regroup_conv [of 8 5 bs] bytes_small [of bs] by auto
  show thesis
  proof (cases "bits = 0")
    case True
    then show thesis using r that [of 0] by (simp add: conv8to5_def)
  next
    case False
    let ?d = "ucast (push_bit (5 - bits) buff) :: u8"
    have "unat buff * 2 ^ (5 - bits) < 2 ^ bits * 2 ^ (5 - bits)" using r(3) by simp
    also have "\<dots> = 2 ^ 5" using r(4) by (simp flip: power_add)
    finally have lt: "unat buff * 2 ^ (5 - bits) < 2 ^ 5" .
    then have "take_bit 16 (push_bit (5 - bits) (unat buff)) = unat buff * 2 ^ (5 - bits)"
      by (simp add: push_bit_eq_mult take_bit_nat_eq_self)
    then have "unat (push_bit (5 - bits) buff) = unat buff * 2 ^ (5 - bits)" by (simp add: unsigned_push_bit_eq)
    then have d: "unat ?d = unat buff * 2 ^ (5 - bits)" using lt by (simp add: unsigned_ucast_eq take_bit_nat_eq_self)
    have c: "conv8to5 bs = out @ [?d]" using r(1) False by (simp add: conv8to5_def)
    have "digits 5 (conv8to5 bs) = digits 5 out * 2 ^ 5 + unat buff * 2 ^ (5 - bits)"
      unfolding c by (simp add: digits_append digits_Cons d)
    also have "(2 :: nat) ^ 5 = 2 ^ bits * 2 ^ (5 - bits)" using r(4) by (simp flip: power_add)
    finally have "digits 5 (conv8to5 bs) = digits 8 bs * 2 ^ (5 - bits)" unfolding r(2) by (simp add: algebra_simps)
    then show thesis using that [of "5 - bits"] False r(4-6) lt d by (simp add: c)
  qed
qed

lemma conv5to8_conv8to5: "conv5to8 (conv8to5 bs) = bs"
proof -
  obtain pad where p: "pad < 5" "digits 5 (conv8to5 bs) = digits 8 bs * 2 ^ pad"
    "5 * length (conv8to5 bs) = 8 * length bs + pad" "list_all (\<lambda>d. unat d < 2 ^ 5) (conv8to5 bs)"
    by (rule conv8to5_spec)
  have "\<exists>out buff bits. regroup 5 8 (conv8to5 bs) 0 0 = (out, buff, bits) \<and>
    digits 5 (conv8to5 bs) = digits 8 out * 2 ^ bits + unat buff \<and> unat buff < 2 ^ bits \<and> bits < 8 \<and>
    8 * length out + bits = 5 * length (conv8to5 bs) \<and> list_all (\<lambda>d. unat d < 2 ^ 8) out"
    by (rule regroup_conv [OF _ _ _ _ p(4)]) simp_all
  then obtain out buff bits where r: "regroup 5 8 (conv8to5 bs) 0 0 = (out, buff, bits)"
    "digits 5 (conv8to5 bs) = digits 8 out * 2 ^ bits + unat buff" "unat buff < 2 ^ bits" "bits < 8"
    "8 * length out + bits = 5 * length (conv8to5 bs)"
    by blast
  have eq: "8 * length out + bits = 8 * length bs + pad" using r(5) p(3) by simp
  have "bits = (8 * length out + bits) mod 8" using r(4) by simp
  also have "\<dots> = pad" unfolding eq using p(1) by simp
  finally have len: "length out = length bs" "bits = pad" using eq by simp_all
  have same: "digits 8 out * 2 ^ bits + unat buff = digits 8 bs * 2 ^ bits" using r(2) p(2) unfolding len(2) by (rule trans [OF sym])
  have "digits 8 out = (digits 8 out * 2 ^ bits + unat buff) div 2 ^ bits" using r(3) by simp
  also have "\<dots> = digits 8 bs" unfolding same by simp
  finally have "out = bs" by (intro digits_inj [OF len(1) bytes_small bytes_small])
  then show ?thesis using r(1) by (simp add: conv5to8_def)
qed

lemma conv8to5_small: "list_all (\<lambda>d. unat d < 32) (conv8to5 bs)"
  by (rule conv8to5_spec [of bs]) simp

lemma length_conv8to5_40: "length bs = 5 \<Longrightarrow> length (conv8to5 bs) = 8"
  by (rule conv8to5_spec [of bs]) simp

section \<open>The checksum has 40 bits\<close>

lemma polymod_step_40: "take_bit 40 (polymod_step c d) = polymod_step c d" if "unat d < 32" for d
proof -
  have m: "(0x07ffffffff :: u64) = mask 35" by (simp add: mask_eq_exp_minus_1)
  have "take_bit 40 (push_bit 5 (c AND mask 35)) = push_bit 5 (c AND mask 35)" for c :: u64
    by (rule bit_word_eqI) (auto simp: bit_simps)
  moreover have "take_bit 40 (ucast d :: u64) = ucast d"
  proof -
    have "take_bit 40 (unat d) = unat d" "take_bit 64 (unat d) = unat d" using that by (simp_all add: take_bit_nat_eq_self)
    then show ?thesis by (simp add: word_unat_eq_iff unsigned_take_bit_eq unsigned_ucast_eq)
  qed
  ultimately show ?thesis unfolding polymod_step_def Let_def m by (simp add: take_bit_xor)
qed

lemma polymod_40: "list_all (\<lambda>d. unat d < 32) vs \<Longrightarrow> take_bit 40 (polymod vs) = polymod vs"
proof -
  have "take_bit 40 c = c \<Longrightarrow> list_all (\<lambda>d. unat d < 32) vs \<Longrightarrow> take_bit 40 (foldl polymod_step c vs) = foldl polymod_step c vs" for c
    by (induction vs arbitrary: c) (simp_all add: polymod_step_40)
  from this [of 1] show "list_all (\<lambda>d. unat d < 32) vs \<Longrightarrow> take_bit 40 (polymod vs) = polymod vs"
    by (simp add: polymod_def take_bit_xor)
qed

lemma fivebit_prefix_small: "list_all (\<lambda>d. unat d < 32) (fivebit_prefix p)"
  unfolding fivebit_prefix_def prefix_as_str_def by (cases p; simp only: prefix.case; code_simp)

lemma checksum_40: "list_all (\<lambda>d. unat d < 32) payload \<Longrightarrow> take_bit 40 (checksum payload (fivebit_prefix p)) = checksum payload (fivebit_prefix p)"
  unfolding checksum_def by (rule polymod_40) (use fivebit_prefix_small [of p] in \<open>auto simp: list_all_iff\<close>)

lemma drop_le_bytes: "drop k (le_bytes (k + m) x) = le_bytes m (x div 256 ^ k)"
  by (induction k arbitrary: x) (simp_all add: div_mult2_eq)

text \<open>The five low bytes of a 40-bit value, in big-endian order, give it back.\<close>

lemma be_40: "take_bit 40 v = v \<Longrightarrow> u64_from_be (replicate 3 0 @ drop 3 (u64_to_be v)) = v" "length (drop 3 (u64_to_be v)) = 5"
proof -
  show "length (drop 3 (u64_to_be v)) = 5" by (simp add: u64_to_be_def)
  assume v: "take_bit 40 v = v"
  then have "take_bit 40 (unat v) = unat v" by (metis unsigned_take_bit_eq)
  then have lt: "unat v < 2 ^ 40" by (metis take_bit_nat_less_exp)
  then have "unat v div 256 ^ 5 = 0" by simp
  then have "drop 5 (u64_to_le v) = replicate 3 0"
    using drop_le_bytes [of 5 3 "unat v"] by (simp add: u64_to_le_def le_bytes_0)
  then have "u64_to_le v = take 5 (u64_to_le v) @ replicate 3 0" by (metis append_take_drop_id)
  moreover have "drop 3 (u64_to_be v) = rev (take 5 (u64_to_le v))" by (simp add: u64_to_be_def drop_rev)
  ultimately show "u64_from_be (replicate 3 0 @ drop 3 (u64_to_be v)) = v"
    using u64_le_roundtrip [of v] by (simp add: u64_from_be_def)
qed

section \<open>Reading back what was written\<close>

lemma rev_char_charset: "unat c < 32 \<Longrightarrow> rev_char (CHARSET ! unat c) = c"
proof -
  assume "unat c < 32"
  moreover have "list_all (\<lambda>i. rev_char (CHARSET ! i) = word_of_nat i) [0..<32]" by code_simp
  ultimately have "rev_char (CHARSET ! unat c) = word_of_nat (unat c)" by (simp add: list_all_length)
  then show ?thesis by simp
qed

lemma decode_chars:
  assumes "list_all (\<lambda>d. unat d < 32) xs"
  shows "List.find (\<lambda>b. rev_char b = 100) (map (\<lambda>c. CHARSET ! unat c) xs) = None"
    "map rev_char (map (\<lambda>c. CHARSET ! unat c) xs) = xs"
proof -
  have "rev_char (CHARSET ! unat c) \<noteq> 100" if "c \<in> set xs" for c
  proof -
    have "unat c < 32" using assms that by (simp add: list_all_iff)
    then show ?thesis using rev_char_charset [of c] by (auto simp: word_unat_eq_iff)
  qed
  then show "List.find (\<lambda>b. rev_char b = 100) (map (\<lambda>c. CHARSET ! unat c) xs) = None" by (auto simp: find_None_iff)
  show "map rev_char (map (\<lambda>c. CHARSET ! unat c) xs) = xs"
    using assms rev_char_charset by (simp add: list_all_iff map_idI)
qed

lemma split_once_append: "c \<notin> set xs \<Longrightarrow> split_once c (xs @ c # ys) = Some (xs, ys)"
  by (induction xs) auto

lemma prefix_text: "0x31 \<notin> set (prefix_as_str p)" "prefix_try_from (prefix_as_str p) = Some p"
  unfolding prefix_as_str_def by (cases p; simp only: prefix.case; code_simp)+

lemma version_byte: "version_try_from (version_as_u8 v) = Some v"
  by (cases v) (simp_all add: version_try_from_def)

lemma decode_encode_payload:
  "decode_payload (addr_prefix a) (encode_payload a) = map_option Inr (address_new (addr_prefix a) (addr_version a) (addr_payload a))"
proof -
  let ?payload = "conv8to5 (version_as_u8 (addr_version a) # addr_payload a)"
  let ?sum = "checksum ?payload (fivebit_prefix (addr_prefix a))"
  let ?tail = "conv8to5 (drop 3 (u64_to_be ?sum))"
  let ?text = "map (\<lambda>c. CHARSET ! unat c) (?payload @ ?tail)"
  have small: "list_all (\<lambda>d. unat d < 32) (?payload @ ?tail)" using conv8to5_small by simp
  have len: "length ?tail = 8" by (rule length_conv8to5_40 [OF be_40(2)])
  have sum: "u64_from_be (replicate 3 0 @ drop 3 (u64_to_be ?sum)) = ?sum" by (rule be_40(1) [OF checksum_40 [OF conv8to5_small]])
  have enc: "encode_payload a = ?text" by (simp add: encode_payload_def Let_def)
  have "length ?text - 8 = length ?payload" using len by simp
  then have parts: "take (length ?text - 8) (map rev_char ?text) = ?payload" "drop (length ?text - 8) (map rev_char ?text) = ?tail"
    unfolding decode_chars(2) [OF small] by simp_all
  have be: "conv5to8 ?tail = drop 3 (u64_to_be ?sum)" "length (replicate 3 0 @ drop 3 (u64_to_be ?sum)) = 8"
    using be_40(2) [of ?sum] by (simp_all only: conv5to8_conv8to5 length_append length_replicate)
  have ge: "\<not> length ?text < 8" using len by simp
  show ?thesis
    unfolding enc decode_payload_def decode_chars(1) [OF small] option.case Let_def parts be(1) conv5to8_conv8to5 sum
    using be(2) ge by (simp add: version_byte)
qed

section \<open>Properties\<close>

text \<open>
  C35: The text of an address is read back as the address, for every prefix, version and
  payload of the length of the version.  A text that encodes a payload of another length, with
  a correct checksum, is not rejected with an error: parsing it panics.
\<close>

theorem address_text_roundtrip:
  "address_try_from (address_to_string a) =
     (if length (addr_payload a) = public_key_len (addr_version a) then Some (Inr a) else None)"
proof -
  have "split_once 0x31 (address_to_string a) = Some (prefix_as_str (addr_prefix a), encode_payload a)"
    using split_once_append [OF prefix_text(1)] by (simp add: address_to_string_def ascii_def)
  then have "address_try_from (address_to_string a) = decode_payload (addr_prefix a) (encode_payload a)"
    by (simp add: address_try_from_def prefix_text)
  then show ?thesis by (simp add: decode_encode_payload address_new_def)
qed

text \<open>
  Converting bytes to five-bit groups and back gives the bytes, and the groups are in the
  range of the character table.
\<close>

theorem regrouping_roundtrip: "conv5to8 (conv8to5 bs) = bs \<and> list_all (\<lambda>d. unat d < length CHARSET) (conv8to5 bs)"
proof -
  have "length CHARSET = 32" by (simp add: CHARSET_def ascii_def)
  then show ?thesis using conv5to8_conv8to5 conv8to5_small by simp
qed

end
