(* ===== verification/Smt.thy ===== *)
theory Smt
  imports Tx_Types
begin

text \<open>
  The sparse Merkle tree (\<open>crypto/smt/src/lib.rs\<close>).  The trait \<open>NodeStore\<close> is a record of its
  two operations; \<open>MemStore\<close> and \<open>OverlayStore\<close> are values of it.  The Poseidon2 sponge is a
  third-party function and hence the parameter \<open>P\<close>, from lists of field elements to digests of
  four field elements; a field element is its canonical representative.
\<close>

type_synonym h256 = bytes
type_synonym sponge = "nat list \<Rightarrow> nat list"

definition EMPTY :: h256 where "EMPTY = replicate 32 0"
definition TREE_DEPTH :: nat where "TREE_DEPTH = 256"

datatype node = Leaf h256 h256 | Branch h256 h256

datatype smt_error = MissingNode h256 | DepthExceeded

section \<open>Hashing\<close>

definition goldilocks_p :: nat where "goldilocks_p = 2 ^ 64 - 2 ^ 32 + 1"

definition bytes_to_goldilocks :: "bytes \<Rightarrow> nat list" where
  "bytes_to_goldilocks bs = map (\<lambda>i. le_nat (take 8 (drop (i * 8) bs)) mod goldilocks_p) [0..<4]"

definition goldilocks_to_bytes :: "nat list \<Rightarrow> h256" where
  "goldilocks_to_bytes fs = concat (map (le_bytes 8) fs)"

definition domain_from_bytes :: "bytes \<Rightarrow> nat list" where
  "domain_from_bytes bs = (let n = min (length bs) 32 in bytes_to_goldilocks (take n bs @ replicate (32 - n) 0))"

definition leaf_domain :: "nat list" where "leaf_domain = domain_from_bytes (ascii ''SAHYADRI_SMT_LEAF_V1'')"
definition branch_domain :: "nat list" where "branch_domain = domain_from_bytes (ascii ''SAHYADRI_SMT_BRANCH_V1'')"
definition key_domain :: "nat list" where "key_domain = domain_from_bytes (ascii ''SAHYADRI_SMT_KEY_V1'')"

definition hash_leaf :: "sponge \<Rightarrow> h256 \<Rightarrow> h256 \<Rightarrow> h256" where
  "hash_leaf P key val = goldilocks_to_bytes (P (leaf_domain @ bytes_to_goldilocks key @ bytes_to_goldilocks val))"

definition hash_branch :: "sponge \<Rightarrow> h256 \<Rightarrow> h256 \<Rightarrow> h256" where
  "hash_branch P left right =
     goldilocks_to_bytes (P (branch_domain @ bytes_to_goldilocks left @ bytes_to_goldilocks right))"

definition pad32 :: "bytes \<Rightarrow> bytes" where
  "pad32 data = (let padded = data @ replicate ((32 - length data mod 32) mod 32) 0
     in if padded = [] then replicate 32 0 else padded)"

fun chunks32 :: "nat \<Rightarrow> bytes \<Rightarrow> bytes list" where
  "chunks32 0 bs = []"
| "chunks32 (Suc n) bs = take 32 bs # chunks32 n (drop 32 bs)"

definition hash_key :: "sponge \<Rightarrow> bytes \<Rightarrow> h256" where
  "hash_key P data =
     (let padded = pad32 data
      in goldilocks_to_bytes (P (key_domain @ concat (map bytes_to_goldilocks (chunks32 (length padded div 32) padded)))))"

definition node_hash :: "sponge \<Rightarrow> node \<Rightarrow> h256" where
  "node_hash P n = (case n of Leaf key val \<Rightarrow> hash_leaf P key val | Branch left right \<Rightarrow> hash_branch P left right)"

definition node_encode :: "node \<Rightarrow> bytes" where
  "node_encode n = (case n of Leaf key val \<Rightarrow> 0 # key @ val | Branch left right \<Rightarrow> 1 # left @ right)"

definition node_decode :: "bytes \<Rightarrow> node option" where
  "node_decode bs =
     (if length bs \<noteq> 65 then None
      else let a = take 32 (drop 1 bs); b = take 32 (drop 33 bs)
           in if bs ! 0 = 0 then Some (Leaf a b)
              else if bs ! 0 = 1 then Some (Branch a b)
              else None)"

text \<open>The bit of a key at a depth; the index is below 256 wherever the code calls it on 32-byte keys.\<close>

definition key_bit :: "h256 \<Rightarrow> nat \<Rightarrow> u8" where
  "key_bit key i = drop_bit (7 - i mod 8) (key ! (i div 8)) AND 1"

section \<open>Node stores\<close>

record 's node_store =
  ns_get :: "'s \<Rightarrow> h256 \<Rightarrow> node option"
  ns_put :: "node \<Rightarrow> 's \<Rightarrow> h256 \<times> 's"

type_synonym mem_store = "h256 \<rightharpoonup> node"

definition mem_store_ops :: "sponge \<Rightarrow> mem_store node_store" where
  "mem_store_ops P =
     \<lparr> ns_get = (\<lambda>nodes hash. nodes hash),
       ns_put = (\<lambda>node nodes. let h = node_hash P node in (h, nodes(h \<mapsto> node))) \<rparr>"

record 'b overlay_store =
  ov_base :: 'b
  ov_pending :: "h256 \<rightharpoonup> node"

definition overlay_new :: "'b \<Rightarrow> 'b overlay_store" where
  "overlay_new base = \<lparr> ov_base = base, ov_pending = Map.empty \<rparr>"

definition overlay_store_ops :: "sponge \<Rightarrow> 'b node_store \<Rightarrow> 'b overlay_store node_store" where
  "overlay_store_ops P base_ops =
     \<lparr> ns_get = (\<lambda>ov hash. case ov_pending ov hash of
          Some n \<Rightarrow> Some n | None \<Rightarrow> ns_get base_ops (ov_base ov) hash),
       ns_put = (\<lambda>node ov. let h = node_hash P node in (h, ov\<lparr>ov_pending := (ov_pending ov)(h \<mapsto> node)\<rparr>)) \<rparr>"

section \<open>The tree operations\<close>

text \<open>A fallible operation on a store.\<close>

type_synonym ('s, 'a) smt_op = "('s, smt_error, 'a) sm"

definition get_node :: "'s node_store \<Rightarrow> h256 \<Rightarrow> ('s, node) smt_op" where
  "get_node ops h = (\<lambda>s. (ok_or (MissingNode h) (ns_get ops s h), s))"

definition put_node :: "'s node_store \<Rightarrow> node \<Rightarrow> ('s, h256) smt_op" where
  "put_node ops n = (\<lambda>s. case ns_put ops n s of (h, s') \<Rightarrow> (Inr h, s'))"

definition is_leaf :: "'s node_store \<Rightarrow> h256 \<Rightarrow> ('s, bool) smt_op" where
  "is_leaf ops h = sbind (get_node ops h) (\<lambda>n. sret (case n of Leaf _ _ \<Rightarrow> True | Branch _ _ \<Rightarrow> False))"

text \<open>The arms of the \<open>match\<close> are tried in order; a guard that fails falls through to the last arm.\<close>

definition normalize :: "'s node_store \<Rightarrow> h256 \<Rightarrow> h256 \<Rightarrow> ('s, h256) smt_op" where
  "normalize ops l r =
     (if l = EMPTY \<and> r = EMPTY then sret EMPTY
      else if l \<noteq> EMPTY \<and> r = EMPTY
        then sbind (is_leaf ops l) (\<lambda>b. if b then sret l else put_node ops (Branch l r))
      else if l = EMPTY \<and> r \<noteq> EMPTY
        then sbind (is_leaf ops r) (\<lambda>b. if b then sret r else put_node ops (Branch l r))
      else put_node ops (Branch l r))"

function split_leaves :: "'s node_store \<Rightarrow> nat \<Rightarrow> h256 \<Rightarrow> h256 \<Rightarrow> h256 \<Rightarrow> h256 \<Rightarrow> ('s, h256) smt_op" where
  "split_leaves ops depth ka va kb vb =
     (if depth \<ge> TREE_DEPTH then sthrow DepthExceeded
      else let ba = key_bit ka depth; bb = key_bit kb depth in
        if ba \<noteq> bb then
          sbind (put_node ops (Leaf ka va)) (\<lambda>ha.
          sbind (put_node ops (Leaf kb vb)) (\<lambda>hb.
          put_node ops (if ba = 0 then Branch ha hb else Branch hb ha)))
        else
          sbind (split_leaves ops (depth + 1) ka va kb vb) (\<lambda>child.
          put_node ops (if ba = 0 then Branch child EMPTY else Branch EMPTY child)))"
  by pat_completeness auto
termination
  by (relation "measure (\<lambda>(ops, depth, _). TREE_DEPTH - depth)") auto

declare split_leaves.simps [simp del]

function update_at :: "'s node_store \<Rightarrow> h256 \<Rightarrow> nat \<Rightarrow> h256 \<Rightarrow> h256 option \<Rightarrow> ('s, h256) smt_op" where
  "update_at ops cur depth key val =
     (if cur = EMPTY then
        (case val of Some v \<Rightarrow> put_node ops (Leaf key v) | None \<Rightarrow> sret EMPTY)
      else sbind (get_node ops cur) (\<lambda>node.
        case node of
          Leaf k v \<Rightarrow>
            if k = key then
              (case val of Some nv \<Rightarrow> put_node ops (Leaf k nv) | None \<Rightarrow> sret EMPTY)
            else (case val of
                None \<Rightarrow> sret cur
              | Some nv \<Rightarrow> split_leaves ops depth k v key nv)
        | Branch left right \<Rightarrow>
            if depth \<ge> TREE_DEPTH then sthrow DepthExceeded
            else if key_bit key depth = 0
              then sbind (update_at ops left (depth + 1) key val) (\<lambda>l. normalize ops l right)
              else sbind (update_at ops right (depth + 1) key val) (\<lambda>r. normalize ops left r)))"
  by pat_completeness auto
termination
  by (relation "measure (\<lambda>(ops, h, depth, _). TREE_DEPTH - depth)") auto

declare update_at.simps [simp del]

definition update :: "'s node_store \<Rightarrow> h256 \<Rightarrow> h256 \<Rightarrow> h256 option \<Rightarrow> ('s, h256) smt_op" where
  "update ops root key val = update_at ops root 0 key val"

fun update_many :: "'s node_store \<Rightarrow> h256 \<Rightarrow> (h256 \<times> h256 option) list \<Rightarrow> ('s, h256) smt_op" where
  "update_many ops root [] = sret root"
| "update_many ops root ((key, val) # changes) =
     sbind (update ops root key val) (\<lambda>root. update_many ops root changes)"

text \<open>The loops of \<open>get\<close> and \<open>prove\<close>; the store is only read.\<close>

function get_loop :: "'s node_store \<Rightarrow> 's \<Rightarrow> h256 \<Rightarrow> h256 \<Rightarrow> nat \<Rightarrow> (smt_error, h256 option) result" where
  "get_loop ops s key cur depth =
     (if cur = EMPTY then Inr None
      else case ns_get ops s cur of
        None \<Rightarrow> Inl (MissingNode cur)
      | Some (Leaf k val) \<Rightarrow> Inr (if k = key then Some val else None)
      | Some (Branch left right) \<Rightarrow>
          if depth \<ge> TREE_DEPTH then Inl DepthExceeded
          else get_loop ops s key (if key_bit key depth = 0 then left else right) (depth + 1))"
  by pat_completeness auto
termination
  by (relation "measure (\<lambda>(ops, s, key, cur, depth). TREE_DEPTH - depth)") auto

declare get_loop.simps [simp del]

definition smt_get :: "'s node_store \<Rightarrow> 's \<Rightarrow> h256 \<Rightarrow> h256 \<Rightarrow> (smt_error, h256 option) result" where
  "smt_get ops s root key = get_loop ops s key root 0"

datatype terminal = TermEmpty | TermLeaf h256 h256

record smt_proof =
  siblings :: "h256 list"
  terminal_of :: terminal

function prove_loop :: "'s node_store \<Rightarrow> 's \<Rightarrow> h256 \<Rightarrow> h256 list \<Rightarrow> h256 \<Rightarrow> nat \<Rightarrow> (smt_error, smt_proof) result" where
  "prove_loop ops s key sibs cur depth =
     (if cur = EMPTY then Inr \<lparr> siblings = sibs, terminal_of = TermEmpty \<rparr>
      else case ns_get ops s cur of
        None \<Rightarrow> Inl (MissingNode cur)
      | Some (Leaf k val) \<Rightarrow> Inr \<lparr> siblings = sibs, terminal_of = TermLeaf k val \<rparr>
      | Some (Branch left right) \<Rightarrow>
          if depth \<ge> TREE_DEPTH then Inl DepthExceeded
          else if key_bit key depth = 0 then prove_loop ops s key (sibs @ [right]) left (depth + 1)
          else prove_loop ops s key (sibs @ [left]) right (depth + 1))"
  by pat_completeness auto
termination
  by (relation "measure (\<lambda>(ops, s, key, sibs, cur, depth). TREE_DEPTH - depth)") auto

declare prove_loop.simps [simp del]

definition prove :: "'s node_store \<Rightarrow> 's \<Rightarrow> h256 \<Rightarrow> h256 \<Rightarrow> (smt_error, smt_proof) result" where
  "prove ops s root key = prove_loop ops s key [] root 0"

section \<open>Verifying proofs\<close>

fun fold_siblings :: "sponge \<Rightarrow> h256 \<Rightarrow> nat \<Rightarrow> h256 list \<Rightarrow> h256 \<Rightarrow> h256" where
  "fold_siblings P key i [] h = h"
| "fold_siblings P key i (sib # sibs) h =
     (let h = fold_siblings P key (i + 1) sibs h
      in if key_bit key i = 0 then hash_branch P h sib else hash_branch P sib h)"

definition terminal_hash :: "sponge \<Rightarrow> terminal \<Rightarrow> h256" where
  "terminal_hash P t = (case t of TermEmpty \<Rightarrow> EMPTY | TermLeaf key val \<Rightarrow> hash_leaf P key val)"

text \<open>\<open>None\<close> is the panic of the index of \<open>bit\<close>, on a proof with more than 256 siblings.\<close>

definition compute_root :: "sponge \<Rightarrow> h256 \<Rightarrow> smt_proof \<Rightarrow> h256 option" where
  "compute_root P key p =
     (if length (siblings p) > TREE_DEPTH then None
      else Some (fold_siblings P key 0 (siblings p) (terminal_hash P (terminal_of p))))"

definition shares_prefix :: "h256 \<Rightarrow> h256 \<Rightarrow> nat \<Rightarrow> bool" where
  "shares_prefix a b n = list_all (\<lambda>i. key_bit a i = key_bit b i) [0..<n]"

definition verify_inclusion :: "sponge \<Rightarrow> h256 \<Rightarrow> h256 \<Rightarrow> h256 \<Rightarrow> smt_proof \<Rightarrow> bool option" where
  "verify_inclusion P root key val p =
     (case terminal_of p of
        TermLeaf k v \<Rightarrow>
          if k = key \<and> v = val then map_option (\<lambda>r. r = root) (compute_root P key p) else Some False
      | TermEmpty \<Rightarrow> Some False)"

text \<open>Two different 32-byte keys differ in one of their 256 bits, so \<open>shares_prefix\<close> stops in range.\<close>

definition verify_exclusion :: "sponge \<Rightarrow> h256 \<Rightarrow> h256 \<Rightarrow> smt_proof \<Rightarrow> bool option" where
  "verify_exclusion P root key p =
     (case terminal_of p of
        TermEmpty \<Rightarrow> map_option (\<lambda>r. r = root) (compute_root P key p)
      | TermLeaf k _ \<Rightarrow>
          if k \<noteq> key \<and> shares_prefix k key (min (length (siblings p)) TREE_DEPTH) \<and>
             length (siblings p) \<le> TREE_DEPTH
          then map_option (\<lambda>r. r = root) (compute_root P key p) else Some False)"

section \<open>Pages of leaves\<close>

definition set_bit_at :: "h256 \<Rightarrow> nat \<Rightarrow> h256" where
  "set_bit_at key i = key[i div 8 := (key ! (i div 8)) OR push_bit (7 - i mod 8) 1]"

definition subtree_max :: "h256 \<Rightarrow> nat \<Rightarrow> h256" where
  "subtree_max path depth = fold (\<lambda>i m. set_bit_at m i) [depth..<TREE_DEPTH] path"

text \<open>The order of byte arrays.\<close>

fun bytes_less :: "bytes \<Rightarrow> bytes \<Rightarrow> bool" where
  "bytes_less (a # as) (b # bs) = (a < b \<or> a = b \<and> bytes_less as bs)"
| "bytes_less [] (b # bs) = True"
| "bytes_less _ [] = False"

text \<open>\<open>after.map_or(true, |a| key > *a)\<close>\<close>

definition is_after :: "h256 option \<Rightarrow> h256 \<Rightarrow> bool" where
  "is_after after key = (case after of None \<Rightarrow> True | Some a \<Rightarrow> bytes_less a key)"

text \<open>The number of nodes that a subtree at a depth can have.\<close>

definition subtree_nodes :: "nat \<Rightarrow> nat" where
  "subtree_nodes d = 2 * 2 ^ (256 - d) - 1"

lemma subtree_nodes_branch: "d < 256 \<Longrightarrow> subtree_nodes (Suc d) + subtree_nodes (Suc d) < subtree_nodes d"
proof -
  assume "d < 256"
  then have "256 - d = Suc (256 - Suc d)" by simp
  then have "(2::nat) ^ (256 - d) = 2 * 2 ^ (256 - Suc d)" by (simp only: power_Suc)
  moreover have "(1::nat) \<le> 2 ^ (256 - Suc d)" by simp
  ultimately show ?thesis unfolding subtree_nodes_def by linarith
qed

lemma subtree_nodes_pos: "0 < subtree_nodes d"
proof -
  have "(1::nat) \<le> 2 ^ (256 - d)" by simp
  then show ?thesis unfolding subtree_nodes_def by linarith
qed

text \<open>The stack has its top first.\<close>

function leaves_loop :: "'s node_store \<Rightarrow> 's \<Rightarrow> h256 option \<Rightarrow> nat \<Rightarrow> (h256 \<times> nat \<times> h256) list \<Rightarrow>
    (h256 \<times> h256) list \<Rightarrow> (smt_error, (h256 \<times> h256) list) result" where
  "leaves_loop ops s after limit [] out = Inr out"
| "leaves_loop ops s after limit ((h, depth, path) # stack) out =
     (if h = EMPTY then leaves_loop ops s after limit stack out
      else if (case after of None \<Rightarrow> False | Some a \<Rightarrow> \<not> bytes_less a (subtree_max path depth))
        then leaves_loop ops s after limit stack out
      else case ns_get ops s h of
        None \<Rightarrow> Inl (MissingNode h)
      | Some (Leaf key val) \<Rightarrow>
          if is_after after key then
            (let out = out @ [(key, val)]
             in if length out \<ge> limit then Inr out else leaves_loop ops s after limit stack out)
          else leaves_loop ops s after limit stack out
      | Some (Branch left right) \<Rightarrow>
          if depth \<ge> TREE_DEPTH then Inl DepthExceeded
          else leaves_loop ops s after limit
            ((left, depth + 1, path) # (right, depth + 1, set_bit_at path depth) # stack) out)"
  by pat_completeness auto
termination
  by (relation "measure (\<lambda>(ops, s, after, limit, stack, out).
        sum_list (map (\<lambda>(h, d, p). subtree_nodes d) stack))")
    (use subtree_nodes_branch in \<open>simp_all add: TREE_DEPTH_def subtree_nodes_pos\<close>)

declare leaves_loop.simps(2) [simp del]

definition leaves_after ::
  "'s node_store \<Rightarrow> 's \<Rightarrow> h256 \<Rightarrow> h256 option \<Rightarrow> nat \<Rightarrow> (smt_error, (h256 \<times> h256) list) result" where
  "leaves_after ops s root after limit =
     (if root = EMPTY \<or> limit = 0 then Inr []
      else leaves_loop ops s after limit [(root, 0, replicate 32 0)] [])"

end
