(* ===== verification/Smt_Tree.thy ===== *)
theory Smt_Tree
  imports Smt
begin

text \<open>
  The trees that the roots of the sparse Merkle tree stand for, as a datatype, with the tree
  operations on it.  A canonical tree is determined by the finite map of its leaves, and the
  operations on trees are the updates of that map.
\<close>

datatype tree = TEmpty | TLeaf h256 h256 | TBranch tree tree

fun tree_hash :: "sponge \<Rightarrow> tree \<Rightarrow> h256" where
  "tree_hash P TEmpty = EMPTY"
| "tree_hash P (TLeaf k v) = hash_leaf P k v"
| "tree_hash P (TBranch l r) = hash_branch P (tree_hash P l) (tree_hash P r)"

fun tree_nodes :: "sponge \<Rightarrow> tree \<Rightarrow> node set" where
  "tree_nodes P TEmpty = {}"
| "tree_nodes P (TLeaf k v) = {Leaf k v}"
| "tree_nodes P (TBranch l r) =
     insert (Branch (tree_hash P l) (tree_hash P r)) (tree_nodes P l \<union> tree_nodes P r)"

fun leaves :: "tree \<Rightarrow> (h256 \<times> h256) list" where
  "leaves TEmpty = []"
| "leaves (TLeaf k v) = [(k, v)]"
| "leaves (TBranch l r) = leaves l @ leaves r"

abbreviation tree_keys :: "tree \<Rightarrow> h256 set" where
  "tree_keys t \<equiv> fst ` set (leaves t)"

fun t_lookup :: "nat \<Rightarrow> h256 \<Rightarrow> tree \<Rightarrow> h256 option" where
  "t_lookup d key TEmpty = None"
| "t_lookup d key (TLeaf k v) = (if k = key then Some v else None)"
| "t_lookup d key (TBranch l r) = t_lookup (Suc d) key (if key_bit key d = 0 then l else r)"

function t_split :: "nat \<Rightarrow> h256 \<Rightarrow> h256 \<Rightarrow> h256 \<Rightarrow> h256 \<Rightarrow> tree" where
  "t_split d ka va kb vb =
     (if d \<ge> TREE_DEPTH then TEmpty
      else if key_bit ka d \<noteq> key_bit kb d
        then if key_bit ka d = 0 then TBranch (TLeaf ka va) (TLeaf kb vb) else TBranch (TLeaf kb vb) (TLeaf ka va)
      else let child = t_split (Suc d) ka va kb vb
           in if key_bit ka d = 0 then TBranch child TEmpty else TBranch TEmpty child)"
  by pat_completeness auto
termination
  by (relation "measure (\<lambda>(d, _). TREE_DEPTH - d)") auto

declare t_split.simps [simp del]

fun t_normal :: "tree \<Rightarrow> tree \<Rightarrow> tree" where
  "t_normal TEmpty TEmpty = TEmpty"
| "t_normal (TLeaf k v) TEmpty = TLeaf k v"
| "t_normal TEmpty (TLeaf k v) = TLeaf k v"
| "t_normal l r = TBranch l r"

fun t_update :: "nat \<Rightarrow> h256 \<Rightarrow> h256 option \<Rightarrow> tree \<Rightarrow> tree" where
  "t_update d key val TEmpty = (case val of Some v \<Rightarrow> TLeaf key v | None \<Rightarrow> TEmpty)"
| "t_update d key val (TLeaf k v) =
     (if k = key then (case val of Some nv \<Rightarrow> TLeaf k nv | None \<Rightarrow> TEmpty)
      else (case val of None \<Rightarrow> TLeaf k v | Some nv \<Rightarrow> t_split d k v key nv))"
| "t_update d key val (TBranch l r) =
     (if key_bit key d = 0 then t_normal (t_update (Suc d) key val l) r
      else t_normal l (t_update (Suc d) key val r))"

text \<open>
  Canonical trees: a branch sends keys left and right by their bit at its depth, and has at
  least two leaves.
\<close>

fun canonical :: "nat \<Rightarrow> tree \<Rightarrow> bool" where
  "canonical d TEmpty = True"
| "canonical d (TLeaf k v) = (length k = 32)"
| "canonical d (TBranch l r) =
     (d < TREE_DEPTH \<and> canonical (Suc d) l \<and> canonical (Suc d) r \<and> t_normal l r = TBranch l r \<and>
      list_all (\<lambda>(k, v). key_bit k d = 0) (leaves l) \<and> list_all (\<lambda>(k, v). key_bit k d \<noteq> 0) (leaves r))"

section \<open>Bits of keys\<close>

lemma key_bit_of_bool: "key_bit key i = of_bool (bit (key ! (i div 8)) (7 - i mod 8))"
  by (simp add: key_bit_def and_one_eq bit_iff_odd_drop_bit mod_2_eq_odd)

lemma key_bit_cases: "key_bit k i = 0 \<or> key_bit k i = 1"
  by (simp add: key_bit_of_bool)

lemma key_bit_both: "key_bit a i \<noteq> 0 \<Longrightarrow> key_bit b i \<noteq> 0 \<Longrightarrow> key_bit a i = key_bit b i"
  using key_bit_cases [of a i] key_bit_cases [of b i] by simp

lemma key_bits_differ:
  assumes "length a = 32" "length b = 32" "a \<noteq> b"
  shows "\<exists>i<256. key_bit a i \<noteq> key_bit b i"
proof -
  obtain j where j: "j < 32" "a ! j \<noteq> b ! j"
    using assms by (auto simp: list_eq_iff_nth_eq)
  then obtain n where n: "n < 8" "bit (a ! j) n \<noteq> bit (b ! j) n"
    by (auto simp: bit_eq_iff dest: bit_imp_le_length)
  obtain m where m: "m < 8" "7 - m = n"
    using n(1) by (intro that [of "7 - n"]) simp_all
  let ?i = "8 * j + m"
  have i: "?i < 256" "?i div 8 = j" "7 - ?i mod 8 = n"
    using j m by simp_all
  have "key_bit a ?i \<noteq> key_bit b ?i"
    using n unfolding key_bit_of_bool i by (simp add: of_bool_eq_iff)
  with i(1) show ?thesis by blast
qed

lemma key_bits_eq:
  "length a = 32 \<Longrightarrow> length b = 32 \<Longrightarrow> (\<And>i. i < 256 \<Longrightarrow> key_bit a i = key_bit b i) \<Longrightarrow> a = b"
  using key_bits_differ by blast

section \<open>Trees as maps\<close>

abbreviation tree_map :: "tree \<Rightarrow> h256 \<rightharpoonup> h256" where
  "tree_map t \<equiv> map_of (leaves t)"

lemma leaves_t_normal [simp]: "leaves (t_normal l r) = leaves l @ leaves r"
  by (cases l; cases r) simp_all

lemma canonical_t_normal:
  assumes "canonical (Suc d) l" "canonical (Suc d) r" "d < TREE_DEPTH"
    and "list_all (\<lambda>(k, v). key_bit k d = 0) (leaves l)" "list_all (\<lambda>(k, v). key_bit k d \<noteq> 0) (leaves r)"
  shows "canonical d (t_normal l r)"
  using assms by (cases l; cases r) simp_all

lemma t_split_ok:
  assumes "length ka = 32" "length kb = 32" "ka \<noteq> kb" "\<forall>i<d. key_bit ka i = key_bit kb i"
  shows "set (leaves (t_split d ka va kb vb)) = {(ka, va), (kb, vb)} \<and> canonical d (t_split d ka va kb vb) \<and>
    (\<exists>l r. t_split d ka va kb vb = TBranch l r)"
  using assms
proof (induction d ka va kb vb rule: t_split.induct)
  case (1 d ka va kb vb)
  obtain i where "i < 256" "key_bit ka i \<noteq> key_bit kb i"
    using key_bits_differ [OF 1(2-4)] by blast
  with 1(5) have d: "d < TREE_DEPTH"
    by (metis TREE_DEPTH_def linorder_not_less order_less_trans nat_less_le)
  show ?case
  proof (cases "key_bit ka d = key_bit kb d")
    case False
    then show ?thesis
      using d 1(2,3) key_bit_cases [of ka d] key_bit_cases [of kb d]
      by (subst (1 2 3) t_split.simps) auto
  next
    case True
    have agree: "\<forall>i<Suc d. key_bit ka i = key_bit kb i"
      using 1(5) True by (auto simp: less_Suc_eq)
    obtain l r where c: "set (leaves (t_split (Suc d) ka va kb vb)) = {(ka, va), (kb, vb)}"
      "canonical (Suc d) (t_split (Suc d) ka va kb vb)" "t_split (Suc d) ka va kb vb = TBranch l r"
      using 1(1) [OF _ _ 1(2-4) agree] d True by auto
    have "list_all (\<lambda>(k, v). key_bit k d = key_bit ka d) (leaves (TBranch l r))"
      using c(1) True unfolding list_all_iff c(3) [symmetric] by auto
    then show ?thesis
      using c d True by (subst (1 2 3) t_split.simps) (auto simp: Let_def list_all_iff)
  qed
qed

lemma tree_map_two:
  assumes "set xs = {(a, x), (b, y)}" "a \<noteq> b"
  shows "map_of xs = [a \<mapsto> x, b \<mapsto> y]"
proof (rule ext)
  fix k
  show "map_of xs k = [a \<mapsto> x, b \<mapsto> y] k"
  proof (cases "map_of xs k")
    case None
    then have "k \<noteq> a" "k \<noteq> b" using assms by (force simp: map_of_eq_None_iff)+
    with None show ?thesis by simp
  next
    case (Some z)
    then have "(k, z) \<in> {(a, x), (b, y)}" using assms(1) map_of_SomeD by metis
    then show ?thesis using Some assms(2) by auto
  qed
qed

lemma tree_map_branch:
  assumes "canonical d (TBranch l r)"
  shows "tree_map (TBranch l r) k = (if key_bit k d = 0 then tree_map l k else tree_map r k)"
proof -
  have "key_bit k d = 0 \<Longrightarrow> tree_map r k = None" "key_bit k d \<noteq> 0 \<Longrightarrow> tree_map l k = None"
    using assms by (fastforce simp: map_of_eq_None_iff list_all_iff)+
  then show ?thesis
    by (auto simp: map_add_def split: option.split)
qed

lemma t_lookup_tree_map: "canonical d t \<Longrightarrow> t_lookup d key t = tree_map t key"
proof (induction t arbitrary: d)
  case (TBranch l r)
  then show ?case
    using tree_map_branch [OF TBranch(3), of key] by simp
qed simp_all

text \<open>Below, the keys of a subtree agree with a key on the bits above the subtree.\<close>

definition on_path :: "h256 \<Rightarrow> nat \<Rightarrow> tree \<Rightarrow> bool" where
  "on_path key d t = list_all (\<lambda>(k, v). \<forall>i<d. key_bit k i = key_bit key i) (leaves t)"

lemma on_path_0 [simp]: "on_path key 0 t"
  by (simp add: on_path_def list_all_iff)

lemma on_path_left:
  "on_path key d (TBranch l r) \<Longrightarrow> canonical d (TBranch l r) \<Longrightarrow> key_bit key d = 0 \<Longrightarrow> on_path key (Suc d) l"
  by (auto simp: on_path_def list_all_iff less_Suc_eq)

lemma on_path_right:
  "on_path key d (TBranch l r) \<Longrightarrow> canonical d (TBranch l r) \<Longrightarrow> key_bit key d \<noteq> 0 \<Longrightarrow> on_path key (Suc d) r"
  by (auto simp: on_path_def list_all_iff less_Suc_eq intro: key_bit_both)

theorem t_update_ok:
  assumes "canonical d t" "length key = 32" "on_path key d t"
  shows "canonical d (t_update d key val t) \<and> tree_map (t_update d key val t) = (tree_map t)(key := val) \<and>
    set (leaves (t_update d key val t)) \<subseteq> insert (key, the val) (set (leaves t))"
  using assms
proof (induction d key val t rule: t_update.induct)
  case (1 d key val)
  then show ?case by (auto split: option.split)
next
  case (2 d key val k v)
  show ?case
  proof (cases "k = key \<or> val = None")
    case True
    with 2 show ?thesis by (auto split: option.split)
  next
    case False
    then obtain nv where nv: "val = Some nv" "k \<noteq> key" by auto
    have "\<forall>i<d. key_bit k i = key_bit key i"
      using 2(3) by (simp add: on_path_def)
    from t_split_ok [OF _ 2(2) nv(2) this, of v nv] 2(1) nv show ?thesis
      by (simp add: tree_map_two [OF _ nv(2)] fun_eq_iff)
  qed
next
  case (3 d key val l r)
  have l: "canonical (Suc d) l" and r: "canonical (Suc d) r" and d: "d < TREE_DEPTH"
    and bits: "list_all (\<lambda>(k, v). key_bit k d = 0) (leaves l)" "list_all (\<lambda>(k, v). key_bit k d \<noteq> 0) (leaves r)"
    using 3(3) by simp_all
  show ?case
  proof (cases "key_bit key d = 0")
    case True
    note IH = 3(1) [OF True l 3(4) on_path_left [OF 3(5,3) True]]
    let ?l = "t_update (Suc d) key val l"
    have "list_all (\<lambda>(k, v). key_bit k d = 0) (leaves ?l)"
      using IH bits True by (auto simp: list_all_iff)
    then have "canonical d (t_normal ?l r)"
      using IH r d bits by (intro canonical_t_normal) simp_all
    moreover have "key \<notin> dom (tree_map r)"
      using bits True by (auto simp: list_all_iff dom_map_of_conv_image_fst)
    ultimately show ?thesis
      using True IH by (auto simp: map_add_upd_left fun_eq_iff map_add_def split: option.split)
  next
    case False
    note IH = 3(2) [OF False r 3(4) on_path_right [OF 3(5,3) False]]
    let ?r = "t_update (Suc d) key val r"
    have "list_all (\<lambda>(k, v). key_bit k d \<noteq> 0) (leaves ?r)"
      using IH bits False by (auto simp: list_all_iff)
    then have "canonical d (t_normal l ?r)"
      using IH l d bits by (intro canonical_t_normal) simp_all
    moreover have "tree_map l key = None"
      using bits False by (auto simp: list_all_iff map_of_eq_None_iff)
    ultimately show ?thesis
      using False IH by (auto simp: fun_eq_iff map_add_def split: option.split)
  qed
qed

section \<open>Canonical trees are determined by their maps\<close>

lemma canonical_nonempty: "canonical d t \<Longrightarrow> t \<noteq> TEmpty \<Longrightarrow> leaves t \<noteq> []"
proof (induction t arbitrary: d)
  case (TBranch l r)
  then have "l \<noteq> TEmpty \<or> r \<noteq> TEmpty" by auto
  with TBranch show ?case by auto
qed simp_all

lemma canonical_branch_two:
  "canonical d (TBranch l r) \<Longrightarrow> \<exists>a b. a \<noteq> b \<and> a \<in> tree_keys (TBranch l r) \<and> b \<in> tree_keys (TBranch l r)"
proof (induction "TBranch l r" arbitrary: l r d)
  case (TBranch l r)
  show ?case
  proof (cases "l = TEmpty \<or> r = TEmpty")
    case True
    then consider l' r' where "l = TEmpty" "r = TBranch l' r'" | l' r' where "r = TEmpty" "l = TBranch l' r'"
      using TBranch(3) by (cases l; cases r) auto
    then show ?thesis
    proof cases
      case 1
      then show ?thesis using TBranch(2) [OF 1(2), of "Suc d"] TBranch(3) by simp
    next
      case 2
      then show ?thesis using TBranch(1) [OF 2(2), of "Suc d"] TBranch(3) by simp
    qed
  next
    case False
    then obtain a b where "a \<in> set (leaves l)" "b \<in> set (leaves r)"
      using canonical_nonempty TBranch(3) by (metis canonical.simps(3) list.set_sel(1))
    moreover have "fst a \<noteq> fst b"
      using calculation TBranch(3) by (fastforce simp: list_all_iff)
    ultimately show ?thesis by auto
  qed
qed

lemma tree_keys_dom: "tree_keys t = dom (tree_map t)"
  by (simp add: dom_map_of_conv_image_fst)

theorem canonical_unique:
  assumes "canonical d t" "canonical d u" "tree_map t = tree_map u"
  shows "t = u"
  using assms
proof (induction t arbitrary: d u)
  case TEmpty
  have "tree_keys u = {}"
    unfolding tree_keys_dom TEmpty(3) [symmetric] by simp
  then show ?case using canonical_nonempty [OF TEmpty(2)] by auto
next
  case (TLeaf k v)
  have dom: "tree_keys u = {k}"
    unfolding tree_keys_dom TLeaf(3) [symmetric] by simp
  show ?case
  proof (cases u)
    case (TBranch l r)
    then show ?thesis using canonical_branch_two [of d l r] TLeaf(2) dom by auto
  qed (use TLeaf(3) dom in \<open>auto simp: fun_eq_iff split: if_splits\<close>)
next
  case (TBranch l r)
  have two: "\<exists>a b. a \<noteq> b \<and> a \<in> tree_keys u \<and> b \<in> tree_keys u"
    using canonical_branch_two [OF TBranch(3)] unfolding tree_keys_dom TBranch(5) .
  then obtain l' r' where u: "u = TBranch l' r'"
    by (cases u) auto
  have "tree_map l = tree_map l'" "tree_map r = tree_map r'"
  proof -
    have side: "tree_map x k = None" if "list_all (\<lambda>(k, v). key_bit k d = b) (leaves x) " "key_bit k d \<noteq> b" for x k b
      using that by (auto simp: map_of_eq_None_iff list_all_iff)
    show "tree_map l = tree_map l'"
    proof
      fix k
      show "tree_map l k = tree_map l' k"
        using tree_map_branch [OF TBranch(3), of k] tree_map_branch [of d l' r' k] TBranch(3-5) u
          side [of 0 l k] side [of 0 l' k] by (cases "key_bit k d = 0") simp_all
    qed
    show "tree_map r = tree_map r'"
    proof
      fix k
      have "key_bit k d = 0 \<Longrightarrow> tree_map r k = None \<and> tree_map r' k = None"
        using TBranch(3,4) u by (fastforce simp: map_of_eq_None_iff list_all_iff)
      then show "tree_map r k = tree_map r' k"
        using tree_map_branch [OF TBranch(3), of k] tree_map_branch [of d l' r' k] TBranch(3-5) u
        by (cases "key_bit k d = 0") simp_all
    qed
  qed
  then show ?case
    using TBranch(1) [of "Suc d" l'] TBranch(2) [of "Suc d" r'] TBranch(3,4) u by simp
qed

end
