(* ===== verification/Smt_Store.thy ===== *)
theory Smt_Store
  imports Smt_Tree
begin

text \<open>
  What the tree operations need of a node store, as a locale, and the refinement of the abstract
  trees by the operations on a store.  The hypothesis on the hash function is that it does not
  collide on the nodes at hand and hashes none of them to the root of the empty tree.
\<close>

definition clean :: "sponge \<Rightarrow> node set \<Rightarrow> bool" where
  "clean P N \<longleftrightarrow> inj_on (node_hash P) N \<and> EMPTY \<notin> node_hash P ` N"

lemma clean_subset: "clean P N \<Longrightarrow> M \<subseteq> N \<Longrightarrow> clean P M"
  by (auto simp: clean_def intro: inj_on_subset)

lemma clean_eqD: "clean P N \<Longrightarrow> m \<in> N \<Longrightarrow> n \<in> N \<Longrightarrow> node_hash P m = node_hash P n \<Longrightarrow> m = n"
  by (auto simp: clean_def dest: inj_onD)

lemma clean_not_EMPTY: "clean P N \<Longrightarrow> n \<in> N \<Longrightarrow> node_hash P n \<noteq> EMPTY"
  by (force simp: clean_def)

fun root_node :: "sponge \<Rightarrow> tree \<Rightarrow> node option" where
  "root_node P TEmpty = None"
| "root_node P (TLeaf k v) = Some (Leaf k v)"
| "root_node P (TBranch l r) = Some (Branch (tree_hash P l) (tree_hash P r))"

lemma root_node_mem: "root_node P t = Some n \<Longrightarrow> n \<in> tree_nodes P t \<and> node_hash P n = tree_hash P t"
  by (cases t) (auto simp: node_hash_def)

lemma tree_hash_EMPTY: "clean P N \<Longrightarrow> tree_nodes P t \<subseteq> N \<Longrightarrow> tree_hash P t = EMPTY \<longleftrightarrow> t = TEmpty"
  using root_node_mem [of P t] clean_not_EMPTY [of P N] by (cases t) auto

lemma tree_hash_inj:
  assumes "clean P N" "tree_nodes P t \<subseteq> N" "tree_nodes P u \<subseteq> N" "tree_hash P t = tree_hash P u"
  shows "t = u"
  using assms(2-)
proof (induction t arbitrary: u)
  case TEmpty
  then show ?case using tree_hash_EMPTY [OF assms(1), of u] by simp
next
  case (TLeaf k v)
  then have u: "u \<noteq> TEmpty" using tree_hash_EMPTY [OF assms(1), of "TLeaf k v"] by auto
  then obtain n where n: "root_node P u = Some n" by (cases u) auto
  then have "n = Leaf k v"
    using clean_eqD [OF assms(1), of n "Leaf k v"] root_node_mem [OF n] TLeaf by (auto simp: node_hash_def)
  with n show ?case by (cases u) auto
next
  case (TBranch l r)
  then have u: "u \<noteq> TEmpty" using tree_hash_EMPTY [OF assms(1), of "TBranch l r"] by auto
  then obtain n where n: "root_node P u = Some n" by (cases u) auto
  then have "n = Branch (tree_hash P l) (tree_hash P r)"
    using clean_eqD [OF assms(1), of n "Branch (tree_hash P l) (tree_hash P r)"] root_node_mem [OF n] TBranch(3-5)
    by (auto simp: node_hash_def)
  with n obtain l' r' where u: "u = TBranch l' r'" "tree_hash P l = tree_hash P l'" "tree_hash P r = tree_hash P r'"
    by (cases u) auto
  with TBranch show ?case by simp
qed

section \<open>Sequences of changes and proofs of trees\<close>

fun t_update_many :: "(h256 \<times> h256 option) list \<Rightarrow> tree \<Rightarrow> tree" where
  "t_update_many [] t = t"
| "t_update_many ((key, val) # changes) t = t_update_many changes (t_update 0 key val t)"

fun t_history :: "(h256 \<times> h256 option) list \<Rightarrow> tree \<Rightarrow> tree list" where
  "t_history [] t = [t]"
| "t_history ((key, val) # changes) t = t # t_history changes (t_update 0 key val t)"

fun apply_changes :: "(h256 \<times> h256 option) list \<Rightarrow> (h256 \<rightharpoonup> h256) \<Rightarrow> (h256 \<rightharpoonup> h256)" where
  "apply_changes [] m = m"
| "apply_changes ((key, val) # changes) m = apply_changes changes (m(key := val))"

lemma t_history_last: "t_update_many changes t \<in> set (t_history changes t)"
  by (induction changes t rule: t_history.induct) simp_all

lemma t_update_many_ok:
  "canonical 0 t \<Longrightarrow> list_all (\<lambda>(key, val). length key = 32) changes \<Longrightarrow>
   canonical 0 (t_update_many changes t) \<and> tree_map (t_update_many changes t) = apply_changes changes (tree_map t)"
proof (induction changes t rule: t_update_many.induct)
  case (2 key val changes t)
  then show ?case using t_update_ok [OF 2(2), of key val] by (simp add: fun_upd_def)
qed simp

fun t_siblings :: "sponge \<Rightarrow> nat \<Rightarrow> h256 \<Rightarrow> tree \<Rightarrow> h256 list" where
  "t_siblings P d key (TBranch l r) =
     (if key_bit key d = 0 then tree_hash P r # t_siblings P (Suc d) key l
      else tree_hash P l # t_siblings P (Suc d) key r)"
| "t_siblings P d key _ = []"

fun t_terminal :: "nat \<Rightarrow> h256 \<Rightarrow> tree \<Rightarrow> terminal" where
  "t_terminal d key TEmpty = TermEmpty"
| "t_terminal d key (TLeaf k v) = TermLeaf k v"
| "t_terminal d key (TBranch l r) = t_terminal (Suc d) key (if key_bit key d = 0 then l else r)"

lemma fold_t_siblings:
  "fold_siblings P key d (t_siblings P d key t) (terminal_hash P (t_terminal d key t)) = tree_hash P t"
  by (induction t arbitrary: d) (simp_all add: terminal_hash_def Let_def)

lemma t_siblings_bound: "canonical d t \<Longrightarrow> d + length (t_siblings P d key t) \<le> max d TREE_DEPTH"
proof (induction t arbitrary: d)
  case (TBranch l r)
  then show ?case using TBranch(1) [of "Suc d"] TBranch(2) [of "Suc d"] by (simp split: if_splits)
qed simp_all

lemma t_terminal_lookup:
  "t_lookup d key t = (case t_terminal d key t of TermEmpty \<Rightarrow> None | TermLeaf k v \<Rightarrow> if k = key then Some v else None)"
  by (induction t arbitrary: d) simp_all

text \<open>The leaf at the end of a path lies on that path.\<close>

lemma t_terminal_path:
  assumes "canonical d t" "on_path key d t" "t_terminal d key t = TermLeaf k v"
  shows "\<forall>i < d + length (t_siblings P d key t). key_bit k i = key_bit key i"
  using assms
proof (induction t arbitrary: d)
  case (TLeaf k' v')
  then show ?case by (simp add: on_path_def)
next
  case (TBranch l r)
  then show ?case
    using TBranch(1) [of "Suc d"] TBranch(2) [of "Suc d"] on_path_left [OF TBranch(4,3)] on_path_right [OF TBranch(4,3)]
    by (cases "key_bit key d = 0") simp_all
qed simp

section \<open>Stores\<close>

text \<open>A store holds the nodes of a tree under their hashes.\<close>

definition stored_in :: "sponge \<Rightarrow> 's node_store \<Rightarrow> 's \<Rightarrow> tree \<Rightarrow> bool" where
  "stored_in P ops s t \<longleftrightarrow> (\<forall>n\<in>tree_nodes P t. ns_get ops s (node_hash P n) = Some n)"

locale node_storage =
  fixes ops :: "'s node_store" and P :: sponge
  assumes put_hash: "fst (ns_put ops n s) = node_hash P n"
    and get_put: "ns_get ops (snd (ns_put ops n s)) h = (if h = node_hash P n then Some n else ns_get ops s h)"
begin

abbreviation stored :: "'s \<Rightarrow> tree \<Rightarrow> bool" where
  "stored \<equiv> stored_in P ops"

lemmas stored_def = stored_in_def

text \<open>A store extends another by nodes of a set.\<close>

definition extends_by :: "node set \<Rightarrow> 's \<Rightarrow> 's \<Rightarrow> bool" where
  "extends_by M s s' \<longleftrightarrow>
     (\<forall>h. ns_get ops s' h = ns_get ops s h \<or> (\<exists>n\<in>M. node_hash P n = h \<and> ns_get ops s' h = Some n))"

lemma extends_refl: "extends_by M s s"
  by (simp add: extends_by_def)

lemma extends_trans: "extends_by M s s' \<Longrightarrow> extends_by M s' s'' \<Longrightarrow> extends_by M s s''"
  unfolding extends_by_def by metis

lemma extends_mono: "extends_by M s s' \<Longrightarrow> M \<subseteq> N \<Longrightarrow> extends_by N s s'"
  unfolding extends_by_def by blast

lemma stored_extends:
  assumes "clean P N" "extends_by N s s'" "tree_nodes P t \<subseteq> N" "stored s t"
  shows "stored s' t"
  unfolding stored_def
proof
  fix n
  assume n: "n \<in> tree_nodes P t"
  with assms(4) have s: "ns_get ops s (node_hash P n) = Some n" by (simp add: stored_def)
  have "ns_get ops s' (node_hash P n) = ns_get ops s (node_hash P n) \<or>
    (\<exists>m\<in>N. node_hash P m = node_hash P n \<and> ns_get ops s' (node_hash P n) = Some m)"
    using assms(2) unfolding extends_by_def by blast
  then show "ns_get ops s' (node_hash P n) = Some n"
  proof
    assume "\<exists>m\<in>N. node_hash P m = node_hash P n \<and> ns_get ops s' (node_hash P n) = Some m"
    then obtain m where "m \<in> N" "node_hash P m = node_hash P n" "ns_get ops s' (node_hash P n) = Some m" by blast
    moreover from this n have "m = n" using clean_eqD [OF assms(1)] assms(3) by blast
    ultimately show ?thesis by simp
  qed (simp add: s)
qed

lemma put_node_eq:
  "\<exists>s'. put_node ops n s = (Inr (node_hash P n), s') \<and> ns_get ops s' (node_hash P n) = Some n \<and> extends_by {n} s s'"
proof (cases "ns_put ops n s")
  case (Pair h s')
  then show ?thesis
    using put_hash [of n s] get_put [of n s] by (auto simp: put_node_def extends_by_def)
qed

lemma stored_root: "stored s t \<Longrightarrow> root_node P t = Some n \<Longrightarrow> ns_get ops s (tree_hash P t) = Some n"
  using root_node_mem [of P t n] by (auto simp: stored_def)

lemma stored_branch [simp]:
  "stored s (TBranch l r) \<longleftrightarrow> ns_get ops s (hash_branch P (tree_hash P l) (tree_hash P r)) =
     Some (Branch (tree_hash P l) (tree_hash P r)) \<and> stored s l \<and> stored s r"
  by (auto simp: stored_def node_hash_def)

lemma stored_leaf [simp]: "stored s (TLeaf k v) \<longleftrightarrow> ns_get ops s (hash_leaf P k v) = Some (Leaf k v)"
  by (simp add: stored_def node_hash_def)

lemma stored_empty [simp]: "stored s TEmpty"
  by (simp add: stored_def)

text \<open>A step of a tree operation: it builds a tree, its subtrees being there.\<close>

definition builds :: "node set \<Rightarrow> ('s, h256) smt_op \<Rightarrow> 's \<Rightarrow> tree \<Rightarrow> bool" where
  "builds N m s t \<longleftrightarrow> (\<exists>s'. m s = (Inr (tree_hash P t), s') \<and> stored s' t \<and> extends_by N s s')"

lemma builds_leaf: "Leaf k v \<in> N \<Longrightarrow> builds N (put_node ops (Leaf k v)) s (TLeaf k v)"
  using put_node_eq [of "Leaf k v" s] extends_mono [of "{Leaf k v}" s _ N]
  by (auto simp: builds_def node_hash_def)

lemma builds_branch:
  assumes "clean P N" "tree_nodes P (TBranch l r) \<subseteq> N" "stored s l" "stored s r"
  shows "builds N (put_node ops (Branch (tree_hash P l) (tree_hash P r))) s (TBranch l r)"
proof -
  let ?n = "Branch (tree_hash P l) (tree_hash P r)"
  obtain s' where s': "put_node ops ?n s = (Inr (node_hash P ?n), s')"
    "ns_get ops s' (node_hash P ?n) = Some ?n" "extends_by {?n} s s'"
    using put_node_eq by blast
  then have e: "extends_by N s s'" using assms(2) by (auto intro: extends_mono)
  show ?thesis
    unfolding builds_def
    using s' e stored_extends [OF assms(1) e, of l] stored_extends [OF assms(1) e, of r] assms(2-)
    by (auto simp: node_hash_def)
qed

lemma builds_bind:
  assumes "builds N m s t" "\<And>s'. stored s' t \<Longrightarrow> extends_by N s s' \<Longrightarrow> builds N (f (tree_hash P t)) s' u"
  shows "builds N (sbind m f) s u"
  using assms(1) unfolding builds_def sbind_def
  using assms(2) unfolding builds_def by (fastforce intro: extends_trans)

lemma builds_ret: "stored s t \<Longrightarrow> builds N (sret (tree_hash P t)) s t"
  by (simp add: builds_def sret_def extends_refl)

lemma builds_is_leaf:
  "ns_get ops s h = Some (Leaf k v) \<Longrightarrow> builds N (sbind (is_leaf ops h) f) s u \<longleftrightarrow> builds N (f True) s u"
  "ns_get ops s h = Some (Branch l r) \<Longrightarrow> builds N (sbind (is_leaf ops h) f) s u \<longleftrightarrow> builds N (f False) s u"
  by (simp_all add: builds_def is_leaf_def get_node_def sbind_def sret_def)

lemma normalize_builds:
  assumes clean: "clean P N" and nodes: "tree_nodes P l \<union> tree_nodes P r \<union> tree_nodes P (t_normal l r) \<subseteq> N"
    and s: "stored s l" "stored s r"
  shows "builds N (normalize ops (tree_hash P l) (tree_hash P r)) s (t_normal l r)"
proof -
  have e: "tree_hash P l = EMPTY \<longleftrightarrow> l = TEmpty" "tree_hash P r = EMPTY \<longleftrightarrow> r = TEmpty"
    using tree_hash_EMPTY [OF clean] nodes by auto
  have b: "builds N (put_node ops (Branch (tree_hash P l) (tree_hash P r))) s (TBranch l r)"
    if "t_normal l r = TBranch l r"
    using builds_branch [OF clean _ s] nodes that by simp
  show ?thesis
    unfolding normalize_def e
    using s b builds_ret [OF s(1), of N] builds_ret [OF s(2), of N] builds_ret [of s TEmpty N]
    by (cases l; cases r) (simp_all add: builds_is_leaf)
qed

lemma split_builds:
  assumes "clean P N" "tree_nodes P (t_split d ka va kb vb) \<subseteq> N"
    "length ka = 32" "length kb = 32" "ka \<noteq> kb" "\<forall>i<d. key_bit ka i = key_bit kb i"
  shows "builds N (split_leaves ops d ka va kb vb) s (t_split d ka va kb vb)"
  using assms(2-)
proof (induction d ka va kb vb arbitrary: s rule: t_split.induct)
  case (1 d ka va kb vb)
  obtain i where "i < 256" "key_bit ka i \<noteq> key_bit kb i"
    using key_bits_differ [OF 1(3-5)] by blast
  with 1(6) have d: "d < TREE_DEPTH"
    by (metis TREE_DEPTH_def linorder_not_less order_less_trans nat_less_le)
  show ?case
  proof (cases "key_bit ka d = key_bit kb d")
    case False
    have N: "Leaf ka va \<in> N" "Leaf kb vb \<in> N"
      "tree_nodes P (if key_bit ka d = 0 then TBranch (TLeaf ka va) (TLeaf kb vb)
         else TBranch (TLeaf kb vb) (TLeaf ka va)) \<subseteq> N"
      using 1(2) d False by (subst (asm) t_split.simps, simp split: if_splits)+
    have "builds N (put_node ops (if key_bit ka d = 0 then Branch (hash_leaf P ka va) (hash_leaf P kb vb)
         else Branch (hash_leaf P kb vb) (hash_leaf P ka va))) s'
       (if key_bit ka d = 0 then TBranch (TLeaf ka va) (TLeaf kb vb) else TBranch (TLeaf kb vb) (TLeaf ka va))"
      if "stored s' (TLeaf ka va)" "stored s' (TLeaf kb vb)" for s'
      using builds_branch [OF assms(1) _ that(1,2)] builds_branch [OF assms(1) _ that(2,1)] N(3)
      by (simp split: if_splits)
    then have step: "builds N (sbind (put_node ops (Leaf ka va)) (\<lambda>ha.
          sbind (put_node ops (Leaf kb vb)) (\<lambda>hb.
          put_node ops (if key_bit ka d = 0 then Branch ha hb else Branch hb ha)))) s
       (if key_bit ka d = 0 then TBranch (TLeaf ka va) (TLeaf kb vb) else TBranch (TLeaf kb vb) (TLeaf ka va))"
      using N(1) stored_extends [OF assms(1), of _ _ "TLeaf ka va"]
      by (intro builds_bind [OF builds_leaf [OF N(1)], simplified tree_hash.simps]
          builds_bind [OF builds_leaf [OF N(2)], simplified tree_hash.simps])
        (metis empty_subsetI insert_subset tree_nodes.simps(2))
    show ?thesis
      using step d False by (subst t_split.simps, subst split_leaves.simps) simp
  next
    case True
    let ?c = "t_split (Suc d) ka va kb vb"
    have t: "t_split d ka va kb vb = (if key_bit ka d = 0 then TBranch ?c TEmpty else TBranch TEmpty ?c)"
      using d True by (subst t_split.simps) (simp add: Let_def)
    have agree: "\<forall>i<Suc d. key_bit ka i = key_bit kb i"
      using 1(6) True by (auto simp: less_Suc_eq)
    have c: "tree_nodes P ?c \<subseteq> N" using 1(2) unfolding t by (simp split: if_splits)
    have IH: "builds N (split_leaves ops (Suc d) ka va kb vb) s ?c"
      using 1(1) [OF _ _ c 1(3-5) agree] d True by simp
    have "builds N (put_node ops (if key_bit ka d = 0 then Branch (tree_hash P ?c) EMPTY
        else Branch EMPTY (tree_hash P ?c))) s' (t_split d ka va kb vb)" if "stored s' ?c" for s'
      using builds_branch [OF assms(1), of ?c TEmpty s'] builds_branch [OF assms(1), of TEmpty ?c s'] 1(2) that
      unfolding t by (simp split: if_splits)
    then have "builds N (sbind (split_leaves ops (Suc d) ka va kb vb) (\<lambda>child.
        put_node ops (if key_bit ka d = 0 then Branch child EMPTY else Branch EMPTY child))) s (t_split d ka va kb vb)"
      by (intro builds_bind [OF IH])
    then show ?thesis
      using d True by (subst split_leaves.simps) simp
  qed
qed

lemma tree_nodes_normal_sub:
  "tree_nodes P l \<subseteq> tree_nodes P (t_normal l r)" "tree_nodes P r \<subseteq> tree_nodes P (t_normal l r)"
  by (cases l; cases r; force)+

theorem update_at_builds:
  assumes "clean P N" "tree_nodes P t \<union> tree_nodes P (t_update d key val t) \<subseteq> N"
    "canonical d t" "length key = 32" "on_path key d t" "stored s t"
  shows "builds N (update_at ops (tree_hash P t) d key val) s (t_update d key val t)"
  using assms(2-)
proof (induction d key val t arbitrary: s rule: t_update.induct)
  case (1 d key val)
  then show ?case
    using builds_leaf [of key _ N s] builds_ret [of s TEmpty N]
    by (subst update_at.simps) (auto split: option.split)
next
  case (2 d key val k v)
  have ne: "hash_leaf P k v \<noteq> EMPTY"
    using tree_hash_EMPTY [OF assms(1), of "TLeaf k v"] 2(1) by simp
  have get: "sbind (get_node ops (hash_leaf P k v)) f s = f (Leaf k v) s" for f :: "node \<Rightarrow> ('s, h256) smt_op"
    using 2(5) by (simp add: get_node_def sbind_def)
  have "builds N (split_leaves ops d k v key nv) s (t_split d k v key nv)" if "k \<noteq> key" "val = Some nv" for nv
    using that 2 by (intro split_builds [OF assms(1)]) (auto simp: on_path_def)
  then show ?case
    using ne 2(1,5) builds_leaf [of key _ N s] builds_ret [of s TEmpty N] builds_ret [of s "TLeaf k v" N]
    by (subst update_at.simps) (auto simp: builds_def get split: option.split)
next
  case (3 d key val l r)
  have ne: "hash_branch P (tree_hash P l) (tree_hash P r) \<noteq> EMPTY"
    using tree_hash_EMPTY [OF assms(1), of "TBranch l r"] 3(3) by simp
  have get: "sbind (get_node ops (hash_branch P (tree_hash P l) (tree_hash P r))) f s =
      f (Branch (tree_hash P l) (tree_hash P r)) s" for f :: "node \<Rightarrow> ('s, h256) smt_op"
    using 3(7) by (simp add: get_node_def sbind_def)
  show ?case
  proof (cases "key_bit key d = 0")
    case True
    let ?l = "t_update (Suc d) key val l"
    have N: "tree_nodes P l \<union> tree_nodes P ?l \<subseteq> N" "tree_nodes P ?l \<union> tree_nodes P r \<union> tree_nodes P (t_normal ?l r) \<subseteq> N"
      using 3(3) True tree_nodes_normal_sub(1) [of ?l r] by auto
    have IH: "builds N (update_at ops (tree_hash P l) (Suc d) key val) s ?l"
      using 3(1) [OF True N(1) _ 3(5) on_path_left [OF 3(6,4) True]] 3(4,7) by simp
    have "builds N (sbind (update_at ops (tree_hash P l) (Suc d) key val) (\<lambda>h. normalize ops h (tree_hash P r))) s
        (t_normal ?l r)"
    proof (rule builds_bind [OF IH])
      fix s'
      assume s': "stored s' ?l" "extends_by N s s'"
      have "stored s' r" using stored_extends [OF assms(1) s'(2), of r] N 3(7) by simp
      then show "builds N (normalize ops (tree_hash P ?l) (tree_hash P r)) s' (t_normal ?l r)"
        by (rule normalize_builds [OF assms(1) N(2) s'(1)])
    qed
    then show ?thesis
      using ne True 3(4) by (subst update_at.simps) (simp add: builds_def get)
  next
    case False
    let ?r = "t_update (Suc d) key val r"
    have N: "tree_nodes P r \<union> tree_nodes P ?r \<subseteq> N" "tree_nodes P l \<union> tree_nodes P ?r \<union> tree_nodes P (t_normal l ?r) \<subseteq> N"
      using 3(3) False tree_nodes_normal_sub(2) [of ?r l] by auto
    have IH: "builds N (update_at ops (tree_hash P r) (Suc d) key val) s ?r"
      using 3(2) [OF False N(1) _ 3(5) on_path_right [OF 3(6,4) False]] 3(4,7) by simp
    have "builds N (sbind (update_at ops (tree_hash P r) (Suc d) key val) (\<lambda>h. normalize ops (tree_hash P l) h)) s
        (t_normal l ?r)"
    proof (rule builds_bind [OF IH])
      fix s'
      assume s': "stored s' ?r" "extends_by N s s'"
      have "stored s' l" using stored_extends [OF assms(1) s'(2), of l] N 3(7) by simp
      then show "builds N (normalize ops (tree_hash P l) (tree_hash P ?r)) s' (t_normal l ?r)"
        using s'(1) by (rule normalize_builds [OF assms(1) N(2)])
    qed
    then show ?thesis
      using ne False 3(4) by (subst update_at.simps) (simp add: builds_def get)
  qed
qed

lemma get_loop_ok:
  assumes "clean P N" "tree_nodes P t \<subseteq> N" "canonical d t" "stored s t"
  shows "get_loop ops s key (tree_hash P t) d = Inr (t_lookup d key t)"
  using assms(2-)
proof (induction t arbitrary: d)
  case TEmpty
  then show ?case by (subst get_loop.simps) simp
next
  case (TLeaf k v)
  then show ?case
    using tree_hash_EMPTY [OF assms(1), of "TLeaf k v"] by (subst get_loop.simps) simp
next
  case (TBranch l r)
  then show ?case
    using tree_hash_EMPTY [OF assms(1), of "TBranch l r"] by (subst get_loop.simps) simp
qed

text \<open>The trees between the changes of \<open>update_many\<close>.\<close>

lemma update_ok:
  assumes "clean P N" "tree_nodes P t \<union> tree_nodes P (t_update 0 key val t) \<subseteq> N"
    "canonical 0 t" "length key = 32" "stored s t"
  shows "builds N (update ops (tree_hash P t) key val) s (t_update 0 key val t)"
  unfolding update_def using assms by (intro update_at_builds) simp_all

lemma update_many_builds:
  assumes "clean P N" "\<Union> (tree_nodes P ` set (t_history changes t)) \<subseteq> N"
    "canonical 0 t" "list_all (\<lambda>(key, val). length key = 32) changes" "stored s t"
  shows "builds N (update_many ops (tree_hash P t) changes) s (t_update_many changes t)"
  using assms(2-)
proof (induction changes t arbitrary: s rule: t_history.induct)
  case (1 t)
  then show ?case by (simp add: builds_ret)
next
  case (2 key val changes t)
  have N: "tree_nodes P t \<union> tree_nodes P (t_update 0 key val t) \<subseteq> N"
    using 2(2) by (cases changes) auto
  have c: "canonical 0 (t_update 0 key val t)"
    using t_update_ok [OF 2(3), of key val] 2(4) by simp
  show ?case
    unfolding update_many.simps t_update_many.simps
    using 2 c N by (intro builds_bind [OF update_ok [OF assms(1) N 2(3) _ 2(5)]]) auto
qed

lemma prove_loop_ok:
  assumes "clean P N" "tree_nodes P t \<subseteq> N" "canonical d t" "stored s t"
  shows "prove_loop ops s key sibs (tree_hash P t) d =
    Inr \<lparr> siblings = sibs @ t_siblings P d key t, terminal_of = t_terminal d key t \<rparr>"
  using assms(2-)
proof (induction t arbitrary: d sibs)
  case TEmpty
  then show ?case by (subst prove_loop.simps) simp
next
  case (TLeaf k v)
  then show ?case
    using tree_hash_EMPTY [OF assms(1), of "TLeaf k v"] by (subst prove_loop.simps) simp
next
  case (TBranch l r)
  then show ?case
    using tree_hash_EMPTY [OF assms(1), of "TBranch l r"] by (subst prove_loop.simps) simp
qed

end

interpretation mem: node_storage "mem_store_ops P" P for P
  by unfold_locales (simp_all add: mem_store_ops_def Let_def)

interpretation overlay: node_storage "overlay_store_ops P base_ops" P for P base_ops
  by unfold_locales (simp_all add: overlay_store_ops_def Let_def split: option.split)

section \<open>Verifying proofs\<close>

lemma shares_prefix_iff: "shares_prefix a b n \<longleftrightarrow> (\<forall>i<n. key_bit a i = key_bit b i)"
  by (auto simp: shares_prefix_def list_all_iff)

text \<open>The nodes that a proof claims to exist.\<close>

fun sibling_nodes :: "sponge \<Rightarrow> h256 \<Rightarrow> nat \<Rightarrow> h256 list \<Rightarrow> h256 \<Rightarrow> node set" where
  "sibling_nodes P key i [] h = {}"
| "sibling_nodes P key i (sib # sibs) h =
     insert (if key_bit key i = 0 then Branch (fold_siblings P key (Suc i) sibs h) sib
             else Branch sib (fold_siblings P key (Suc i) sibs h))
       (sibling_nodes P key (Suc i) sibs h)"

definition proof_nodes :: "sponge \<Rightarrow> h256 \<Rightarrow> smt_proof \<Rightarrow> node set" where
  "proof_nodes P key p =
     sibling_nodes P key 0 (siblings p) (terminal_hash P (terminal_of p)) \<union>
     (case terminal_of p of TermEmpty \<Rightarrow> {} | TermLeaf k v \<Rightarrow> {Leaf k v})"

lemma root_node_unique:
  assumes "clean P N" "tree_nodes P t \<subseteq> N" "n \<in> N" "node_hash P n = tree_hash P t"
  shows "root_node P t = Some n"
proof -
  have "t \<noteq> TEmpty"
    using clean_not_EMPTY [OF assms(1,3)] assms(4) by auto
  then obtain m where m: "root_node P t = Some m" by (cases t) auto
  with root_node_mem [OF m] assms clean_eqD [OF assms(1), of m n] show ?thesis by auto
qed

lemma fold_siblings_sound:
  assumes "clean P N" "tree_nodes P t \<subseteq> N" "sibling_nodes P key d sibs (terminal_hash P term) \<subseteq> N"
    "\<forall>k v. term = TermLeaf k v \<longrightarrow> Leaf k v \<in> N"
    "fold_siblings P key d sibs (terminal_hash P term) = tree_hash P t"
  shows "t_terminal d key t = term"
  using assms(2-)
proof (induction sibs arbitrary: d t)
  case Nil
  show ?case
  proof (cases "term")
    case TermEmpty
    then show ?thesis using Nil tree_hash_EMPTY [OF assms(1), of t] by (simp add: terminal_hash_def)
  next
    case (TermLeaf k v)
    then have "root_node P t = Some (Leaf k v)"
      using Nil by (intro root_node_unique [OF assms(1)]) (simp_all add: terminal_hash_def node_hash_def)
    then show ?thesis using TermLeaf by (cases t) auto
  qed
next
  case (Cons sib sibs)
  let ?h = "fold_siblings P key (Suc d) sibs (terminal_hash P term)"
  let ?n = "if key_bit key d = 0 then Branch ?h sib else Branch sib ?h"
  have "root_node P t = Some ?n"
    using Cons(2,3,5) by (intro root_node_unique [OF assms(1)]) (simp_all add: node_hash_def Let_def split: if_splits)
  then obtain l r where t: "t = TBranch l r" "?n = Branch (tree_hash P l) (tree_hash P r)"
    by (cases t) (auto split: if_splits)
  then show ?case
    using Cons(1) [of "if key_bit key d = 0 then l else r" "Suc d"] Cons(2-5) by (auto split: if_splits)
qed

lemma compute_root_sound:
  assumes "clean P (tree_nodes P t \<union> proof_nodes P key p)" "compute_root P key p = Some (tree_hash P t)"
  shows "t_terminal 0 key t = terminal_of p"
  using assms(2)
  by (intro fold_siblings_sound [OF assms(1)]) (auto simp: proof_nodes_def compute_root_def split: if_splits)

lemma verify_inclusion_sound:
  assumes "clean P (tree_nodes P t \<union> proof_nodes P key p)" "verify_inclusion P (tree_hash P t) key val p = Some True"
  shows "t_lookup 0 key t = Some val"
  using compute_root_sound [OF assms(1)] assms(2)
  by (auto simp: verify_inclusion_def t_terminal_lookup split: terminal.splits if_splits)

lemma verify_exclusion_sound:
  assumes "clean P (tree_nodes P t \<union> proof_nodes P key p)" "verify_exclusion P (tree_hash P t) key p = Some True"
  shows "t_lookup 0 key t = None"
  using compute_root_sound [OF assms(1)] assms(2)
  by (auto simp: verify_exclusion_def t_terminal_lookup split: terminal.splits if_splits)

definition t_proof :: "sponge \<Rightarrow> h256 \<Rightarrow> tree \<Rightarrow> smt_proof" where
  "t_proof P key t = \<lparr> siblings = t_siblings P 0 key t, terminal_of = t_terminal 0 key t \<rparr>"

lemma compute_root_t_proof: "canonical 0 t \<Longrightarrow> compute_root P key (t_proof P key t) = Some (tree_hash P t)"
  using t_siblings_bound [of 0 t P key] fold_t_siblings [of P key 0 t]
  by (simp add: compute_root_def t_proof_def)

lemma verify_inclusion_complete:
  assumes "canonical 0 t"
  shows "verify_inclusion P (tree_hash P t) key val (t_proof P key t) = Some (t_lookup 0 key t = Some val)"
  using compute_root_t_proof [OF assms, of P key]
  by (cases "t_terminal 0 key t") (auto simp: verify_inclusion_def t_terminal_lookup t_proof_def)

lemma verify_exclusion_complete:
  assumes "canonical 0 t"
  shows "verify_exclusion P (tree_hash P t) key (t_proof P key t) = Some (t_lookup 0 key t = None)"
  using compute_root_t_proof [OF assms, of P key] t_siblings_bound [OF assms, of P key]
    t_terminal_path [OF assms, of key]
  by (cases "t_terminal 0 key t") (simp_all add: verify_exclusion_def t_terminal_lookup t_proof_def shares_prefix_iff)

end
