(* ===== verification/Smt_Pages.thy ===== *)
theory Smt_Pages
  imports Smt_Store
begin

text \<open>
  Pages of leaves: the leaves of a canonical tree are in ascending order of their keys, and
  \<open>leaves_after\<close> returns the first of those behind a key.
\<close>

section \<open>The order of keys and their bits\<close>

lemma unat_drop_byte: "unat (drop_bit k (x :: u8)) = unat x div 2 ^ k"
proof -
  have "unat (drop_bit k x) = drop_bit k (take_bit 8 (unat x))"
    by (simp add: unsigned_drop_bit_eq take_bit_nat_eq_self)
  then show ?thesis by (simp add: drop_bit_eq_div take_bit_nat_eq_self)
qed

lemma bit_byte: "bit (x :: u8) n \<longleftrightarrow> odd (unat x div 2 ^ n)"
proof -
  have "bit x n = bit (unat x) n" by (simp add: bit_unsigned_iff)
  then show ?thesis by (simp only: bit_iff_odd)
qed

lemma byte_less_first_bit:
  fixes a b :: u8
  assumes "\<not> bit a n" "bit b n" "\<And>m. n < m \<Longrightarrow> m < 8 \<Longrightarrow> bit a m = bit b m"
  shows "a < b"
proof -
  have "drop_bit (Suc n) a = drop_bit (Suc n) b"
  proof (rule bit_word_eqI)
    fix m
    assume "m < LENGTH(8)"
    show "bit (drop_bit (Suc n) a) m = bit (drop_bit (Suc n) b) m"
      using assms(3) [of "Suc n + m"] bit_imp_le_length [of a "Suc n + m"] bit_imp_le_length [of b "Suc n + m"]
      by (cases "Suc n + m < 8") (auto simp: bit_drop_bit_eq)
  qed
  then have eq: "unat a div 2 ^ Suc n = unat b div 2 ^ Suc n"
    using unat_drop_byte [of "Suc n" a] unat_drop_byte [of "Suc n" b] by metis
  have odd: "even (unat a div 2 ^ n)" "odd (unat b div 2 ^ n)"
    using assms(1,2) bit_byte by simp_all
  have half: "x div 2 ^ Suc n = x div 2 ^ n div 2" for x :: nat
    by (simp only: power_Suc2 div_mult2_eq)
  have "unat a div 2 ^ n < unat b div 2 ^ n"
    using odd eq unfolding half by (metis even_two_times_div_two odd_two_times_div_two_succ less_add_one)
  then have "unat a < unat b"
    by (meson div_le_mono not_le)
  then show ?thesis by (simp add: word_less_nat_alt)
qed

lemma bytes_less_nth:
  "length a = length b \<Longrightarrow> j < length a \<Longrightarrow> (\<And>m. m < j \<Longrightarrow> a ! m = b ! m) \<Longrightarrow> a ! j < b ! j \<Longrightarrow> bytes_less a b"
proof (induction a b arbitrary: j rule: bytes_less.induct)
  case (1 a as b bs)
  show ?case
  proof (cases j)
    case 0
    with 1 show ?thesis by simp
  next
    case (Suc i)
    have "as ! m = bs ! m" if "m < i" for m
      using 1(4) [of "Suc m"] that Suc by simp
    moreover have "a = b" using 1(4) [of 0] Suc by simp
    ultimately show ?thesis using 1(1) [of i] 1(2,3,5) Suc by simp
  qed
qed simp_all

lemma bytes_less_first_bit:
  assumes len: "length a = 32" "length b = 32" and i: "i < 256"
    and bits: "key_bit a i = 0" "key_bit b i \<noteq> 0" "\<And>m. m < i \<Longrightarrow> key_bit a m = key_bit b m"
  shows "bytes_less a b"
proof (rule bytes_less_nth)
  define j n where "j = i div 8" and "n = i mod 8"
  have ij: "i = 8 * j + n" "n < 8" "j < 32" using i by (auto simp: j_def n_def)
  have same: "bit (a ! m) q = bit (b ! m) q" if "8 * m + (7 - q) < i" "q < 8" for m q
  proof -
    have "\<exists>r<8. 7 - r = q \<and> 7 - q = r"
      using that(2) by (intro exI [of _ "7 - q"]) simp
    then obtain r where r: "r < 8" "7 - r = q" "7 - q = r" by blast
    show ?thesis
      using bits(3) [of "8 * m + r"] that r by (simp add: key_bit_of_bool of_bool_eq_iff)
  qed
  show "length a = length b" "j < length a" using len ij by simp_all
  show "a ! m = b ! m" if "m < j" for m
    using that ij by (intro bit_word_eqI same) auto
  show "a ! j < b ! j"
  proof (rule byte_less_first_bit [of _ "7 - n"])
    show "\<not> bit (a ! j) (7 - n)" "bit (b ! j) (7 - n)"
      using bits(1,2) ij by (simp_all add: key_bit_of_bool)
    show "bit (a ! j) m = bit (b ! j) m" if "7 - n < m" "m < 8" for m
      using that ij by (intro same) auto
  qed
qed

lemma bytes_less_irrefl [simp]: "\<not> bytes_less a a"
  by (induction a) simp_all

lemma bytes_less_trans: "bytes_less a b \<Longrightarrow> bytes_less b c \<Longrightarrow> bytes_less a c"
proof (induction a b arbitrary: c rule: bytes_less.induct)
  case (1 a as b bs)
  then show ?case by (cases c) auto
next
  case (2 b bs)
  then show ?case by (cases c) auto
qed simp_all

lemma bytes_less_total: "length a = length b \<Longrightarrow> a \<noteq> b \<Longrightarrow> bytes_less a b \<or> bytes_less b a"
  by (induction a b rule: bytes_less.induct) auto

section \<open>The leaves of a tree are sorted\<close>

lemma canonical_key_length: "canonical d t \<Longrightarrow> (k, v) \<in> set (leaves t) \<Longrightarrow> length k = 32"
  by (induction t arbitrary: d) auto

lemma on_path_first:
  assumes "on_path key d t" "\<And>k v k' v'. (k, v) \<in> set (leaves t) \<Longrightarrow> (k', v') \<in> set (leaves t) \<Longrightarrow> key_bit k d = key_bit k' d"
  shows "\<exists>key'. on_path key' (Suc d) t"
proof (cases "leaves t")
  case Nil
  then show ?thesis by (simp add: on_path_def)
next
  case (Cons x xs)
  obtain k v where x: "x = (k, v)" by (cases x)
  have "key_bit k' i = key_bit k i" if k': "(k', v') \<in> set (leaves t)" and i: "i < Suc d" for k' v' i
  proof (cases "i = d")
    case True
    then show ?thesis using assms(2) [OF k', of k v] Cons x by simp
  next
    case False
    then have "key_bit k' i = key_bit key i" "key_bit k i = key_bit key i"
      using assms(1) k' i Cons x by (auto simp: on_path_def list_all_iff)
    then show ?thesis by simp
  qed
  then show ?thesis unfolding on_path_def list_all_iff by blast
qed

lemma on_path_child:
  assumes "on_path key d (TBranch l r)" "canonical d (TBranch l r)"
  shows "(\<exists>key'. on_path key' (Suc d) l) \<and> (\<exists>key'. on_path key' (Suc d) r)"
proof -
  have "on_path key d l" "on_path key d r" using assms(1) by (simp_all add: on_path_def)
  moreover have "key_bit k d = key_bit k' d"
    if "(k, v) \<in> set (leaves l) \<and> (k', v') \<in> set (leaves l) \<or> (k, v) \<in> set (leaves r) \<and> (k', v') \<in> set (leaves r)"
    for k v k' v'
    using that assms(2) key_bit_both [of k d k'] by (fastforce simp: list_all_iff)
  ultimately show ?thesis by (blast intro: on_path_first)
qed

lemma leaves_sorted:
  assumes "canonical d t" "on_path key d t"
  shows "sorted_wrt (\<lambda>x y. bytes_less (fst x) (fst y)) (leaves t)"
  using assms
proof (induction t arbitrary: d key)
  case (TBranch l r)
  have l: "canonical (Suc d) l" and r: "canonical (Suc d) r" and d: "d < 256"
    using TBranch(3) by (simp_all add: TREE_DEPTH_def)
  have cross: "bytes_less a b" if "(a, v) \<in> set (leaves l)" "(b, w) \<in> set (leaves r)" for a b v w
  proof (rule bytes_less_first_bit [OF _ _ d])
    show "length a = 32" "length b = 32"
      using canonical_key_length [OF l that(1)] canonical_key_length [OF r that(2)] .
    show "key_bit a d = 0" "key_bit b d \<noteq> 0" using that TBranch(3) by (auto simp: list_all_iff)
    show "key_bit a m = key_bit b m" if "m < d" for m
    proof -
      have "key_bit a m = key_bit key m" "key_bit b m = key_bit key m"
        using \<open>(a, v) \<in> _\<close> \<open>(b, w) \<in> _\<close> that TBranch(4) by (auto simp: on_path_def list_all_iff)
      then show ?thesis by simp
    qed
  qed
  obtain key' key'' where "on_path key' (Suc d) l" "on_path key'' (Suc d) r"
    using on_path_child [OF TBranch(4,3)] by blast
  then show ?case
    using TBranch(1) [OF l] TBranch(2) [OF r] cross by (auto simp: sorted_wrt_append)
qed simp_all

section \<open>Pruned subtrees\<close>

lemma length_set_bit_at [simp]: "length (set_bit_at key i) = length key"
  by (simp add: set_bit_at_def)

lemma key_bit_set_bit_at:
  assumes "i < 256" "length key = 32"
  shows "key_bit (set_bit_at key i) m = (if m = i then 1 else key_bit key m)"
proof -
  have byte: "bit (w OR 2 ^ k) q \<longleftrightarrow> bit w q \<or> q = k \<and> k < 8" for w :: u8 and k q
    by (auto simp: bit_or_iff bit_exp_iff)
  have split: "m = i \<longleftrightarrow> m div 8 = i div 8 \<and> 7 - m mod 8 = 7 - i mod 8" for m
  proof
    assume "m div 8 = i div 8 \<and> 7 - m mod 8 = 7 - i mod 8"
    moreover have "m mod 8 < 8" "i mod 8 < 8" by simp_all
    ultimately have "m div 8 = i div 8" "m mod 8 = i mod 8" by linarith+
    then show "m = i" by (metis div_mult_mod_eq)
  qed simp
  have "i div 8 < length key" using assms by simp
  then show ?thesis
    by (auto simp: key_bit_of_bool set_bit_at_def byte split nth_list_update)
qed

lemma fold_set_bit_at:
  "length path = 32 \<Longrightarrow> list_all (\<lambda>i. i < 256) is \<Longrightarrow>
   length (fold (\<lambda>i m. set_bit_at m i) is path) = 32 \<and>
   (\<forall>m. key_bit (fold (\<lambda>i m. set_bit_at m i) is path) m = (if m \<in> set is then 1 else key_bit path m))"
  by (induction "is" arbitrary: path) (simp_all add: key_bit_set_bit_at)

lemma subtree_max_bits:
  assumes "length path = 32"
  shows "length (subtree_max path d) = 32"
    and "key_bit (subtree_max path d) m = (if d \<le> m \<and> m < 256 then 1 else key_bit path m)"
  using fold_set_bit_at [OF assms, of "[d..<256]"] by (simp_all add: subtree_max_def TREE_DEPTH_def list_all_iff)

lemma below_subtree_max:
  assumes "length path = 32" "length k = 32" "\<forall>i<d. key_bit k i = key_bit path i"
  shows "k = subtree_max path d \<or> bytes_less k (subtree_max path d)"
proof (cases "k = subtree_max path d")
  case False
  let ?m = "subtree_max path d"
  define i where "i = (LEAST i. i < 256 \<and> key_bit k i \<noteq> key_bit ?m i)"
  have ex: "\<exists>i. i < 256 \<and> key_bit k i \<noteq> key_bit ?m i"
    using key_bits_differ [OF assms(2) subtree_max_bits(1) [OF assms(1)] False] by blast
  have i: "i < 256" "key_bit k i \<noteq> key_bit ?m i"
    using LeastI_ex [OF ex] unfolding i_def by simp_all
  have below: "key_bit k m = key_bit ?m m" if "m < i" for m
    using not_less_Least [of m "\<lambda>i. i < 256 \<and> key_bit k i \<noteq> key_bit ?m i"] that i(1) unfolding i_def by auto
  have di: "d \<le> i"
    using i assms(3) subtree_max_bits(2) [OF assms(1), of d i] by (metis not_le)
  then have "key_bit ?m i = 1"
    using subtree_max_bits(2) [OF assms(1), of d i] i(1) by simp
  moreover from this have "key_bit k i = 0"
    using i(2) key_bit_cases [of k i] by auto
  ultimately show ?thesis
    using below bytes_less_first_bit [OF assms(2) subtree_max_bits(1) [OF assms(1)] i(1)] by auto
qed simp

lemma pruned_subtree:
  assumes "canonical d t" "on_path path d t" "length path = 32" "\<not> bytes_less a (subtree_max path d)"
  shows "filter (\<lambda>(k, v). is_after (Some a) k) (leaves t) = []"
proof -
  have "\<not> bytes_less a k" if "(k, v) \<in> set (leaves t)" for k v
  proof -
    have "\<forall>i<d. key_bit k i = key_bit path i"
      using assms(2) that by (auto simp: on_path_def list_all_iff)
    then have "k = subtree_max path d \<or> bytes_less k (subtree_max path d)"
      by (rule below_subtree_max [OF assms(3) canonical_key_length [OF assms(1) that]])
    with assms(4) show ?thesis using bytes_less_trans by blast
  qed
  then show ?thesis by (auto simp: filter_empty_conv is_after_def)
qed

section \<open>The page of a tree\<close>

definition t_page :: "h256 option \<Rightarrow> tree \<Rightarrow> (h256 \<times> h256) list" where
  "t_page after t = filter (\<lambda>(k, v). is_after after k) (leaves t)"

context node_storage
begin

lemma leaves_loop_ok:
  assumes "clean P N" "tree_nodes P t \<subseteq> N" "stored s t" "canonical d t" "on_path path d t" "length path = 32"
    "\<forall>i\<in>{d..<256}. key_bit path i = 0" "length out < limit"
  shows "leaves_loop ops s after limit ((tree_hash P t, d, path) # stack) out =
    (let out' = out @ t_page after t
     in if length out' \<ge> limit then Inr (take limit out') else leaves_loop ops s after limit stack out')"
  using assms(2-)
proof (induction t arbitrary: d path out stack)
  case TEmpty
  then show ?case by (subst leaves_loop.simps) (simp add: t_page_def)
next
  case (TLeaf k v)
  have "\<not> is_after (Some a) k" if "\<not> bytes_less a (subtree_max path d)" for a
    using pruned_subtree [OF TLeaf(3-5) that] by (simp split: if_splits)
  then show ?case
    using TLeaf tree_hash_EMPTY [OF assms(1), of "TLeaf k v"]
    by (subst leaves_loop.simps) (auto simp: t_page_def Let_def split: option.split)
next
  case (TBranch l r)
  show ?case
  proof (cases "\<exists>a. after = Some a \<and> \<not> bytes_less a (subtree_max path d)")
    case True
    then obtain a where a: "after = Some a" "\<not> bytes_less a (subtree_max path d)" by blast
    have "t_page after (TBranch l r) = []"
      unfolding t_page_def a(1) by (rule pruned_subtree [OF TBranch(5-7) a(2)])
    then show ?thesis
      using a tree_hash_EMPTY [OF assms(1), of "TBranch l r"] TBranch(3,9) by (subst leaves_loop.simps) simp
  next
    case False
    let ?p = "set_bit_at path d"
    have d: "d < 256" using TBranch(5) by (simp add: TREE_DEPTH_def)
    have pl: "on_path path (Suc d) l" 
      using on_path_left [OF TBranch(6,5)] TBranch(8) d by simp
    have bits: "key_bit ?p m = (if m = d then 1 else key_bit path m)" for m
      by (rule key_bit_set_bit_at [OF d TBranch(7)])
    have "on_path ?p d (TBranch l r)"
      using TBranch(6) by (simp add: on_path_def bits list_all_iff)
    then have pr: "on_path ?p (Suc d) r"
      using on_path_right [OF _ TBranch(5)] bits [of d] by simp
    have step: "leaves_loop ops s after limit ((tree_hash P (TBranch l r), d, path) # stack) out =
      leaves_loop ops s after limit ((tree_hash P l, Suc d, path) # (tree_hash P r, Suc d, ?p) # stack) out"
      using False tree_hash_EMPTY [OF assms(1), of "TBranch l r"] TBranch(3-5)
      by (subst leaves_loop.simps) (auto split: option.split)
    have L: "leaves_loop ops s after limit ((tree_hash P l, Suc d, path) # stack') out =
      (let out' = out @ t_page after l
       in if length out' \<ge> limit then Inr (take limit out') else leaves_loop ops s after limit stack' out')" for stack'
      using TBranch(3-5,7-9) pl by (intro TBranch(1)) simp_all
    have R: "leaves_loop ops s after limit ((tree_hash P r, Suc d, ?p) # stack') out' =
      (let out'' = out' @ t_page after r
       in if length out'' \<ge> limit then Inr (take limit out'') else leaves_loop ops s after limit stack' out'')"
      if "length out' < limit" for stack' out'
      using TBranch(3-5,7-9) pr bits that by (intro TBranch(2)) simp_all
    have page: "t_page after (TBranch l r) = t_page after l @ t_page after r"
      by (simp add: t_page_def)
    show ?thesis
      unfolding step L page using R [of "out @ t_page after l"] by (simp add: Let_def)
  qed
qed

lemma leaves_after_ok:
  assumes "clean P (tree_nodes P t)" "stored s t" "canonical 0 t"
  shows "leaves_after ops s (tree_hash P t) after limit = Inr (take limit (t_page after t))"
proof -
  have "key_bit (replicate 32 0) i = 0" if "i < 256" for i
    using that by (simp add: key_bit_of_bool)
  then show ?thesis
    using tree_hash_EMPTY [OF assms(1), of t]
      leaves_loop_ok [OF assms(1) _ assms(2,3) on_path_0, of "replicate 32 0" "[]" limit after "[]"]
    by (auto simp: leaves_after_def t_page_def Let_def)
qed

end

end
