(* ===== verification/Smt_Correct.thy ===== *)
theory Smt_Correct
  imports Smt_Pages
begin

text \<open>
  The properties of the sparse Merkle tree: its operations implement finite maps, roots do not
  depend on the order of the changes, proofs are complete and sound, and leaves can be fetched in
  pages.  The witnesses use a toy sponge on small keys.
\<close>

section \<open>A concrete tree\<close>

definition demo_sponge :: sponge where
  "demo_sponge xs = [1 + xs ! 4 + 256 * xs ! 8, 0, 0, 0]"

definition small_word :: "nat \<Rightarrow> h256" where
  "small_word n = le_bytes 8 n @ replicate 24 0"

lemma small_word_0: "small_word 0 = EMPTY"
  by (simp add: small_word_def EMPTY_def le_bytes_0 flip: replicate_add)

lemma length_small_word [simp]: "length (small_word n) = 32"
  by (simp add: small_word_def)

lemma small_word_inj: "m < 2 ^ 64 \<Longrightarrow> n < 2 ^ 64 \<Longrightarrow> small_word m = small_word n \<longleftrightarrow> m = n"
  unfolding small_word_def using le_nat_bytes_id [of m 8] le_nat_bytes_id [of n 8]
  by (simp del: le_nat_bytes_id) metis

lemma small_word_fields: "n < goldilocks_p \<Longrightarrow> bytes_to_goldilocks (small_word n) = [n, 0, 0, 0]"
  by (simp add: bytes_to_goldilocks_def small_word_def upt_rec goldilocks_p_def)

lemma length_bytes_to_goldilocks [simp]: "length (bytes_to_goldilocks bs) = 4"
  by (simp add: bytes_to_goldilocks_def)

lemma demo_hashes:
  assumes "a < goldilocks_p" "b < goldilocks_p"
  shows "hash_leaf demo_sponge (small_word a) (small_word b) = small_word (1 + a + 256 * b)"
    and "hash_branch demo_sponge (small_word a) (small_word b) = small_word (1 + a + 256 * b)"
proof -
  have len: "length leaf_domain = 4" "length branch_domain = 4"
    by (simp_all add: leaf_domain_def branch_domain_def domain_from_bytes_def Let_def)
  show "hash_leaf demo_sponge (small_word a) (small_word b) = small_word (1 + a + 256 * b)"
    "hash_branch demo_sponge (small_word a) (small_word b) = small_word (1 + a + 256 * b)"
    unfolding hash_leaf_def hash_branch_def demo_sponge_def small_word_fields [OF assms(1)] small_word_fields [OF assms(2)]
    by (simp_all add: nth_append len goldilocks_to_bytes_def small_word_def le_bytes_0 flip: replicate_add)
qed

text \<open>Keys on both sides of the root.\<close>

lemma small_word_byte: "small_word n ! 0 = word_of_nat (n mod 256)"
  using le_bytes.simps(2) [of 7 n] by (simp add: small_word_def)

lemma small_key_bits:
  "key_bit (small_word 0) 0 = 0" "key_bit (small_word 1) 0 = 0" "key_bit (small_word 128) 0 \<noteq> 0"
  by (simp_all add: key_bit_of_bool small_word_byte)

definition demo_leaf :: tree where
  "demo_leaf = TLeaf (small_word 0) (small_word 7)"

definition demo_tree :: tree where
  "demo_tree = TBranch demo_leaf (TLeaf (small_word 128) (small_word 9))"

definition demo_store :: mem_store where
  "demo_store = [small_word 1793 \<mapsto> Leaf (small_word 0) (small_word 7),
     small_word 2433 \<mapsto> Leaf (small_word 128) (small_word 9),
     small_word 624642 \<mapsto> Branch (small_word 1793) (small_word 2433)]"

lemma demo_tree_hashes [simp]:
  "hash_leaf demo_sponge (small_word 0) (small_word 7) = small_word 1793"
  "hash_leaf demo_sponge (small_word 128) (small_word 9) = small_word 2433"
  "hash_branch demo_sponge (small_word 1793) (small_word 2433) = small_word 624642"
  by (simp_all add: demo_hashes goldilocks_p_def)

lemma demo_tree_nodes [simp]:
  "tree_nodes demo_sponge demo_leaf = {Leaf (small_word 0) (small_word 7)}"
  "tree_nodes demo_sponge demo_tree = {Branch (small_word 1793) (small_word 2433),
     Leaf (small_word 0) (small_word 7), Leaf (small_word 128) (small_word 9)}"
  by (auto simp: demo_tree_def demo_leaf_def)

lemma clean_demo_tree: "clean demo_sponge (tree_nodes demo_sponge demo_tree)"
  by (simp add: clean_def node_hash_def small_word_inj flip: small_word_0)

lemma canonical_demo [simp]: "canonical 0 demo_leaf" "canonical 0 demo_tree"
  using small_key_bits by (simp_all add: demo_tree_def demo_leaf_def TREE_DEPTH_def)

lemma demo_stored:
  "stored_in demo_sponge (mem_store_ops demo_sponge) demo_store demo_leaf"
  "stored_in demo_sponge (mem_store_ops demo_sponge) demo_store demo_tree"
  "stored_in demo_sponge (overlay_store_ops demo_sponge (mem_store_ops demo_sponge)) (overlay_new demo_store) demo_leaf"
  by (simp_all add: stored_in_def node_hash_def mem_store_ops_def overlay_store_ops_def overlay_new_def
      demo_store_def small_word_inj)

lemma demo_update: "t_update 0 (small_word 128) (Some (small_word 9)) demo_leaf = demo_tree"
  using small_key_bits by (subst demo_leaf_def, simp add: small_word_inj, subst t_split.simps)
    (simp add: TREE_DEPTH_def demo_tree_def demo_leaf_def)

section \<open>Updates\<close>

text \<open>An invariant of the store that \<open>put\<close> keeps is kept by the updates.\<close>

lemma keeps_put: "(\<And>n s. I s \<Longrightarrow> I (snd (ns_put ops n s))) \<Longrightarrow> keeps I (put_node ops n)"
  by (simp add: valid_def put_node_def split: prod.split) (metis snd_conv)

lemma keeps_get_node [keeps_rules]: "keeps I (get_node ops h)"
  by (simp add: valid_def get_node_def split: sum.split)

lemma keeps_normalize:
  "(\<And>n. keeps I (put_node ops n)) \<Longrightarrow> keeps I (normalize ops l r)"
  unfolding normalize_def is_leaf_def by (intro keeps_rules)

lemma keeps_split_leaves:
  "(\<And>n. keeps I (put_node ops n)) \<Longrightarrow> keeps I (split_leaves ops d ka va kb vb)"
proof (induction ops d ka va kb vb rule: split_leaves.induct)
  case (1 ops d ka va kb vb)
  then show ?case
    by (subst split_leaves.simps) (auto intro!: keeps_rules simp: Let_def)
qed

lemma keeps_update_at:
  "(\<And>n. keeps I (put_node ops n)) \<Longrightarrow> keeps I (update_at ops h d key val)"
proof (induction ops h d key val rule: update_at.induct)
  case (1 ops h d key val)
  then show ?case
    by (subst update_at.simps)
      (auto intro!: keeps_rules keeps_split_leaves keeps_normalize split: option.split node.split)
qed

lemma update_keeps_base: "ov_base (snd (update (overlay_store_ops P base) root key val s)) = ov_base s"
proof -
  have "keeps (\<lambda>s'. ov_base s' = ov_base s) (update_at (overlay_store_ops P base) root 0 key val)"
    by (intro keeps_update_at keeps_put) (simp add: overlay_store_ops_def Let_def)
  then show ?thesis unfolding update_def by (rule keeps_state) simp
qed

text \<open>
  C9: Setting or deleting a key through an overlay on any store implements the update of a finite
  map: from a root that stands for a canonical tree, \<open>update\<close> succeeds (no \<open>MissingNode\<close>, no
  \<open>DepthExceeded\<close>) with the root of a canonical tree for the updated map, \<open>get\<close> on the new
  root is lookup in that map, the old root can still be read, and the base store is untouched.  The
  hypothesis is that the hash has no collision among the nodes of the old and the new tree.
\<close>

theorem smt_update_refines:
  assumes "clean P (tree_nodes P t \<union> tree_nodes P (t_update 0 key val t))"
    and "canonical 0 t" "length key = 32" "stored_in P (overlay_store_ops P base) s t"
  shows "\<exists>t' s'. update (overlay_store_ops P base) (tree_hash P t) key val s = (Inr (tree_hash P t'), s') \<and>
    canonical 0 t' \<and> tree_map t' = (tree_map t)(key := val) \<and>
    (\<forall>k. smt_get (overlay_store_ops P base) s' (tree_hash P t') k = Inr (((tree_map t)(key := val)) k)) \<and>
    stored_in P (overlay_store_ops P base) s' t \<and> stored_in P (overlay_store_ops P base) s' t' \<and> ov_base s' = ov_base s"
proof -
  let ?t = "t_update 0 key val t" and ?N = "tree_nodes P t \<union> tree_nodes P (t_update 0 key val t)"
  note t = t_update_ok [OF assms(2,3) on_path_0, of val]
  obtain s' where s': "update (overlay_store_ops P base) (tree_hash P t) key val s = (Inr (tree_hash P ?t), s')"
    "stored_in P (overlay_store_ops P base) s' ?t" "overlay.extends_by P base ?N s s'"
    using overlay.update_ok [OF assms(1) subset_refl assms(2,3), of base s] assms(4)
    unfolding overlay.builds_def by blast
  have "stored_in P (overlay_store_ops P base) s' t"
    using overlay.stored_extends [OF assms(1) s'(3)] assms(4) by simp
  moreover have "smt_get (overlay_store_ops P base) s' (tree_hash P ?t) k = Inr (tree_map ?t k)" for k
    using overlay.get_loop_ok [OF assms(1), of ?t 0 base s' k] t s'(2) t_lookup_tree_map [of 0 ?t k]
    unfolding smt_get_def by simp
  moreover have "ov_base s' = ov_base s"
    using update_keeps_base [of P base "tree_hash P t" key val s] s'(1) by simp
  ultimately show ?thesis using s' t by metis
qed

theorem smt_update_refines_witness:
  "\<exists>t' s'. update (overlay_store_ops demo_sponge (mem_store_ops demo_sponge)) (small_word 1793) (small_word 128)
      (Some (small_word 9)) (overlay_new demo_store) = (Inr (tree_hash demo_sponge t'), s') \<and>
    tree_map t' = [small_word 0 \<mapsto> small_word 7, small_word 128 \<mapsto> small_word 9] \<and> ov_base s' = demo_store"
proof -
  have "clean demo_sponge (tree_nodes demo_sponge demo_leaf \<union>
      tree_nodes demo_sponge (t_update 0 (small_word 128) (Some (small_word 9)) demo_leaf))"
    by (rule clean_subset [OF clean_demo_tree]) (auto simp: demo_update)
  from smt_update_refines [OF this _ _ demo_stored(3)] show ?thesis
    by (auto simp: demo_leaf_def overlay_new_def)
qed

text \<open>
  C10: The root depends on the contents only: two sequences of changes with the same effect on the
  map, in particular two orders of changes to different keys, end in the same root, whatever
  stores they run on.
\<close>

theorem smt_root_order_irrelevant:
  assumes "clean P (\<Union> (tree_nodes P ` set (t_history cs t @ t_history cs' t)))"
    and "canonical 0 t" "stored_in P (mem_store_ops P) s t" "stored_in P (overlay_store_ops P base) s' t"
    and "list_all (\<lambda>(key, val). length key = 32) (cs @ cs')"
    and "apply_changes cs (tree_map t) = apply_changes cs' (tree_map t)"
  shows "\<exists>root. fst (update_many (mem_store_ops P) (tree_hash P t) cs s) = Inr root \<and>
    fst (update_many (overlay_store_ops P base) (tree_hash P t) cs' s') = Inr root"
proof -
  have k: "list_all (\<lambda>(key, val). length key = 32) cs" "list_all (\<lambda>(key, val). length key = 32) cs'"
    using assms(5) by simp_all
  have "t_update_many cs t = t_update_many cs' t"
    using t_update_many_ok [OF assms(2) k(1)] t_update_many_ok [OF assms(2) k(2)] assms(6) canonical_unique by metis
  moreover have "fst (update_many (mem_store_ops P) (tree_hash P t) cs s) = Inr (tree_hash P (t_update_many cs t))"
    using mem.update_many_builds [OF assms(1) _ assms(2) k(1) assms(3)] unfolding mem.builds_def by fastforce
  moreover have "fst (update_many (overlay_store_ops P base) (tree_hash P t) cs' s') = Inr (tree_hash P (t_update_many cs' t))"
    using overlay.update_many_builds [OF assms(1) _ assms(2) k(2) assms(4)] unfolding overlay.builds_def by fastforce
  ultimately show ?thesis by simp
qed

theorem smt_root_order_irrelevant_witness:
  "\<exists>root. fst (update_many (mem_store_ops demo_sponge) EMPTY
      [(small_word 0, Some (small_word 7)), (small_word 128, Some (small_word 9))] Map.empty) = Inr root \<and>
    fst (update_many (overlay_store_ops demo_sponge (mem_store_ops demo_sponge)) EMPTY
      [(small_word 128, Some (small_word 9)), (small_word 0, Some (small_word 7))] (overlay_new Map.empty)) = Inr root"
proof -
  let ?cs = "[(small_word 0, Some (small_word 7)), (small_word 128, Some (small_word 9))]"
  have split: "t_split 0 (small_word 128) (small_word 9) (small_word 0) (small_word 7) = demo_tree"
    using small_key_bits by (subst t_split.simps) (simp add: TREE_DEPTH_def demo_tree_def demo_leaf_def)
  have "clean demo_sponge (\<Union> (tree_nodes demo_sponge ` set (t_history ?cs TEmpty @ t_history (rev ?cs) TEmpty)))"
    using demo_update
    by (intro clean_subset [OF clean_demo_tree]) (auto simp: split small_word_inj simp flip: demo_leaf_def)
  from smt_root_order_irrelevant [OF this, where s = Map.empty and s' = "overlay_new Map.empty" and
      base = "mem_store_ops demo_sponge"]
  show ?thesis by (simp add: stored_in_def small_word_inj fun_upd_twist)
qed

section \<open>Proofs\<close>

text \<open>
  C11: The proofs that \<open>prove\<close> returns are complete: for a root of a canonical tree, the proof for
  a key exists, the inclusion check accepts it for exactly the value the map has at the key, and the
  exclusion check accepts it exactly when the map has none.  In particular neither check panics.
\<close>

theorem smt_prove_complete:
  assumes "clean P (tree_nodes P t)" "canonical 0 t" "stored_in P (overlay_store_ops P base) s t"
  shows "\<exists>p. prove (overlay_store_ops P base) s (tree_hash P t) key = Inr p \<and>
    (\<forall>val. verify_inclusion P (tree_hash P t) key val p = Some (tree_map t key = Some val)) \<and>
    verify_exclusion P (tree_hash P t) key p = Some (tree_map t key = None)"
proof -
  have "prove (overlay_store_ops P base) s (tree_hash P t) key = Inr (t_proof P key t)"
    using overlay.prove_loop_ok [OF assms(1) subset_refl assms(2,3), of key "[]"]
    by (simp add: prove_def t_proof_def)
  then show ?thesis
    using verify_inclusion_complete [OF assms(2)] verify_exclusion_complete [OF assms(2)] t_lookup_tree_map [OF assms(2)]
    by simp
qed

theorem smt_prove_complete_witness:
  "\<exists>p. prove (overlay_store_ops demo_sponge (mem_store_ops demo_sponge)) (overlay_new demo_store) (small_word 1793)
      (small_word 0) = Inr p \<and>
    verify_inclusion demo_sponge (small_word 1793) (small_word 0) (small_word 7) p = Some True \<and>
    verify_exclusion demo_sponge (small_word 1793) (small_word 0) p = Some False"
proof -
  have "clean demo_sponge (tree_nodes demo_sponge demo_leaf)"
    by (rule clean_subset [OF clean_demo_tree]) simp
  from smt_prove_complete [OF this canonical_demo(1) demo_stored(3), of "small_word 0"] show ?thesis
    by (auto simp: demo_leaf_def)
qed

text \<open>
  C12: Proofs are sound: whoever made the proof, an accepted inclusion proof shows that the map of
  the tree has the value at the key, and an accepted exclusion proof that it has none, when the
  hash does not collide on the nodes of the tree and the nodes that the proof speaks of.
\<close>

theorem smt_proof_sound:
  assumes "clean P (tree_nodes P t \<union> proof_nodes P key p)" "canonical 0 t"
  shows "(verify_inclusion P (tree_hash P t) key val p = Some True \<longrightarrow> tree_map t key = Some val) \<and>
    (verify_exclusion P (tree_hash P t) key p = Some True \<longrightarrow> tree_map t key = None)"
  using verify_inclusion_sound [OF assms(1)] verify_exclusion_sound [OF assms(1)] t_lookup_tree_map [OF assms(2)]
  by simp

theorem smt_proof_sound_witness:
  "let p = \<lparr> siblings = [small_word 2433], terminal_of = TermLeaf (small_word 0) (small_word 7) \<rparr> in
    clean demo_sponge (tree_nodes demo_sponge demo_tree \<union> proof_nodes demo_sponge (small_word 0) p) \<and>
    verify_inclusion demo_sponge (tree_hash demo_sponge demo_tree) (small_word 0) (small_word 7) p = Some True \<and>
    tree_map demo_tree (small_word 0) = Some (small_word 7)"
proof -
  let ?p = "\<lparr> siblings = [small_word 2433], terminal_of = TermLeaf (small_word 0) (small_word 7) \<rparr>"
  have c: "clean demo_sponge (tree_nodes demo_sponge demo_tree \<union> proof_nodes demo_sponge (small_word 0) ?p)"
    using small_key_bits
    by (intro clean_subset [OF clean_demo_tree]) (simp add: proof_nodes_def terminal_hash_def)
  have v: "verify_inclusion demo_sponge (tree_hash demo_sponge demo_tree) (small_word 0) (small_word 7) ?p = Some True"
    using small_key_bits
    by (simp add: verify_inclusion_def compute_root_def TREE_DEPTH_def terminal_hash_def demo_tree_def demo_leaf_def)
  show ?thesis
    unfolding Let_def using smt_proof_sound [OF c canonical_demo(2), of "small_word 7"] c v by blast
qed

text \<open>
  The checks of proofs panic exactly on proofs with more than 256 siblings that get to the
  computation of the root: an inclusion proof that ends in the claimed leaf, an exclusion proof that
  ends in an empty subtree.
\<close>

theorem smt_verify_panics:
  "(verify_inclusion P root key val p = None \<longleftrightarrow>
      terminal_of p = TermLeaf key val \<and> length (siblings p) > 256) \<and>
   (verify_exclusion P root key p = None \<longleftrightarrow> terminal_of p = TermEmpty \<and> length (siblings p) > 256)"
  by (auto simp: verify_inclusion_def verify_exclusion_def compute_root_def TREE_DEPTH_def split: terminal.splits)

text \<open>
  C22: Leaves are hashed through their field elements, so values that are different byte strings with
  the same field elements are indistinguishable: an accepted inclusion proof for a value gives one for
  every such value, and there are such values, e.g. zero and the field's modulus.
\<close>

theorem smt_value_aliases:
  "(\<forall>val'. bytes_to_goldilocks val' = bytes_to_goldilocks val \<and> verify_inclusion P root key val p = Some True \<longrightarrow>
      verify_inclusion P root key val' (p\<lparr>terminal_of := TermLeaf key val'\<rparr>) = Some True) \<and>
   bytes_to_goldilocks (small_word goldilocks_p) = bytes_to_goldilocks EMPTY \<and> small_word goldilocks_p \<noteq> EMPTY"
proof (intro conjI allI impI)
  fix val'
  assume v: "bytes_to_goldilocks val' = bytes_to_goldilocks val \<and> verify_inclusion P root key val p = Some True"
  then have "hash_leaf P key val' = hash_leaf P key val" by (simp add: hash_leaf_def)
  with v show "verify_inclusion P root key val' (p\<lparr>terminal_of := TermLeaf key val'\<rparr>) = Some True"
    by (auto simp: verify_inclusion_def compute_root_def terminal_hash_def split: terminal.splits if_splits)
next
  show "bytes_to_goldilocks (small_word goldilocks_p) = bytes_to_goldilocks EMPTY"
    by (simp add: bytes_to_goldilocks_def small_word_def EMPTY_def upt_rec goldilocks_p_def)
  show "small_word goldilocks_p \<noteq> EMPTY"
    unfolding small_word_0 [symmetric] by (simp add: small_word_inj goldilocks_p_def)
qed

theorem smt_value_aliases_witness:
  "verify_inclusion demo_sponge (small_word 1) EMPTY (small_word goldilocks_p)
     \<lparr> siblings = [], terminal_of = TermLeaf EMPTY (small_word goldilocks_p) \<rparr> = Some True"
proof -
  let ?p = "\<lparr> siblings = [], terminal_of = TermLeaf EMPTY EMPTY \<rparr>"
  have "hash_leaf demo_sponge EMPTY EMPTY = small_word 1"
    using demo_hashes(1) [of 0 0] unfolding small_word_0 by (simp add: goldilocks_p_def)
  then have "verify_inclusion demo_sponge (small_word 1) EMPTY EMPTY ?p = Some True"
    by (simp add: verify_inclusion_def compute_root_def terminal_hash_def)
  then show ?thesis
    using smt_value_aliases [of EMPTY demo_sponge "small_word 1" EMPTY ?p] by simp
qed

section \<open>Pages\<close>

lemma sorted_filter_drop:
  assumes "sorted_wrt (\<lambda>x y. bytes_less (fst x) (fst y)) xs" "0 < n" "n \<le> length xs"
  shows "filter (\<lambda>(k, v). bytes_less (fst (xs ! (n - 1))) k) xs = drop n xs"
proof -
  have "filter (\<lambda>(k, v). bytes_less (fst (xs ! (n - 1))) k) (take n xs) = []"
  proof (clarsimp simp: filter_empty_conv in_set_conv_nth)
    fix i k v
    assume i: "i < length xs" "i < n" "xs ! i = (k, v)" "bytes_less (fst (xs ! (n - Suc 0))) k"
    show False
    proof (cases "i = n - 1")
      case True
      then show False using i by simp
    next
      case False
      then have "bytes_less k (fst (xs ! (n - 1)))"
        using sorted_wrt_nth_less [OF assms(1), of i "n - 1"] assms(2,3) i by simp
      then show False using i(4) bytes_less_trans bytes_less_irrefl by (metis One_nat_def)
    qed
  qed
  moreover have "filter (\<lambda>(k, v). bytes_less (fst (xs ! (n - 1))) k) (drop n xs) = drop n xs"
  proof (clarsimp simp: filter_id_conv in_set_conv_nth)
    fix i k v
    assume i: "i < length xs - n" "xs ! (n + i) = (k, v)"
    then show "bytes_less (fst (xs ! (n - Suc 0))) k"
      using sorted_wrt_nth_less [OF assms(1), of "n - 1" "n + i"] assms(2,3) by simp
  qed
  ultimately show ?thesis
    by (metis append_self_conv2 append_take_drop_id filter_append)
qed

text \<open>
  C21: \<open>leaves_after\<close> returns the first leaves, in ascending order of their keys, of those whose key is
  behind the given one; asking again behind the last key of a full page returns the leaves that
  follow it, so that pages of any positive size fetch every leaf once.
\<close>

theorem smt_pages:
  assumes "clean P (tree_nodes P t)" "canonical 0 t" "stored_in P (overlay_store_ops P base) s t"
  shows "sorted_wrt (\<lambda>x y. bytes_less (fst x) (fst y)) (leaves t) \<and>
    leaves_after (overlay_store_ops P base) s (tree_hash P t) after limit =
      Inr (take limit (filter (\<lambda>(k, v). is_after after k) (leaves t))) \<and>
    (0 < n \<and> n \<le> length (leaves t) \<longrightarrow>
      leaves_after (overlay_store_ops P base) s (tree_hash P t) (Some (fst (leaves t ! (n - 1)))) limit =
        Inr (take limit (drop n (leaves t))))"
  using leaves_sorted [OF assms(2) on_path_0] overlay.leaves_after_ok [OF assms(1,3,2)]
    sorted_filter_drop [OF leaves_sorted [OF assms(2) on_path_0], of n]
  by (simp add: t_page_def is_after_def)

theorem smt_pages_witness:
  "leaves_after (overlay_store_ops demo_sponge (mem_store_ops demo_sponge)) (overlay_new demo_store) (small_word 1793)
     None 1 = Inr [(small_word 0, small_word 7)] \<and>
   leaves_after (overlay_store_ops demo_sponge (mem_store_ops demo_sponge)) (overlay_new demo_store) (small_word 1793)
     (Some (small_word 0)) 1 = Inr []"
proof -
  have "clean demo_sponge (tree_nodes demo_sponge demo_leaf)"
    by (rule clean_subset [OF clean_demo_tree]) simp
  note page = smt_pages [OF this canonical_demo(1) demo_stored(3), where limit = 1]
  show ?thesis
    using page [of None 1] by (simp add: demo_leaf_def is_after_def)
qed

section \<open>Keys and the encoding of nodes\<close>

lemma node_codec:
  "(\<forall>a b. length a = 32 \<and> length b = 32 \<longrightarrow>
      node_decode (node_encode (Leaf a b)) = Some (Leaf a b) \<and>
      node_decode (node_encode (Branch a b)) = Some (Branch a b)) \<and>
   (node_decode bs = Some n \<longrightarrow> node_encode n = bs) \<and>
   (node_decode bs = None \<longleftrightarrow> length bs \<noteq> 65 \<or> bs ! 0 \<notin> {0, 1})"
proof (intro conjI impI allI)
  show "node_decode bs = Some n \<Longrightarrow> node_encode n = bs"
  proof -
    assume d: "node_decode bs = Some n"
    then have "length bs = 65" by (auto simp: node_decode_def split: if_splits)
    then have "bs = bs ! 0 # take 32 (drop 1 bs) @ take 32 (drop 33 bs)"
      by (cases bs) (simp_all flip: take_add)
    with d show ?thesis
      by (auto simp: node_decode_def node_encode_def Let_def split: if_splits)
  qed
qed (auto simp: node_decode_def node_encode_def Let_def split: if_splits)

lemma pad32_id: "bs \<noteq> [] \<Longrightarrow> length bs mod 32 = 0 \<Longrightarrow> pad32 bs = bs"
  by (simp add: pad32_def)

lemma pad32_append_zero: "length bs mod 32 \<noteq> 0 \<Longrightarrow> pad32 (bs @ [0]) = pad32 bs"
proof -
  assume n: "length bs mod 32 \<noteq> 0"
  let ?r = "length bs mod 32"
  have r: "(32 - ?r) mod 32 = Suc (31 - ?r)"
    using n mod_less_divisor [of 32 "length bs"] by (simp del: mod_less_divisor)
  have "(32 - Suc (length bs) mod 32) mod 32 = 31 - ?r"
    using n mod_less_divisor [of 32 "length bs"] by (simp add: mod_Suc del: mod_less_divisor)
  then show ?thesis using n unfolding pad32_def r by auto
qed

text \<open>\<open>hash_key\<close> pads with zeros and does not hash the length.\<close>

lemma hash_key_append_zero: "length data mod 32 \<noteq> 0 \<Longrightarrow> hash_key P (data @ [0]) = hash_key P data"
  by (simp add: hash_key_def pad32_append_zero)

end
