(* ===== verification/Tx_Hashing.thy ===== *)
theory Tx_Hashing
  imports Sighash
begin

text \<open>
  Hashes and identifiers of transactions (\<open>consensus/core/src/hashing/tx.rs\<close>) and the digest that
  account transactions sign (\<open>compute_account_tx_sighash\<close> of \<open>consensus/core/src/tx.rs\<close>).  The hash
  functions are parameters.
\<close>

section \<open>Definitions\<close>

definition EXCLUDE_SIGNATURE_SCRIPT :: u8 where "EXCLUDE_SIGNATURE_SCRIPT = 1"
definition EXCLUDE_MASS_COMMIT :: u8 where "EXCLUDE_MASS_COMMIT = 2"
definition FULL_ENCODING :: u8 where "FULL_ENCODING = 0"

definition flags_contain :: "u8 \<Rightarrow> u8 \<Rightarrow> bool" where
  "flags_contain flags f \<longleftrightarrow> flags AND f = f"

lemmas encoding_flags = EXCLUDE_SIGNATURE_SCRIPT_def EXCLUDE_MASS_COMMIT_def FULL_ENCODING_def flags_contain_def

definition write_len :: "nat \<Rightarrow> bytes" where
  "write_len n = u64_to_le (word_of_nat n)"

definition write_outpoint :: "registry_ref \<Rightarrow> bytes" where
  "write_outpoint outpoint = ref_transaction_id outpoint @ u32_to_le (ref_index outpoint)"

definition write_output :: "transaction_output \<Rightarrow> bytes" where
  "write_output out = u64_to_le (out_value out) @ u16_to_le (spk_version (out_script_public_key out)) @
     write_var_bytes (spk_script (out_script_public_key out))"

definition write_input :: "u8 \<Rightarrow> transaction_input \<Rightarrow> bytes" where
  "write_input flags input = write_outpoint (previous_outpoint input) @
     (if \<not> flags_contain flags EXCLUDE_SIGNATURE_SCRIPT
      then write_var_bytes (signature_script input) @ [sig_op_count input]
      else write_var_bytes []) @ u64_to_le (sequence input)"

definition write_transaction :: "u8 \<Rightarrow> transaction \<Rightarrow> bytes" where
  "write_transaction flags tx =
     u16_to_le (tx_version tx) @ write_len (length (tx_inputs tx)) @ concat (map (write_input flags) (tx_inputs tx)) @
     write_len (length (tx_outputs tx)) @ concat (map write_output (tx_outputs tx)) @
     u64_to_le (tx_lock_time tx) @ tx_subnetwork_id tx @ u64_to_le (tx_gas tx) @ write_var_bytes (tx_payload tx) @
     (if \<not> flags_contain flags EXCLUDE_MASS_COMMIT \<and> tx_mass tx > 0 then u64_to_le (tx_mass tx) else [])"

definition tx_hash :: "(bytes \<Rightarrow> bytes) \<Rightarrow> transaction \<Rightarrow> bytes" where
  "tx_hash sha3 tx = sha3_hasher sha3 ''TransactionHash'' (write_transaction FULL_ENCODING tx)"

definition tx_hash_pre_raigad :: "(bytes \<Rightarrow> bytes) \<Rightarrow> transaction \<Rightarrow> bytes" where
  "tx_hash_pre_raigad sha3 tx = sha3_hasher sha3 ''TransactionHash'' (write_transaction EXCLUDE_MASS_COMMIT tx)"

definition tx_id_flags :: "transaction \<Rightarrow> u8" where
  "tx_id_flags tx =
     (if is_coinbase tx then FULL_ENCODING else EXCLUDE_SIGNATURE_SCRIPT OR EXCLUDE_MASS_COMMIT)"

definition tx_id :: "(bytes \<Rightarrow> bytes) \<Rightarrow> transaction \<Rightarrow> bytes" where
  "tx_id sha3 tx = sha3_hasher sha3 ''TransactionID'' (write_transaction (tx_id_flags tx) tx)"

text \<open>The outputs of an account transaction are hashed without their number.\<close>

definition account_tx_preimage :: "transaction \<Rightarrow> bytes \<Rightarrow> bytes" where
  "account_tx_preimage tx signable_payload =
     ascii ''SAHYADRI_ACCOUNT_TX_V1'' @ u16_to_le (tx_version tx) @
     concat (map (\<lambda>out. u64_to_le (out_value out) @ u16_to_le (spk_version (out_script_public_key out)) @
       u64_to_le (word_of_nat (length (spk_script (out_script_public_key out)))) @
       spk_script (out_script_public_key out)) (tx_outputs tx)) @
     u64_to_le (tx_lock_time tx) @ tx_subnetwork_id tx @ u64_to_le (tx_gas tx) @
     u64_to_le (word_of_nat (length signable_payload)) @ signable_payload"

definition compute_account_tx_sighash :: "(bytes \<Rightarrow> bytes) \<Rightarrow> transaction \<Rightarrow> bytes \<Rightarrow> bytes" where
  "compute_account_tx_sighash sha tx signable_payload = sha (account_tx_preimage tx signable_payload)"

section \<open>The encoding is unambiguous\<close>

lemma write_output_eq: "write_output = hash_output"
  by (simp add: fun_eq_iff write_output_def hash_output_def hash_script_public_key_def)

lemma write_outpoint_eq: "write_outpoint = hash_outpoint"
  by (simp add: fun_eq_iff write_outpoint_def hash_outpoint_def)

definition wf_input :: "transaction_input \<Rightarrow> bool" where
  "wf_input input \<longleftrightarrow> wf_outpoint (previous_outpoint input) \<and> addressable (signature_script input)"

definition wf_transaction :: "transaction \<Rightarrow> bool" where
  "wf_transaction tx \<longleftrightarrow> list_all wf_input (tx_inputs tx) \<and> list_all wf_output (tx_outputs tx) \<and>
     length (tx_inputs tx) < 2 ^ 64 \<and> length (tx_outputs tx) < 2 ^ 64 \<and> length (tx_subnetwork_id tx) = 20 \<and>
     addressable (tx_payload tx)"

text \<open>The fields that an identifier covers.\<close>

definition strip_input :: "transaction_input \<Rightarrow> transaction_input" where
  "strip_input input = input\<lparr>signature_script := [], sig_op_count := 0\<rparr>"

definition strip :: "transaction \<Rightarrow> transaction" where
  "strip tx = tx\<lparr>tx_inputs := map strip_input (tx_inputs tx), tx_mass := 0\<rparr>"

lemma write_input_full:
  "write_input FULL_ENCODING input = hash_outpoint (previous_outpoint input) @ write_var_bytes (signature_script input) @
     [sig_op_count input] @ u64_to_le (sequence input)"
  by (simp add: write_input_def write_outpoint_eq encoding_flags)

lemma write_input_id:
  "write_input (EXCLUDE_SIGNATURE_SCRIPT OR EXCLUDE_MASS_COMMIT) input =
     hash_outpoint (previous_outpoint input) @ write_var_bytes [] @ u64_to_le (sequence input)"
  by (simp add: write_input_def write_outpoint_eq encoding_flags)

interpretation full_input: prefix_code "write_input FULL_ENCODING" wf_input
proof
  fix x y r s
  assume wf: "wf_input x" "wf_input y" and eq: "write_input FULL_ENCODING x @ r = write_input FULL_ENCODING y @ s"
  let ?rest = "\<lambda>i r. write_var_bytes (signature_script i) @ [sig_op_count i] @ u64_to_le (sequence i) @ r"
  have "previous_outpoint x = previous_outpoint y \<and> ?rest x r = ?rest y s"
    using eq wf by (intro outpoint_code.enc_cancel) (simp_all add: write_input_full wf_input_def)
  moreover from this have "signature_script x = signature_script y \<and>
      [sig_op_count x] @ u64_to_le (sequence x) @ r = [sig_op_count y] @ u64_to_le (sequence y) @ s"
    using wf by (intro var_bytes.enc_cancel) (simp_all add: wf_input_def)
  ultimately show "x = y \<and> r = s" by simp
next
  fix x show "wf_input x \<Longrightarrow> write_input FULL_ENCODING x \<noteq> []"
    by (simp add: write_input_full wf_input_def outpoint_code.enc_nonempty)
qed

definition stripped :: "transaction_input \<Rightarrow> bool" where
  "stripped input \<longleftrightarrow> wf_outpoint (previous_outpoint input) \<and> signature_script input = [] \<and> sig_op_count input = 0"

interpretation id_input: prefix_code "write_input (EXCLUDE_SIGNATURE_SCRIPT OR EXCLUDE_MASS_COMMIT)" stripped
proof
  fix x y r s
  assume wf: "stripped x" "stripped y" and eq: "write_input (EXCLUDE_SIGNATURE_SCRIPT OR EXCLUDE_MASS_COMMIT) x @ r =
      write_input (EXCLUDE_SIGNATURE_SCRIPT OR EXCLUDE_MASS_COMMIT) y @ s"
  have "previous_outpoint x = previous_outpoint y \<and>
      write_var_bytes [] @ u64_to_le (sequence x) @ r = write_var_bytes [] @ u64_to_le (sequence y) @ s"
    using eq wf by (intro outpoint_code.enc_cancel) (simp_all add: write_input_id stripped_def)
  moreover from this have "sequence x = sequence y \<and> r = s" by simp
  ultimately show "x = y \<and> r = s" using wf by (simp add: stripped_def)
next
  fix x show "stripped x \<Longrightarrow> write_input (EXCLUDE_SIGNATURE_SCRIPT OR EXCLUDE_MASS_COMMIT) x \<noteq> []"
    by (simp add: write_input_id stripped_def outpoint_code.enc_nonempty)
qed

text \<open>What follows the inputs.\<close>

definition tx_tail :: "transaction \<Rightarrow> bytes" where
  "tx_tail tx = write_len (length (tx_outputs tx)) @ concat (map hash_output (tx_outputs tx)) @
     u64_to_le (tx_lock_time tx) @ tx_subnetwork_id tx @ u64_to_le (tx_gas tx) @ write_var_bytes (tx_payload tx)"

context prefix_code
begin

lemma concat_cancel:
  "length xs = length ys \<Longrightarrow> list_all wf xs \<Longrightarrow> list_all wf ys \<Longrightarrow>
     concat (map enc xs) @ r = concat (map enc ys) @ s \<Longrightarrow> xs = ys \<and> r = s"
proof (induction xs ys rule: list_induct2)
  case (Cons x xs y ys)
  have "x = y \<and> concat (map enc xs) @ r = concat (map enc ys) @ s"
    by (rule enc_cancel) (use Cons.prems in simp_all)
  then show ?case using Cons.IH Cons.prems by simp
qed simp

lemma counted_cancel:
  assumes "list_all wf xs" "list_all wf ys" "length xs < 2 ^ 64" "length ys < 2 ^ 64"
    and "write_len (length xs) @ concat (map enc xs) @ r = write_len (length ys) @ concat (map enc ys) @ s"
  shows "xs = ys \<and> r = s"
proof -
  have "word_of_nat (length xs) = (word_of_nat (length ys) :: u64)" and eq: "concat (map enc xs) @ r = concat (map enc ys) @ s"
    using assms(5) by (simp_all add: write_len_def)
  then have "length xs = length ys" using word_of_nat_u64_inj assms(3,4) by blast
  then show ?thesis using concat_cancel assms(1,2) eq by blast
qed

end

lemma tail_cancel:
  assumes "wf_transaction tx" "wf_transaction tx'" "tx_tail tx @ r = tx_tail tx' @ s"
  shows "tx_outputs tx = tx_outputs tx' \<and> tx_lock_time tx = tx_lock_time tx' \<and> tx_subnetwork_id tx = tx_subnetwork_id tx' \<and>
    tx_gas tx = tx_gas tx' \<and> tx_payload tx = tx_payload tx' \<and> r = s"
proof -
  let ?rest = "\<lambda>tx r. u64_to_le (tx_lock_time tx) @ tx_subnetwork_id tx @ u64_to_le (tx_gas tx) @ write_var_bytes (tx_payload tx) @ r"
  have "tx_outputs tx = tx_outputs tx' \<and> ?rest tx r = ?rest tx' s"
    using assms by (intro output_code.counted_cancel) (simp_all add: wf_transaction_def tx_tail_def)
  then have o: "tx_outputs tx = tx_outputs tx'" and l: "tx_lock_time tx = tx_lock_time tx'"
    and rest: "tx_subnetwork_id tx @ u64_to_le (tx_gas tx) @ write_var_bytes (tx_payload tx) @ r =
      tx_subnetwork_id tx' @ u64_to_le (tx_gas tx') @ write_var_bytes (tx_payload tx') @ s"
    by simp_all
  have "tx_subnetwork_id tx = tx_subnetwork_id tx' \<and> tx_gas tx = tx_gas tx' \<and>
      write_var_bytes (tx_payload tx) @ r = write_var_bytes (tx_payload tx') @ s"
    using rest assms(1,2) by (simp add: wf_transaction_def)
  then show ?thesis
    using o l var_bytes.enc_cancel [of "tx_payload tx" "tx_payload tx'" r s] assms(1,2) by (simp add: wf_transaction_def)
qed


lemma write_transaction_full:
  "write_transaction FULL_ENCODING tx = u16_to_le (tx_version tx) @ write_len (length (tx_inputs tx)) @
     concat (map (write_input FULL_ENCODING) (tx_inputs tx)) @ tx_tail tx @
     (if tx_mass tx > 0 then u64_to_le (tx_mass tx) else [])"
  by (simp add: write_transaction_def tx_tail_def encoding_flags write_output_eq)

lemma write_transaction_id:
  "write_transaction (EXCLUDE_SIGNATURE_SCRIPT OR EXCLUDE_MASS_COMMIT) tx =
     u16_to_le (tx_version tx) @ write_len (length (tx_inputs tx)) @
     concat (map (write_input (EXCLUDE_SIGNATURE_SCRIPT OR EXCLUDE_MASS_COMMIT)) (tx_inputs tx)) @ tx_tail tx"
  by (simp add: write_transaction_def tx_tail_def encoding_flags write_output_eq)

lemma transaction_eqI:
  fixes tx tx' :: transaction
  assumes "tx_version tx = tx_version tx'" "tx_inputs tx = tx_inputs tx'"
    "tx_outputs tx = tx_outputs tx' \<and> tx_lock_time tx = tx_lock_time tx' \<and> tx_subnetwork_id tx = tx_subnetwork_id tx' \<and>
     tx_gas tx = tx_gas tx' \<and> tx_payload tx = tx_payload tx' \<and> r = s"
    "r = s \<Longrightarrow> tx_mass tx = tx_mass tx'"
  shows "tx = tx'"
  using assms by simp

text \<open>The full encoding determines the transaction, the mass commitment included.\<close>

lemma full_encoding_inj:
  assumes wf: "wf_transaction tx" "wf_transaction tx'"
    and eq: "write_transaction FULL_ENCODING tx = write_transaction FULL_ENCODING tx'"
  shows "tx = tx'"
proof -
  let ?mass = "\<lambda>tx. if tx_mass tx > 0 then u64_to_le (tx_mass tx) else []"
  let ?ins = "\<lambda>tx. write_len (length (tx_inputs tx)) @ concat (map (write_input FULL_ENCODING) (tx_inputs tx)) @ tx_tail tx @ ?mass tx"
  have version: "tx_version tx = tx_version tx'" and ins: "?ins tx = ?ins tx'"
    using eq by (simp_all only: write_transaction_full append_eq_append_conv length_u_to_le simp_thms u16_to_le_inj)
  have "tx_inputs tx = tx_inputs tx' \<and> tx_tail tx @ ?mass tx = tx_tail tx' @ ?mass tx'"
    by (rule full_input.counted_cancel) (use wf ins in \<open>simp_all only: wf_transaction_def\<close>)
  then have inputs: "tx_inputs tx = tx_inputs tx'" and tail: "tx_tail tx @ ?mass tx = tx_tail tx' @ ?mass tx'"
    by simp_all
  have mass: "?mass tx = ?mass tx' \<Longrightarrow> tx_mass tx = tx_mass tx'"
    by (auto split: if_splits simp: word_neq_0_conv [symmetric] dest: arg_cong [of _ _ length])
  show ?thesis
    by (rule transaction_eqI [OF version inputs tail_cancel [OF wf tail] mass])
qed

text \<open>The identifier's encoding determines the transaction up to signature scripts, counts and mass.\<close>

lemma map_write_strip:
  "map (write_input (EXCLUDE_SIGNATURE_SCRIPT OR EXCLUDE_MASS_COMMIT)) (map strip_input is) =
   map (write_input (EXCLUDE_SIGNATURE_SCRIPT OR EXCLUDE_MASS_COMMIT)) is"
  by (simp add: write_input_id strip_input_def)

lemma id_encoding_strip:
  "write_transaction (EXCLUDE_SIGNATURE_SCRIPT OR EXCLUDE_MASS_COMMIT) (strip tx) =
   write_transaction (EXCLUDE_SIGNATURE_SCRIPT OR EXCLUDE_MASS_COMMIT) tx"
  by (simp add: write_transaction_id strip_def tx_tail_def map_write_strip del: map_map)

lemma stripped_strip_input: "wf_input i \<Longrightarrow> stripped (strip_input i)"
  by (simp add: stripped_def strip_input_def wf_input_def)

lemma id_encoding_inj:
  assumes wf: "wf_transaction tx" "wf_transaction tx'"
    and eq: "write_transaction (EXCLUDE_SIGNATURE_SCRIPT OR EXCLUDE_MASS_COMMIT) tx =
      write_transaction (EXCLUDE_SIGNATURE_SCRIPT OR EXCLUDE_MASS_COMMIT) tx'"
  shows "strip tx = strip tx'"
proof -
  let ?w = "write_input (EXCLUDE_SIGNATURE_SCRIPT OR EXCLUDE_MASS_COMMIT)"
  let ?is = "\<lambda>tx. map strip_input (tx_inputs tx)"
  let ?ins = "\<lambda>tx. write_len (length (?is tx)) @ concat (map ?w (?is tx)) @ tx_tail tx"
  have version: "tx_version tx = tx_version tx'" and ins: "?ins tx = ?ins tx'"
    using eq unfolding write_transaction_id map_write_strip length_map append_eq_append_conv length_u_to_le
    by (simp_all only: append_eq_append_conv length_u_to_le simp_thms u16_to_le_inj)
  have "?is tx = ?is tx' \<and> tx_tail tx = tx_tail tx'"
    by (rule id_input.counted_cancel)
      (use wf ins in \<open>simp_all add: wf_transaction_def list_all_iff stripped_strip_input comp_def\<close>)
  then have inputs: "?is tx = ?is tx'" and tail: "tx_tail tx @ [] = tx_tail tx' @ []" by simp_all
  show ?thesis using tail_cancel [OF wf tail] version inputs by (simp add: strip_def)
qed

lemma account_preimage_inj:
  assumes wf: "wf_transaction tx" "wf_transaction tx'" and len: "length p = length p'"
    and eq: "account_tx_preimage tx p = account_tx_preimage tx' p'"
  shows "tx_version tx = tx_version tx' \<and> tx_outputs tx = tx_outputs tx' \<and> tx_lock_time tx = tx_lock_time tx' \<and>
    tx_subnetwork_id tx = tx_subnetwork_id tx' \<and> tx_gas tx = tx_gas tx' \<and> p = p'"
proof -
  have pre: "account_tx_preimage tx p = ascii ''SAHYADRI_ACCOUNT_TX_V1'' @ u16_to_le (tx_version tx) @
      concat (map hash_output (tx_outputs tx)) @ u64_to_le (tx_lock_time tx) @ tx_subnetwork_id tx @
      u64_to_le (tx_gas tx) @ u64_to_le (word_of_nat (length p)) @ p" for tx p
    by (simp add: account_tx_preimage_def hash_output_def [abs_def] hash_script_public_key_def write_var_bytes_def)
  have sub: "length (tx_subnetwork_id tx) = length (tx_subnetwork_id tx')" using wf by (simp add: wf_transaction_def)
  have "tx_version tx = tx_version tx' \<and> concat (map hash_output (tx_outputs tx)) = concat (map hash_output (tx_outputs tx')) \<and>
     tx_lock_time tx = tx_lock_time tx' \<and> tx_subnetwork_id tx = tx_subnetwork_id tx' \<and> tx_gas tx = tx_gas tx' \<and> p = p'"
    using eq sub len by (simp add: pre)
  then show ?thesis
    using output_code.concat_inj [of "tx_outputs tx" "tx_outputs tx'"] wf by (simp add: wf_transaction_def)
qed


lemma id_encoding_kind:
  assumes wf: "wf_transaction tx" "wf_transaction tx'"
    and cb: "is_coinbase tx" "tx_inputs tx = []" and ncb: "\<not> is_coinbase tx'"
  shows "write_transaction FULL_ENCODING tx \<noteq> write_transaction (EXCLUDE_SIGNATURE_SCRIPT OR EXCLUDE_MASS_COMMIT) tx'"
proof
  let ?w = "write_input (EXCLUDE_SIGNATURE_SCRIPT OR EXCLUDE_MASS_COMMIT)" and ?mass = "if tx_mass tx > 0 then u64_to_le (tx_mass tx) else []"
  assume "write_transaction FULL_ENCODING tx = write_transaction (EXCLUDE_SIGNATURE_SCRIPT OR EXCLUDE_MASS_COMMIT) tx'"
  then have ins: "write_len (length ([] :: transaction_input list)) @ concat (map ?w []) @ tx_tail tx @ ?mass =
      write_len (length (map strip_input (tx_inputs tx'))) @ concat (map ?w (map strip_input (tx_inputs tx'))) @ tx_tail tx'"
    unfolding write_transaction_full write_transaction_id map_write_strip length_map cb
    by (simp only: append_eq_append_conv length_u_to_le simp_thms list.map concat.simps append_Nil)
  have "[] = map strip_input (tx_inputs tx') \<and> tx_tail tx @ ?mass = tx_tail tx'"
    by (rule id_input.counted_cancel)
      (use wf ins in \<open>simp_all add: wf_transaction_def list_all_iff stripped_strip_input comp_def\<close>)
  then have "tx_tail tx @ ?mass = tx_tail tx' @ []" by simp
  then have "tx_subnetwork_id tx = tx_subnetwork_id tx'" using tail_cancel [OF wf] by blast
  then show False using cb(1) ncb by (simp add: is_coinbase_def)
qed

lemma full_encoding_strip:
  "tx_inputs tx = [] \<Longrightarrow> tx_inputs tx' = [] \<Longrightarrow> tx = tx' \<longleftrightarrow> strip tx = strip tx' \<and> tx_mass tx = tx_mass tx'"
  for tx tx' :: transaction
  by (cases tx; cases tx') (auto simp: strip_def)

lemma is_coinbase_strip: "strip tx = strip tx' \<Longrightarrow> is_coinbase tx = is_coinbase tx'"
proof -
  have "tx_subnetwork_id (strip t) = tx_subnetwork_id t" for t by (simp add: strip_def)
  then show "strip tx = strip tx' \<Longrightarrow> is_coinbase tx = is_coinbase tx'" by (metis is_coinbase_def)
qed

section \<open>Properties\<close>

text \<open>
  A transaction's hash commits to all of it: if SHA3-256 tells the two encodings apart, two
  transactions with the same hash are equal, signature scripts and mass commitment included.
\<close>

theorem tx_hash_commits:
  assumes "wf_transaction tx" "wf_transaction tx'"
    and "inj_on sha3 ((\<lambda>t. sha3 (ascii ''TransactionHash'') @ write_transaction FULL_ENCODING t) ` {tx, tx'})"
    and "tx_hash sha3 tx = tx_hash sha3 tx'"
  shows "tx = tx'"
proof -
  let ?f = "\<lambda>t. sha3 (ascii ''TransactionHash'') @ write_transaction FULL_ENCODING t"
  have "sha3 (?f tx) = sha3 (?f tx')" using assms(4) by (simp only: tx_hash_def sha3_hasher_def)
  then have "?f tx = ?f tx'" by (rule inj_onD [OF assms(3)]) (rule imageI, blast)+
  then have "write_transaction FULL_ENCODING tx = write_transaction FULL_ENCODING tx'" by (simp only: same_append_eq)
  then show ?thesis by (rule full_encoding_inj [OF assms(1,2)])
qed

text \<open>
  C38: A transaction's identifier commits to exactly what the signatures do not depend on: two
  transactions have the same identifier if and only if they agree on everything but signature
  scripts, signature operation counts and mass, so completing or altering a signature never
  changes an identifier and changing anything else always does.  A coinbase transaction, which
  has no inputs, never shares its identifier with another kind, and its mass is covered.
\<close>

theorem tx_id_commits:
  assumes wf: "wf_transaction tx" "wf_transaction tx'"
    and cb: "is_coinbase tx \<longrightarrow> tx_inputs tx = []" "is_coinbase tx' \<longrightarrow> tx_inputs tx' = []"
    and inj: "inj_on sha3 ((\<lambda>t. sha3 (ascii ''TransactionID'') @ write_transaction (tx_id_flags t) t) ` {tx, tx'})"
  shows "tx_id sha3 tx = tx_id sha3 tx' \<longleftrightarrow> strip tx = strip tx' \<and> (is_coinbase tx \<longrightarrow> tx_mass tx = tx_mass tx')"
proof -
  let ?f = "\<lambda>t. sha3 (ascii ''TransactionID'') @ write_transaction (tx_id_flags t) t"
  have "sha3 (?f tx) = sha3 (?f tx') \<longleftrightarrow> ?f tx = ?f tx'"
    by (rule inj_on_eq_iff [OF inj]) (rule imageI, blast)+
  then have "tx_id sha3 tx = tx_id sha3 tx' \<longleftrightarrow> write_transaction (tx_id_flags tx) tx = write_transaction (tx_id_flags tx') tx'"
    by (simp only: tx_id_def sha3_hasher_def same_append_eq)
  moreover consider "is_coinbase tx" "is_coinbase tx'" | "is_coinbase tx \<noteq> is_coinbase tx'"
    | "\<not> is_coinbase tx" "\<not> is_coinbase tx'" by blast
  then have "write_transaction (tx_id_flags tx) tx = write_transaction (tx_id_flags tx') tx' \<longleftrightarrow>
      strip tx = strip tx' \<and> (is_coinbase tx \<longrightarrow> tx_mass tx = tx_mass tx')"
  proof cases
    case 1
    then show ?thesis
      using cb full_encoding_inj [OF wf] full_encoding_strip [of tx tx'] by (auto simp: tx_id_flags_def)
  next
    case 2
    then show ?thesis
      using id_encoding_kind [OF wf] id_encoding_kind [OF wf(2,1)] cb is_coinbase_strip [of tx tx']
      by (auto simp: tx_id_flags_def)
  next
    case 3
    then show ?thesis
      using id_encoding_inj [OF wf] id_encoding_strip [of tx] id_encoding_strip [of tx'] by (auto simp: tx_id_flags_def)
  qed
  ultimately show ?thesis by simp
qed

text \<open>
  C39: The digest an account transaction signs commits to its version, outputs, lock time,
  subnetwork, gas, sender key and nonce: although the outputs are hashed without their number,
  two transactions whose signed payload parts have the fixed account length never share a
  message.  Neither inputs nor mass are part of it.
\<close>

theorem account_sighash_commits:
  assumes "wf_transaction tx" "wf_transaction tx'" "length p = 1960" "length p' = 1960"
    and "inj_on sha {account_tx_preimage tx p, account_tx_preimage tx' p'}"
  shows "compute_account_tx_sighash sha tx p = compute_account_tx_sighash sha tx' p' \<longleftrightarrow>
    (tx_version tx, tx_outputs tx, tx_lock_time tx, tx_subnetwork_id tx, tx_gas tx, p) =
    (tx_version tx', tx_outputs tx', tx_lock_time tx', tx_subnetwork_id tx', tx_gas tx', p')"
    (is "?h \<longleftrightarrow> ?t")
proof
  assume ?h
  then have "account_tx_preimage tx p = account_tx_preimage tx' p'"
    using inj_on_eq_iff [OF assms(5)] by (simp add: compute_account_tx_sighash_def)
  then show ?t using account_preimage_inj [OF assms(1,2), of p p'] assms(3,4) by simp
next
  assume ?t
  then show ?h by (simp add: compute_account_tx_sighash_def account_tx_preimage_def)
qed

text \<open>Two transactions that differ in a signature script, and one that differs in its payload.\<close>

lemma wf_demo_transaction: "length s < 2 ^ 64 \<Longrightarrow> wf_transaction (demo_transaction s)"
  by (simp add: wf_transaction_def demo_transaction_def transaction_new_def wf_input_def wf_outpoint_def wf_output_def
      wf_spk_def addressable_def SUBNETWORK_ID_NATIVE_def subnetwork_from_byte_def)

lemma demo_not_coinbase: "\<not> is_coinbase (demo_transaction s)"
  by (simp add: is_coinbase_def demo_transaction_def transaction_new_def SUBNETWORK_ID_NATIVE_def
      SUBNETWORK_ID_COINBASE_def subnetwork_from_byte_def)

theorem tx_hash_commits_witness:
  "wf_transaction (demo_transaction [1]) \<and> wf_transaction (demo_transaction [2]) \<and>
   tx_hash (\<lambda>b. b) (demo_transaction [1]) \<noteq> tx_hash (\<lambda>b. b) (demo_transaction [2])"
proof -
  have "demo_transaction [1] \<noteq> demo_transaction [2]" by (simp add: demo_transaction_def transaction_new_def)
  then show ?thesis
    using tx_hash_commits [of "demo_transaction [1]" "demo_transaction [2]" "\<lambda>b. b"] by (auto simp: wf_demo_transaction)
qed

theorem tx_id_commits_witness:
  "tx_id (\<lambda>b. b) (demo_transaction [1]) = tx_id (\<lambda>b. b) (demo_transaction [2]) \<and>
   tx_id (\<lambda>b. b) (demo_transaction [1]) \<noteq> tx_id (\<lambda>b. b) ((demo_transaction [1])\<lparr>tx_gas := 1\<rparr>)"
proof -
  let ?g = "(demo_transaction [1])\<lparr>tx_gas := 1\<rparr>"
  have "wf_transaction ?g" using wf_demo_transaction [of "[1]"] by (simp add: wf_transaction_def)
  moreover have "\<not> is_coinbase ?g" using demo_not_coinbase [of "[1]"] by (simp add: is_coinbase_def)
  moreover have "strip (demo_transaction [1]) = strip (demo_transaction [2])" "strip (demo_transaction [1]) \<noteq> strip ?g"
    by (simp_all add: strip_def demo_transaction_def transaction_new_def strip_input_def)
  ultimately show ?thesis
    using tx_id_commits [of "demo_transaction [1]" "demo_transaction [2]" "\<lambda>b. b"]
      tx_id_commits [of "demo_transaction [1]" ?g "\<lambda>b. b"] demo_not_coinbase by (auto simp: wf_demo_transaction)
qed

theorem account_sighash_commits_witness:
  "compute_account_tx_sighash (\<lambda>b. b) (demo_transaction []) (replicate 1960 7) \<noteq>
   compute_account_tx_sighash (\<lambda>b. b) ((demo_transaction [])\<lparr>tx_outputs := []\<rparr>) (replicate 1960 7)"
proof -
  let ?n = "(demo_transaction [])\<lparr>tx_outputs := []\<rparr>"
  have "wf_transaction ?n" using wf_demo_transaction [of "[]"] by (simp add: wf_transaction_def)
  moreover have "tx_outputs (demo_transaction []) \<noteq> []" by (simp add: demo_transaction_def transaction_new_def)
  ultimately show ?thesis
    using account_sighash_commits [of "demo_transaction []" ?n "replicate 1960 7" "replicate 1960 7" "\<lambda>b. b"]
    by (simp add: wf_demo_transaction)
qed

end
