(* ===== verification/Merkle.thy ===== *)
theory Merkle
  imports Tx_Hashing
begin

text \<open>
  Merkle roots of transaction lists (\<open>crypto/merkle/src/lib.rs\<close>, \<open>consensus/core/src/merkle.rs\<close>):
  the loop over one array of optional nodes, a recursive reference for it, and what a root
  commits to.
\<close>

section \<open>Definitions\<close>

text \<open>\<open>usize::next_power_of_two\<close>.\<close>

function power_of_two_from :: "nat \<Rightarrow> nat \<Rightarrow> nat" where
  "power_of_two_from k n = (if n \<le> 2 ^ k then 2 ^ k else power_of_two_from (k + 1) n)"
  by auto
termination
proof (relation "measure (\<lambda>(k, n). n - k)")
  fix k n :: nat
  assume "\<not> n \<le> 2 ^ k"
  moreover have "k < 2 ^ k" by (rule less_exp)
  ultimately have "k < n" by linarith
  then show "((k + 1, n), (k, n)) \<in> measure (\<lambda>(k, n). n - k)" by auto
qed simp

declare power_of_two_from.simps [simp del]

definition next_power_of_two :: "nat \<Rightarrow> nat" where
  "next_power_of_two n = power_of_two_from 0 n"

definition merkle_hash :: "(bytes \<Rightarrow> bytes) \<Rightarrow> bytes \<Rightarrow> bytes \<Rightarrow> bytes" where
  "merkle_hash sha3 left right = sha3_hasher sha3 ''MerkleBranchHash'' (left @ right)"

definition unwrap_or :: "'a option \<Rightarrow> 'a \<Rightarrow> 'a" where
  "unwrap_or x d = (case x of None \<Rightarrow> d | Some y \<Rightarrow> y)"

definition merkle_step ::
    "(bytes \<Rightarrow> bytes) \<Rightarrow> nat \<Rightarrow> bytes option list \<times> nat \<Rightarrow> bytes option list \<times> nat" where
  "merkle_step sha3 i = (\<lambda>(merkles, offset).
     (merkles[offset :=
        (case merkles ! i of
           None \<Rightarrow> None
         | Some left \<Rightarrow> Some (merkle_hash sha3 left (unwrap_or (merkles ! (i + 1)) ZERO_HASH)))], offset + 1))"

text \<open>The loop runs over the even indices below the last cell; \<open>None\<close> is the panic of the last \<open>unwrap\<close>.\<close>

definition calc_merkle_root :: "(bytes \<Rightarrow> bytes) \<Rightarrow> bytes list \<Rightarrow> bytes option" where
  "calc_merkle_root sha3 hashes =
     (if hashes = [] then Some ZERO_HASH
      else let next_pot = next_power_of_two (length hashes);
               vec_len = 2 * next_pot - 1;
               merkles = map Some hashes @ replicate (vec_len - length hashes) None
           in last (fst (fold (merkle_step sha3) (map ((*) 2) [0..<next_pot - 1]) (merkles, next_pot))))"

definition calc_hash_merkle_root :: "(bytes \<Rightarrow> bytes) \<Rightarrow> transaction list \<Rightarrow> bytes option" where
  "calc_hash_merkle_root sha3 txs = calc_merkle_root sha3 (map (tx_hash sha3) txs)"

definition calc_hash_merkle_root_pre_raigad :: "(bytes \<Rightarrow> bytes) \<Rightarrow> transaction list \<Rightarrow> bytes option" where
  "calc_hash_merkle_root_pre_raigad sha3 txs = calc_merkle_root sha3 (map (tx_hash_pre_raigad sha3) txs)"

section \<open>A reference by levels\<close>

fun merkle_level :: "(bytes \<Rightarrow> bytes) \<Rightarrow> bytes list \<Rightarrow> bytes list" where
  "merkle_level sha3 (l # r # hs) = merkle_hash sha3 l r # merkle_level sha3 hs"
| "merkle_level sha3 [l] = [merkle_hash sha3 l ZERO_HASH]"
| "merkle_level sha3 [] = []"

lemma length_merkle_level [simp]: "length (merkle_level sha3 hs) = (length hs + 1) div 2"
  by (induction sha3 hs rule: merkle_level.induct) auto

function merkle_ref :: "(bytes \<Rightarrow> bytes) \<Rightarrow> bytes list \<Rightarrow> bytes" where
  "merkle_ref sha3 hs = (case hs of [] \<Rightarrow> ZERO_HASH | [h] \<Rightarrow> h | _ \<Rightarrow> merkle_ref sha3 (merkle_level sha3 hs))"
  by auto
termination
  by (relation "measure (\<lambda>(sha3, hs). length hs)") auto

declare merkle_ref.simps [simp del]

lemma merkle_ref_simps [simp]:
  "merkle_ref sha3 [] = ZERO_HASH" "merkle_ref sha3 [h] = h"
  "merkle_ref sha3 (l # r # hs) = merkle_ref sha3 (merkle_level sha3 (l # r # hs))"
  by (subst merkle_ref.simps, simp)+

section \<open>The loop computes the reference\<close>

lemma power_of_two_from_spec:
  "\<exists>j \<ge> k. power_of_two_from k n = 2 ^ j \<and> n \<le> 2 ^ j \<and> (k < j \<longrightarrow> 2 ^ (j - 1) < n)"
proof (induction k n rule: power_of_two_from.induct)
  case (1 k n)
  show ?case
  proof (cases "n \<le> 2 ^ k")
    case True
    then show ?thesis by (intro exI [of _ k]) (simp add: power_of_two_from.simps)
  next
    case False
    then obtain j where j: "k + 1 \<le> j" "power_of_two_from (k + 1) n = 2 ^ j" "n \<le> 2 ^ j" "k + 1 < j \<longrightarrow> 2 ^ (j - 1) < n"
      using 1 by blast
    then have "2 ^ (j - 1) < n" using False by (cases "k + 1 = j") auto
    then show ?thesis using j False by (intro exI [of _ j]) (simp add: power_of_two_from.simps [of k n])
  qed
qed

lemma next_power_of_two_spec:
  obtains k where "next_power_of_two n = 2 ^ k" "n \<le> 2 ^ k" "k = 0 \<or> 2 ^ (k - 1) < n"
  using power_of_two_from_spec [of 0 n] unfolding next_power_of_two_def by blast

text \<open>What one step puts into its cell.\<close>

definition merge_cells :: "(bytes \<Rightarrow> bytes) \<Rightarrow> bytes option \<Rightarrow> bytes option \<Rightarrow> bytes option" where
  "merge_cells sha3 l r = (case l of None \<Rightarrow> None | Some left \<Rightarrow> Some (merkle_hash sha3 left (unwrap_or r ZERO_HASH)))"

lemma merkle_step_cells: "merkle_step sha3 i (ms, off) = (ms[off := merge_cells sha3 (ms ! i) (ms ! (i + 1))], off + 1)"
  unfolding merkle_step_def merge_cells_def prod.case ..

lemma merkle_loop:
  assumes "length ms = 2 * p - 1" "t \<le> p - 1"
  shows "\<exists>ms'. fold (merkle_step sha3) (map ((*) 2) [0..<t]) (ms, p) = (ms', p + t) \<and> length ms' = length ms \<and>
    (\<forall>i < p. ms' ! i = ms ! i) \<and> (\<forall>j < t. ms' ! (p + j) = merge_cells sha3 (ms' ! (2 * j)) (ms' ! (2 * j + 1)))"
  using assms(2)
proof (induction t)
  case (Suc t)
  then obtain ms' where ms': "fold (merkle_step sha3) (map ((*) 2) [0..<t]) (ms, p) = (ms', p + t)" "length ms' = length ms"
    "\<forall>i < p. ms' ! i = ms ! i" "\<forall>j < t. ms' ! (p + j) = merge_cells sha3 (ms' ! (2 * j)) (ms' ! (2 * j + 1))"
    by auto
  let ?c = "merge_cells sha3 (ms' ! (2 * t)) (ms' ! (2 * t + 1))"
  let ?ms = "ms'[p + t := ?c]"
  have keep: "?ms ! i = ms' ! i" if "i < p + t" for i using that by simp
  have "fold (merkle_step sha3) (map ((*) 2) [0..<Suc t]) (ms, p) = (?ms, p + Suc t)"
    by (simp add: ms'(1) merkle_step_cells)
  moreover have "?ms ! (p + j) = merge_cells sha3 (?ms ! (2 * j)) (?ms ! (2 * j + 1))" if "j < Suc t" for j
  proof -
    have "2 * j + 1 < p + t" using that Suc.prems by linarith
    then have "?ms ! (2 * j) = ms' ! (2 * j)" "?ms ! (2 * j + 1) = ms' ! (2 * j + 1)" by (auto intro: keep)
    then show ?thesis
      using that ms'(2,4) assms(1) Suc.prems by (cases "j = t") (auto simp: keep)
  qed
  ultimately show ?case using ms'(2,3) keep by auto
qed simp

text \<open>A level occupies its cells from the left.\<close>

definition level_at :: "bytes option list \<Rightarrow> nat \<Rightarrow> nat \<Rightarrow> bytes list \<Rightarrow> bool" where
  "level_at ms s w hs \<longleftrightarrow> length hs \<le> w \<and> (\<forall>j < w. ms ! (s + j) = (if j < length hs then Some (hs ! j) else None))"

lemma nth_merkle_level:
  "j < length (merkle_level sha3 hs) \<Longrightarrow>
     merkle_level sha3 hs ! j =
       merkle_hash sha3 (hs ! (2 * j)) (if 2 * j + 1 < length hs then hs ! (2 * j + 1) else ZERO_HASH)"
proof (induction sha3 hs arbitrary: j rule: merkle_level.induct)
  case (1 sha3 l r hs)
  then show ?case by (cases j) auto
qed auto

lemma level_next:
  assumes "level_at ms (2 * s) (2 * w) hs"
    and "\<forall>j < w. ms ! (p + s + j) = merge_cells sha3 (ms ! (2 * (s + j))) (ms ! (2 * (s + j) + 1))"
  shows "level_at ms (p + s) w (merkle_level sha3 hs)"
  unfolding level_at_def
proof (intro conjI allI impI)
  show "length (merkle_level sha3 hs) \<le> w" using assms(1) unfolding level_at_def length_merkle_level by linarith
  fix j assume j: "j < w"
  have cell: "ms ! (2 * s + i) = (if i < length hs then Some (hs ! i) else None)" if "i < 2 * w" for i
    using assms(1) that by (simp add: level_at_def)
  have even: "2 * j < 2 * w" and odd: "2 * j + 1 < 2 * w" using j by simp_all
  have "ms ! (p + s + j) = merge_cells sha3 (ms ! (2 * s + 2 * j)) (ms ! (2 * s + (2 * j + 1)))"
    using assms(2) j by (simp add: algebra_simps)
  also have "\<dots> = (if j < length (merkle_level sha3 hs) then Some (merkle_level sha3 hs ! j) else None)"
    unfolding cell [OF even] cell [OF odd] using nth_merkle_level [of j sha3 hs] by (auto simp: merge_cells_def unwrap_or_def)
  finally show "ms ! (p + s + j) = (if j < length (merkle_level sha3 hs) then Some (merkle_level sha3 hs ! j) else None)" .
qed

lemma merkle_levels:
  assumes "\<forall>j < 2 ^ k - 1. ms ! (2 ^ k + j) = merge_cells sha3 (ms ! (2 * j)) (ms ! (2 * j + 1))"
    and "level_at ms 0 (2 ^ k) hs" "d \<le> k"
  shows "level_at ms (2 * 2 ^ k - 2 * 2 ^ (k - d)) (2 ^ (k - d)) ((merkle_level sha3 ^^ d) hs)"
  using assms(3)
proof (induction d)
  case 0
  then show ?case using assms(2) by simp
next
  case (Suc d)
  define q :: nat where "q = 2 ^ (k - Suc d)"
  have q: "2 ^ (k - d) = 2 * q" "0 < q" using Suc.prems by (simp_all add: q_def Suc_diff_Suc flip: power_Suc)
  have le: "2 * q \<le> 2 ^ k" using q(1) by (metis diff_le_self one_le_numeral power_increasing)
  have "level_at ms (2 * (2 ^ k - 2 * q)) (2 * q) ((merkle_level sha3 ^^ d) hs)"
    using Suc q by (simp add: algebra_simps)
  moreover have "\<forall>j < q. ms ! (2 ^ k + (2 ^ k - 2 * q) + j) =
      merge_cells sha3 (ms ! (2 * (2 ^ k - 2 * q + j))) (ms ! (2 * (2 ^ k - 2 * q + j) + 1))"
  proof (intro allI impI)
    fix j assume "j < q"
    then have "2 ^ k - 2 * q + j < 2 ^ k - 1" using le by linarith
    then show "ms ! (2 ^ k + (2 ^ k - 2 * q) + j) =
      merge_cells sha3 (ms ! (2 * (2 ^ k - 2 * q + j))) (ms ! (2 * (2 ^ k - 2 * q + j) + 1))"
      using assms(1) by (metis add.assoc)
  qed
  ultimately have "level_at ms (2 ^ k + (2 ^ k - 2 * q)) q (merkle_level sha3 ((merkle_level sha3 ^^ d) hs))"
    by (rule level_next)
  moreover have "2 ^ k + (2 ^ k - 2 * q) = 2 * 2 ^ k - 2 * q" using le by simp
  ultimately show ?case by (simp add: q_def)
qed

lemma merkle_ref_levels:
  "hs \<noteq> [] \<Longrightarrow> length hs \<le> 2 ^ k \<Longrightarrow> k = 0 \<or> 2 ^ (k - 1) < length hs \<Longrightarrow>
     (merkle_level sha3 ^^ k) hs = [merkle_ref sha3 hs]"
proof (induction k arbitrary: hs)
  case 0
  then show ?case by (cases hs) auto
next
  case (Suc k)
  have "(1 :: nat) \<le> 2 ^ k" by simp
  then obtain l r rest where hs: "hs = l # r # rest"
    using Suc.prems(3) by (cases hs; cases "tl hs") auto
  let ?n = "length hs"
  have "(?n + 1) div 2 \<le> 2 ^ k" using Suc.prems(2) unfolding power_Suc by linarith
  moreover have "k = 0 \<or> 2 ^ (k - 1) < (?n + 1) div 2"
  proof (cases k)
    case (Suc j)
    then have "2 * 2 ^ j < ?n" using Suc.prems(3) by simp
    then have "2 ^ j < (?n + 1) div 2" by linarith
    then show ?thesis using Suc by simp
  qed simp
  ultimately have "(merkle_level sha3 ^^ k) (merkle_level sha3 hs) = [merkle_ref sha3 (merkle_level sha3 hs)]"
    by (intro Suc.IH) (simp_all add: hs)
  then show ?case by (simp add: funpow_swap1 hs)
qed

lemma calc_merkle_root_ref: "calc_merkle_root sha3 hs = Some (merkle_ref sha3 hs)"
proof (cases "hs = []")
  case True
  then show ?thesis by (simp add: calc_merkle_root_def)
next
  case False
  obtain k where k: "next_power_of_two (length hs) = 2 ^ k" "length hs \<le> 2 ^ k" "k = 0 \<or> 2 ^ (k - 1) < length hs"
    by (rule next_power_of_two_spec)
  define p :: nat where "p = 2 ^ k"
  have p: "0 < p" "length hs \<le> p" using k(2) by (simp_all add: p_def)
  let ?ms = "map Some hs @ replicate (2 * p - 1 - length hs) None"
  have len: "length ?ms = 2 * p - 1" using p by simp
  obtain ms where ms: "fold (merkle_step sha3) (map ((*) 2) [0..<p - 1]) (?ms, p) = (ms, p + (p - 1))" "length ms = 2 * p - 1"
    "\<forall>i < p. ms ! i = ?ms ! i" "\<forall>j < p - 1. ms ! (p + j) = merge_cells sha3 (ms ! (2 * j)) (ms ! (2 * j + 1))"
    using merkle_loop [OF len order_refl, of sha3] unfolding len by blast
  have "level_at ms 0 (2 ^ k) hs"
    using ms(3) p by (auto simp: level_at_def nth_append simp flip: p_def)
  then have "level_at ms (2 * 2 ^ k - 2 * 2 ^ (k - k)) (2 ^ (k - k)) ((merkle_level sha3 ^^ k) hs)"
    using ms(4) by (intro merkle_levels) (simp_all add: p_def)
  then have "ms ! (2 * p - 2) = Some (merkle_ref sha3 hs)"
    using merkle_ref_levels [OF False k(2,3), of sha3] by (simp add: level_at_def p_def)
  moreover have "last ms = ms ! (2 * p - 2)" using ms(2) p by (subst last_conv_nth) (auto simp: numeral_2_eq_2)
  ultimately show ?thesis
    using False unfolding calc_merkle_root_def Let_def k(1) p_def [symmetric] ms(1) by simp
qed


section \<open>What a root commits to\<close>

abbreviation branch_string :: "(bytes \<Rightarrow> bytes) \<Rightarrow> bytes \<Rightarrow> bytes \<Rightarrow> bytes" where
  "branch_string sha3 l r \<equiv> sha3 (ascii ''MerkleBranchHash'') @ l @ r"

abbreviation leaf_string :: "(bytes \<Rightarrow> bytes) \<Rightarrow> transaction \<Rightarrow> bytes" where
  "leaf_string sha3 tx \<equiv> sha3 (ascii ''TransactionHash'') @ write_transaction FULL_ENCODING tx"

fun level_strings :: "(bytes \<Rightarrow> bytes) \<Rightarrow> bytes list \<Rightarrow> bytes set" where
  "level_strings sha3 (l # r # hs) = insert (branch_string sha3 l r) (level_strings sha3 hs)"
| "level_strings sha3 [l] = {branch_string sha3 l ZERO_HASH}"
| "level_strings sha3 [] = {}"

function merkle_strings :: "(bytes \<Rightarrow> bytes) \<Rightarrow> bytes list \<Rightarrow> bytes set" where
  "merkle_strings sha3 hs =
     (case hs of [] \<Rightarrow> {} | [h] \<Rightarrow> {} | _ \<Rightarrow> level_strings sha3 hs \<union> merkle_strings sha3 (merkle_level sha3 hs))"
  by auto
termination
  by (relation "measure (\<lambda>(sha3, hs). length hs)") auto

declare merkle_strings.simps [simp del]

lemma merkle_strings_simps [simp]:
  "merkle_strings sha3 [] = {}" "merkle_strings sha3 [h] = {}"
  "merkle_strings sha3 (l # r # hs) =
     level_strings sha3 (l # r # hs) \<union> merkle_strings sha3 (merkle_level sha3 (l # r # hs))"
  by (subst merkle_strings.simps, simp)+

definition block_strings :: "(bytes \<Rightarrow> bytes) \<Rightarrow> transaction list \<Rightarrow> bytes set" where
  "block_strings sha3 txs = {ascii ''TransactionHash'', ascii ''MerkleBranchHash''} \<union>
     leaf_string sha3 ` set txs \<union> merkle_strings sha3 (map (tx_hash sha3) txs)"

text \<open>\<open>node_at sha3 S L d v\<close>: \<open>v\<close> is the digest of a node of height \<open>d\<close> over the leaves \<open>L\<close>.\<close>

fun node_at :: "(bytes \<Rightarrow> bytes) \<Rightarrow> bytes set \<Rightarrow> bytes set \<Rightarrow> nat \<Rightarrow> bytes \<Rightarrow> bool" where
  "node_at sha3 S L 0 v \<longleftrightarrow> v \<in> sha3 ` L"
| "node_at sha3 S L (Suc d) v \<longleftrightarrow>
     (\<exists>a b. v = sha3 (branch_string sha3 a b) \<and> branch_string sha3 a b \<in> S \<and> node_at sha3 S L d a)"

definition separated :: "(bytes \<Rightarrow> bytes) \<Rightarrow> bytes set \<Rightarrow> bytes set \<Rightarrow> bool" where
  "separated sha3 S L \<longleftrightarrow> digests_apart sha3 (S \<union> L) \<and> (\<forall>a b. branch_string sha3 a b \<notin> L)"

lemma separated_eq: "separated sha3 S L \<Longrightarrow> x \<in> S \<union> L \<Longrightarrow> y \<in> S \<union> L \<Longrightarrow> sha3 x = sha3 y \<Longrightarrow> x = y"
  unfolding separated_def digests_apart_def by (blast dest: inj_onD)

lemma node_at_digest:
  assumes "separated sha3 S L" "node_at sha3 S L d v"
  shows "length v = 32 \<and> v \<noteq> ZERO_HASH"
proof -
  have "\<exists>x \<in> S \<union> L. v = sha3 x" using assms(2) by (cases d) auto
  then show ?thesis using assms(1) by (auto simp: separated_def digests_apart_def)
qed

lemma branch_eq:
  assumes "separated sha3 S L" "branch_string sha3 a b \<in> S" "branch_string sha3 a' b' \<in> S" "length a = length a'"
    and "sha3 (branch_string sha3 a b) = sha3 (branch_string sha3 a' b')"
  shows "a = a' \<and> b = b'"
proof -
  have "branch_string sha3 a b = branch_string sha3 a' b'"
    using separated_eq [OF assms(1) _ _ assms(5)] assms(2,3) by blast
  then show ?thesis using assms(4) by simp
qed

lemma node_height:
  assumes "separated sha3 S L"
  shows "node_at sha3 S L d v \<Longrightarrow> node_at sha3 S L e v \<Longrightarrow> d = e"
proof (induction d arbitrary: e v)
  case 0
  then show ?case
  proof (cases e)
    case (Suc e')
    then obtain a b x where v: "v = sha3 (branch_string sha3 a b)" "branch_string sha3 a b \<in> S" "v = sha3 x" "x \<in> L"
      using 0 by auto
    have "branch_string sha3 a b = x"
      using separated_eq [OF assms, of "branch_string sha3 a b" x] v by simp
    then show ?thesis using assms v(4) by (auto simp: separated_def)
  qed simp
next
  case (Suc d)
  obtain a b where v: "v = sha3 (branch_string sha3 a b)" "branch_string sha3 a b \<in> S" "node_at sha3 S L d a"
    using Suc.prems(1) by auto
  show ?case
  proof (cases e)
    case 0
    then obtain x where x: "v = sha3 x" "x \<in> L" using Suc.prems(2) by auto
    have "branch_string sha3 a b = x"
      using separated_eq [OF assms, of "branch_string sha3 a b" x] v(1,2) x by simp
    then show ?thesis using assms x(2) by (auto simp: separated_def)
  next
    case (Suc e')
    then obtain a' b' where v': "v = sha3 (branch_string sha3 a' b')" "branch_string sha3 a' b' \<in> S" "node_at sha3 S L e' a'"
      using Suc.prems(2) by auto
    have "length a = length a'" using node_at_digest [OF assms] v(3) v'(3) by metis
    then have "a = a'" using branch_eq [OF assms v(2) v'(2)] v(1) v'(1) by simp
    then show ?thesis using Suc.IH [OF v(3)] v'(3) Suc by simp
  qed
qed

lemma level_nodes:
  "list_all (node_at sha3 S L d) hs \<Longrightarrow> level_strings sha3 hs \<subseteq> S \<Longrightarrow>
     list_all (node_at sha3 S L (Suc d)) (merkle_level sha3 hs)"
  by (induction sha3 hs rule: merkle_level.induct) (auto simp: merkle_hash_def sha3_hasher_def)

lemma pair_cancel:
  assumes "separated sha3 S L" "node_at sha3 S L d l" "node_at sha3 S L d l'" "branch_string sha3 l r \<in> S"
    "branch_string sha3 l' r' \<in> S" "merkle_hash sha3 l r = merkle_hash sha3 l' r'"
  shows "l = l' \<and> r = r'"
  using branch_eq [OF assms(1,4,5)] node_at_digest [OF assms(1,2)] node_at_digest [OF assms(1,3)] assms(6)
  by (simp add: merkle_hash_def sha3_hasher_def)

lemma list_two_cases:
  obtains "xs = []" | x where "xs = [x]" | x y ys where "xs = x # y # ys"
  by (cases xs; cases "tl xs") auto

lemma level_cancel:
  assumes sep: "separated sha3 S L"
  shows "list_all (node_at sha3 S L d) hs \<Longrightarrow> list_all (node_at sha3 S L d) hs' \<Longrightarrow> level_strings sha3 hs \<subseteq> S \<Longrightarrow>
     level_strings sha3 hs' \<subseteq> S \<Longrightarrow> merkle_level sha3 hs = merkle_level sha3 hs' \<Longrightarrow> hs = hs'"
proof (induction hs arbitrary: hs' rule: induct_list012)
  case 1
  then show ?case by (cases hs' rule: list_two_cases) simp_all
next
  case (2 l)
  show ?case
  proof (cases hs' rule: list_two_cases)
    case 1
    then show ?thesis using "2.prems" by simp
  next
    case one: (2 l')
    have "l = l' \<and> ZERO_HASH = ZERO_HASH"
      by (rule pair_cancel [OF sep, where d = d]) (use "2.prems" one in simp_all)
    then show ?thesis using one by simp
  next
    case (3 l' r' ys)
    have "l = l' \<and> ZERO_HASH = r'"
      by (rule pair_cancel [OF sep, where d = d]) (use "2.prems" 3 in simp_all)
    then show ?thesis using node_at_digest [OF sep, of d r'] "2.prems"(2) 3 by simp
  qed
next
  case (3 l r xs)
  show ?case
  proof (cases hs' rule: list_two_cases)
    case 1
    then show ?thesis using "3.prems" by simp
  next
    case (2 l')
    have "l = l' \<and> r = ZERO_HASH"
      by (rule pair_cancel [OF sep, where d = d]) (use "3.prems" 2 in simp_all)
    then show ?thesis using node_at_digest [OF sep, of d r] "3.prems"(1) by simp
  next
    case two: (3 l' r' ys)
    have "l = l' \<and> r = r'"
      by (rule pair_cancel [OF sep, where d = d]) (use "3.prems" two in simp_all)
    moreover have "xs = ys" by (rule "3.IH"(1)) (use "3.prems" two in simp_all)
    ultimately show ?thesis using two by simp
  qed
qed

lemma merkle_long:
  "1 < length hs \<Longrightarrow> merkle_ref sha3 hs = merkle_ref sha3 (merkle_level sha3 hs)"
  "1 < length hs \<Longrightarrow> merkle_strings sha3 hs = level_strings sha3 hs \<union> merkle_strings sha3 (merkle_level sha3 hs)"
  "1 < length hs \<Longrightarrow> length (merkle_level sha3 hs) < length hs" "1 < length hs \<Longrightarrow> merkle_level sha3 hs \<noteq> []"
  by (cases hs; cases "tl hs"; simp; fail)+

lemma root_node:
  "hs \<noteq> [] \<Longrightarrow> list_all (node_at sha3 S L d) hs \<Longrightarrow> merkle_strings sha3 hs \<subseteq> S \<Longrightarrow>
     \<exists>j. node_at sha3 S L (d + j) (merkle_ref sha3 hs) \<and> (1 < length hs \<longrightarrow> 0 < j)"
proof (induction "length hs" arbitrary: hs d rule: less_induct)
  case less
  show ?case
  proof (cases "1 < length hs")
    case True
    have "list_all (node_at sha3 S L (Suc d)) (merkle_level sha3 hs)"
      using less.prems(2,3) merkle_long(2) [OF True] by (intro level_nodes) blast+
    then obtain j where "node_at sha3 S L (Suc d + j) (merkle_ref sha3 (merkle_level sha3 hs))"
      using less.hyps [OF merkle_long(3) [OF True] merkle_long(4) [OF True]] less.prems(3) merkle_long(2) [OF True] by blast
    then show ?thesis using merkle_long(1) [OF True, of sha3] by (intro exI [of _ "Suc j"]) (simp del: node_at.simps)
  next
    case False
    then obtain h where "hs = [h]" using less.prems(1) by (cases hs) auto
    then show ?thesis using less.prems(2) by (intro exI [of _ 0]) simp
  qed
qed

lemma merkle_ref_cancel:
  assumes sep: "separated sha3 S L"
  shows "hs \<noteq> [] \<Longrightarrow> hs' \<noteq> [] \<Longrightarrow> list_all (node_at sha3 S L d) hs \<Longrightarrow> list_all (node_at sha3 S L d) hs' \<Longrightarrow>
     merkle_strings sha3 hs \<subseteq> S \<Longrightarrow> merkle_strings sha3 hs' \<subseteq> S \<Longrightarrow>
     merkle_ref sha3 hs = merkle_ref sha3 hs' \<Longrightarrow> hs = hs'"
proof (induction "length hs" arbitrary: hs hs' d rule: less_induct)
  case less
  obtain i j where ij: "node_at sha3 S L (d + i) (merkle_ref sha3 hs)" "1 < length hs \<longrightarrow> 0 < i"
      "node_at sha3 S L (d + j) (merkle_ref sha3 hs')" "1 < length hs' \<longrightarrow> 0 < j"
    using root_node [of hs sha3 S L d] root_node [of hs' sha3 S L d] less.prems by blast
  have single: "xs = [hd xs] \<Longrightarrow> node_at sha3 S L d (merkle_ref sha3 xs)" if "list_all (node_at sha3 S L d) xs" for xs
    using that by (cases xs; cases "tl xs") auto
  consider "hs = [hd hs]" "hs' = [hd hs']" | "hs = [hd hs]" "1 < length hs'" | "1 < length hs" "hs' = [hd hs']"
    | "1 < length hs" "1 < length hs'"
    using less.prems(1,2) by (cases hs; cases "tl hs"; cases hs'; cases "tl hs'") auto
  then show ?case
  proof cases
    case 1
    then show ?thesis using less.prems(7) merkle_ref_simps(2) by metis
  next
    case 2
    then show ?thesis using node_height [OF sep single [OF less.prems(3)] ij(3) [folded less.prems(7)]] ij(4) by simp
  next
    case 3
    then show ?thesis using node_height [OF sep single [OF less.prems(4)] ij(1) [unfolded less.prems(7)]] ij(2) by simp
  next
    case 4
    note m = merkle_long [OF 4(1), of sha3] and m' = merkle_long [OF 4(2), of sha3]
    have sub: "level_strings sha3 hs \<subseteq> S" "level_strings sha3 hs' \<subseteq> S" "merkle_strings sha3 (merkle_level sha3 hs) \<subseteq> S"
      "merkle_strings sha3 (merkle_level sha3 hs') \<subseteq> S"
      using less.prems(5,6) m(2) m'(2) by blast+
    have "merkle_level sha3 hs = merkle_level sha3 hs'"
      using less.prems(7) m(1) m'(1)
      by (intro less.hyps [OF m(3,4) m'(4) level_nodes [OF less.prems(3) sub(1)] level_nodes [OF less.prems(4) sub(2)] sub(3,4)]) simp
    then show ?thesis by (rule level_cancel [OF sep less.prems(3,4) sub(1,2)])
  qed
qed


lemma digests_apart_subset: "digests_apart sha3 T \<Longrightarrow> S \<subseteq> T \<Longrightarrow> digests_apart sha3 S"
  by (auto simp: digests_apart_def intro: inj_on_subset)

lemma block_separated:
  assumes "digests_apart sha3 (block_strings sha3 txs \<union> block_strings sha3 txs')"
  shows "separated sha3 (merkle_strings sha3 (map (tx_hash sha3) txs) \<union> merkle_strings sha3 (map (tx_hash sha3) txs'))
    (leaf_string sha3 ` set txs \<union> leaf_string sha3 ` set txs')"
    (is "separated sha3 ?S ?L")
  unfolding separated_def
proof (intro conjI allI notI)
  let ?T = "block_strings sha3 txs \<union> block_strings sha3 txs'"
  show "digests_apart sha3 (?S \<union> ?L)"
    by (rule digests_apart_subset [OF assms]) (auto simp: block_strings_def)
  fix a b assume "branch_string sha3 a b \<in> ?L"
  then obtain t where t: "branch_string sha3 a b = leaf_string sha3 t" by auto
  have in_T: "ascii ''MerkleBranchHash'' \<in> ?T" "ascii ''TransactionHash'' \<in> ?T" by (simp_all add: block_strings_def)
  then have "length (sha3 (ascii ''MerkleBranchHash'')) = 32" "length (sha3 (ascii ''TransactionHash'')) = 32"
    using assms unfolding digests_apart_def by blast+
  then have "sha3 (ascii ''MerkleBranchHash'') = sha3 (ascii ''TransactionHash'')" using t by simp
  then have "ascii ''MerkleBranchHash'' = ascii ''TransactionHash''"
    using assms in_T unfolding digests_apart_def by (blast dest: inj_onD)
  then have "length (ascii ''MerkleBranchHash'') = length (ascii ''TransactionHash'')" by (rule arg_cong)
  then show False by (simp add: ascii_def)
qed

lemma tx_hash_leaf: "tx_hash sha3 t = sha3 (leaf_string sha3 t)"
  by (simp add: tx_hash_def sha3_hasher_def)

lemma tx_hashes_cancel:
  assumes "separated sha3 S L" "leaf_string sha3 ` set txs \<subseteq> L" "leaf_string sha3 ` set txs' \<subseteq> L"
    and "list_all wf_transaction txs" "list_all wf_transaction txs'" "map (tx_hash sha3) txs = map (tx_hash sha3) txs'"
  shows "txs = txs'"
proof (rule list_eq_iff_nth_eq [THEN iffD2], intro conjI allI impI)
  show len: "length txs = length txs'" using assms(6) by (rule map_eq_imp_length_eq)
  fix i assume i: "i < length txs"
  then have mem: "txs ! i \<in> set txs" "txs' ! i \<in> set txs'" using len by simp_all
  have "sha3 (leaf_string sha3 (txs ! i)) = sha3 (leaf_string sha3 (txs' ! i))"
    using arg_cong [OF assms(6), of "\<lambda>l. l ! i"] i len by (simp only: nth_map tx_hash_leaf)
  then have "leaf_string sha3 (txs ! i) = leaf_string sha3 (txs' ! i)"
    using separated_eq [OF assms(1)] assms(2,3) mem by blast
  then have "write_transaction FULL_ENCODING (txs ! i) = write_transaction FULL_ENCODING (txs' ! i)" by (simp only: same_append_eq)
  then show "txs ! i = txs' ! i" using full_encoding_inj assms(4,5) mem by (meson list.pred_set)
qed

section \<open>Properties\<close>

text \<open>
  C16: The loop over one array computes the root of the tree built level by level, in which a
  missing right neighbour counts as the zero hash, for every number of hashes, and never panics.
\<close>

theorem merkle_loop_refines: "calc_merkle_root sha3 hashes = Some (merkle_ref sha3 hashes)"
  by (rule calc_merkle_root_ref)

text \<open>
  C17: The hash Merkle root of a block commits to its transactions: if SHA3-256 has no collision
  among the strings hashed and none of them hashes to the zero hash, two lists of transactions
  with the same root are equal, also when their numbers differ.
\<close>

theorem block_root_commits:
  assumes "digests_apart sha3 (block_strings sha3 txs \<union> block_strings sha3 txs')"
    and "list_all wf_transaction txs" "list_all wf_transaction txs'"
    and "calc_hash_merkle_root sha3 txs = calc_hash_merkle_root sha3 txs'"
  shows "txs = txs'"
proof -
  let ?hs = "map (tx_hash sha3) txs" and ?hs' = "map (tx_hash sha3) txs'"
  define S L where "S = merkle_strings sha3 ?hs \<union> merkle_strings sha3 ?hs'" "L = leaf_string sha3 ` set txs \<union> leaf_string sha3 ` set txs'"
  have sep: "separated sha3 S L" using block_separated [OF assms(1)] by (simp only: S_L_def)
  have nodes: "list_all (node_at sha3 S L 0) ?hs" "list_all (node_at sha3 S L 0) ?hs'"
    by (auto simp: list_all_iff S_L_def tx_hash_leaf)
  have root: "merkle_ref sha3 ?hs = merkle_ref sha3 ?hs'"
    using assms(4) by (simp add: calc_hash_merkle_root_def calc_merkle_root_ref)
  have zero: "hs = []" if "merkle_ref sha3 hs = ZERO_HASH" "list_all (node_at sha3 S L 0) hs" "merkle_strings sha3 hs \<subseteq> S" for hs
    using that root_node [of hs sha3 S L 0] node_at_digest [OF sep] by blast
  have "?hs = ?hs'"
  proof (cases "?hs = [] \<or> ?hs' = []")
    case True
    then show ?thesis using zero [OF _ nodes(1)] zero [OF _ nodes(2)] root unfolding S_L_def by auto
  next
    case False
    then show ?thesis
      by (intro merkle_ref_cancel [OF sep _ _ nodes]) (simp_all add: root S_L_def)
  qed
  then show ?thesis
    by (intro tx_hashes_cancel [OF sep _ _ assms(2,3)]) (auto simp: S_L_def)
qed

theorem block_root_commits_witness:
  "calc_hash_merkle_root demo_digest [demo_transaction []] \<noteq> calc_hash_merkle_root demo_digest [demo_transaction [], demo_transaction [1]]"
proof
  let ?a = "[demo_transaction []]" and ?b = "[demo_transaction [], demo_transaction [1]]"
  assume eq: "calc_hash_merkle_root demo_digest ?a = calc_hash_merkle_root demo_digest ?b"
  have "digests_apart demo_digest (block_strings demo_digest ?a \<union> block_strings demo_digest ?b)"
    unfolding block_strings_def
    by (rule digests_apart_length)
      (auto simp: demo_defs demo_digest_def tx_hash_leaf ascii_def write_transaction_full write_input_full tx_tail_def
        hash_outpoint_def hash_output_def hash_script_public_key_def write_var_bytes_def write_len_def
        SUBNETWORK_ID_NATIVE_def subnetwork_from_byte_def)
  then have "?a = ?b"
    by (rule block_root_commits) (simp_all only: eq, simp_all add: wf_demo_transaction)
  then show False by simp
qed

end
