(* ===== verification/Mass.thy ===== *)
theory Mass
  imports Tx_Types
begin

text \<open>
  Masses of transactions (\<open>consensus/core/src/mass/mod.rs\<close>): the estimated size, the masses that
  need no context, and the storage mass of KIP-9.  Sums of 64-bit integers wrap around, as in the
  release profile.
\<close>

section \<open>Definitions\<close>

definition HASH_SIZE :: nat where "HASH_SIZE = 32"
definition SUBNETWORK_ID_SIZE :: nat where "SUBNETWORK_ID_SIZE = 20"
definition TRANSIENT_BYTE_TO_MASS_FACTOR :: u64 where "TRANSIENT_BYTE_TO_MASS_FACTOR = 4"

definition outpoint_estimated_serialized_size :: u64 where
  "outpoint_estimated_serialized_size = word_of_nat HASH_SIZE + 4"

definition transaction_input_estimated_serialized_size :: "transaction_input \<Rightarrow> u64" where
  "transaction_input_estimated_serialized_size input =
     outpoint_estimated_serialized_size + 8 + word_of_nat (length (signature_script input)) + 8"

definition transaction_output_estimated_serialized_size :: "transaction_output \<Rightarrow> u64" where
  "transaction_output_estimated_serialized_size out =
     8 + 2 + 8 + word_of_nat (length (spk_script (out_script_public_key out)))"

definition transaction_estimated_serialized_size :: "transaction \<Rightarrow> u64" where
  "transaction_estimated_serialized_size tx =
     2 + 8 + sum_list (map transaction_input_estimated_serialized_size (tx_inputs tx)) +
     8 + sum_list (map transaction_output_estimated_serialized_size (tx_outputs tx)) +
     8 + word_of_nat SUBNETWORK_ID_SIZE + 8 + word_of_nat HASH_SIZE + 8 + word_of_nat (length (tx_payload tx))"

definition REGISTRY_UNIT_CONST_STORAGE :: nat where
  "REGISTRY_UNIT_CONST_STORAGE = 32 + 4 + 8 + 8 + 1 + 2 + 8"

definition REGISTRY_UNIT_UNIT_SIZE :: nat where "REGISTRY_UNIT_UNIT_SIZE = 100"

definition registry_unit_plurality :: "script_public_key \<Rightarrow> u64" where
  "registry_unit_plurality spk =
     word_of_nat ((REGISTRY_UNIT_CONST_STORAGE + length (spk_script spk) + REGISTRY_UNIT_UNIT_SIZE - 1) div REGISTRY_UNIT_UNIT_SIZE)"

record registry_unit_cell =
  plurality :: u64
  cell_amount :: u64

definition cell_of_entry :: "registry_unit \<Rightarrow> registry_unit_cell" where
  "cell_of_entry entry = \<lparr>plurality = registry_unit_plurality (ru_script_public_key entry), cell_amount = ru_amount entry\<rparr>"

definition cell_of_output :: "transaction_output \<Rightarrow> registry_unit_cell" where
  "cell_of_output out = \<lparr>plurality = registry_unit_plurality (out_script_public_key out), cell_amount = out_value out\<rparr>"

record non_contextual_masses =
  compute_mass :: u64
  transient_mass :: u64

definition non_contextual_max :: "non_contextual_masses \<Rightarrow> u64" where
  "non_contextual_max m = max (compute_mass m) (transient_mass m)"

definition contextual_max :: "u64 \<Rightarrow> non_contextual_masses \<Rightarrow> u64" where
  "contextual_max storage_mass m = max storage_mass (non_contextual_max m)"

record mass_calculator =
  mass_per_tx_byte :: u64
  mass_per_script_pub_key_byte :: u64
  mass_per_sig_op :: u64
  storage_mass_parameter :: u64

definition calc_non_contextual_masses :: "mass_calculator \<Rightarrow> transaction \<Rightarrow> non_contextual_masses" where
  "calc_non_contextual_masses mc tx =
     (if is_coinbase tx then \<lparr>compute_mass = 0, transient_mass = 0\<rparr>
      else let sz = transaction_estimated_serialized_size tx;
               compute_mass_for_size = sz * mass_per_tx_byte mc;
               total_script_public_key_size =
                 sum_list (map (\<lambda>out. 2 + word_of_nat (length (spk_script (out_script_public_key out)))) (tx_outputs tx));
               total_script_public_key_mass = total_script_public_key_size * mass_per_script_pub_key_byte mc;
               total_sigops = sum_list (map (\<lambda>input. word_of_nat (unat (sig_op_count input))) (tx_inputs tx));
               total_sigops_mass = total_sigops * mass_per_sig_op mc
           in \<lparr>compute_mass = compute_mass_for_size + total_script_public_key_mass + total_sigops_mass,
               transient_mass = sz * TRANSIENT_BYTE_TO_MASS_FACTOR\<rparr>)"

text \<open>
  The storage mass.  The outer \<open>None\<close> is a panic by a division by zero, the inner one the
  answer that the mass is too high.
\<close>

definition checked_div64 :: "u64 \<Rightarrow> u64 \<Rightarrow> u64 option" where
  "checked_div64 a b = (if b = 0 then None else Some (a div b))"

fun harmonic_outs :: "u64 \<Rightarrow> registry_unit_cell list \<Rightarrow> u64 \<times> u64 \<Rightarrow> (u64 \<times> u64) option option" where
  "harmonic_outs storm_param [] acc = Some (Some acc)"
| "harmonic_outs storm_param (c # cells) (acc_plurality, acc_harm) =
     (case Option.bind (checked_mul64 storm_param (plurality c)) (\<lambda>m. checked_mul64 m (plurality c)) of
        None \<Rightarrow> Some None
      | Some m \<Rightarrow>
          (case checked_div64 m (cell_amount c) of
             None \<Rightarrow> None
           | Some q \<Rightarrow>
               (case checked_add64 acc_harm q of
                  None \<Rightarrow> Some None
                | Some harm \<Rightarrow> harmonic_outs storm_param cells (acc_plurality + plurality c, harm))))"

definition relaxed_formula_path :: "u64 \<Rightarrow> registry_unit_cell list \<Rightarrow> bool" where
  "relaxed_formula_path outs_plurality inputs =
     (if outs_plurality = 1 then True
      else if length inputs > 2 then False
      else let ins_plurality = sum_list (map plurality inputs)
           in ins_plurality = 1 \<or> (outs_plurality = 2 \<and> ins_plurality = 2))"

fun harmonic_ins :: "u64 \<Rightarrow> registry_unit_cell list \<Rightarrow> u64 \<Rightarrow> u64 option" where
  "harmonic_ins storm_param [] tot = Some tot"
| "harmonic_ins storm_param (c # cells) tot =
     Option.bind (checked_div64 (storm_param * plurality c * plurality c) (cell_amount c))
       (\<lambda>current. harmonic_ins storm_param cells (sat_add64 tot current))"

definition arithmetic_ins :: "u64 \<Rightarrow> registry_unit_cell list \<Rightarrow> u64 option" where
  "arithmetic_ins storm_param inputs =
     (let ins_plurality = sum_list (map plurality inputs);
          sum_ins = sum_list (map cell_amount inputs)
      in Option.bind (checked_div64 sum_ins ins_plurality) (\<lambda>mean_ins.
           map_option (sat_mul64 ins_plurality) (checked_div64 storm_param mean_ins)))"

definition calc_storage_mass ::
    "bool \<Rightarrow> registry_unit_cell list \<Rightarrow> registry_unit_cell list \<Rightarrow> u64 \<Rightarrow> u64 option option" where
  "calc_storage_mass coinbase inputs outputs storm_param =
     (if coinbase then Some (Some 0)
      else case harmonic_outs storm_param outputs (0, 0) of
        None \<Rightarrow> None
      | Some None \<Rightarrow> Some None
      | Some (Some (outs_plurality, harm)) \<Rightarrow>
          map_option (\<lambda>ins. Some (sat_sub64 harm ins))
            (if relaxed_formula_path outs_plurality inputs then harmonic_ins storm_param inputs 0
             else arithmetic_ins storm_param inputs))"

definition calc_contextual_masses :: "mass_calculator \<Rightarrow> populated_transaction \<Rightarrow> u64 option option" where
  "calc_contextual_masses mc ptx =
     calc_storage_mass (is_coinbase (pop_tx ptx)) (map (\<lambda>(_, entry). cell_of_entry entry) (populated_inputs ptx))
       (map cell_of_output (tx_outputs (pop_tx ptx))) (storage_mass_parameter mc)"

section \<open>When the storage mass cannot be computed\<close>

lemma harmonic_outs_ok: "list_all (\<lambda>c. cell_amount c \<noteq> 0) cells \<Longrightarrow> harmonic_outs storm cells acc \<noteq> None"
  by (induction storm cells acc rule: harmonic_outs.induct) (auto simp: checked_div64_def split: option.splits)

lemma harmonic_ins_ok: "list_all (\<lambda>c. cell_amount c \<noteq> 0) cells \<Longrightarrow> harmonic_ins storm cells tot \<noteq> None"
  by (induction storm cells tot rule: harmonic_ins.induct) (auto simp: checked_div64_def)

lemma unat_sum_list: "(\<Sum>x\<leftarrow>xs. unat (f x)) < 2 ^ 64 \<Longrightarrow> unat (sum_list (map f xs) :: u64) = (\<Sum>x\<leftarrow>xs. unat (f x))"
  by (induction xs) (auto simp: unat_add64)

lemma arithmetic_ins_None:
  assumes "inputs \<noteq> []" "list_all (\<lambda>c. plurality c \<noteq> 0) inputs"
    and "(\<Sum>c\<leftarrow>inputs. unat (plurality c)) < 2 ^ 64" "(\<Sum>c\<leftarrow>inputs. unat (cell_amount c)) < 2 ^ 64"
  shows "arithmetic_ins storm inputs = None \<longleftrightarrow> (\<Sum>c\<leftarrow>inputs. unat (cell_amount c)) < (\<Sum>c\<leftarrow>inputs. unat (plurality c))"
proof -
  let ?p = "sum_list (map plurality inputs)" and ?a = "sum_list (map cell_amount inputs)"
  note sums = unat_sum_list [OF assms(3)] unat_sum_list [OF assms(4)]
  have "0 < (\<Sum>c\<leftarrow>inputs. unat (plurality c))" using assms(1,2) by (cases inputs) (auto simp: unat_gt_0)
  then have pos: "0 < unat ?p" by (simp only: sums(1))
  have "?p \<noteq> 0"
  proof
    assume "?p = 0"
    then show False using pos by simp
  qed
  moreover have "?a div ?p = 0 \<longleftrightarrow> unat ?a div unat ?p = 0"
    by (simp only: word_unat_eq_iff unat_div unat_0)
  moreover have "unat ?a div unat ?p = 0 \<longleftrightarrow> unat ?a < unat ?p" using pos by (simp only: div_eq_0_iff) linarith
  ultimately have "arithmetic_ins storm inputs = None \<longleftrightarrow> unat ?a < unat ?p"
    by (simp add: arithmetic_ins_def Let_def checked_div64_def)
  then show ?thesis by (simp only: sums)
qed

section \<open>Properties\<close>

text \<open>
  C33: With non-zero values and at least one input, the assumptions under which the storage mass
  should never fail, its computation panics exactly when the outputs' part is computed, the
  relaxed formula does not apply, and the inputs hold fewer units of money than units of storage,
  so that their mean is zero.
\<close>

theorem storage_mass_panics:
  assumes "inputs \<noteq> []" "list_all (\<lambda>c. plurality c \<noteq> 0 \<and> cell_amount c \<noteq> 0) (inputs @ outputs)"
    and "(\<Sum>c\<leftarrow>inputs. unat (plurality c)) < 2 ^ 64" "(\<Sum>c\<leftarrow>inputs. unat (cell_amount c)) < 2 ^ 64"
  shows "calc_storage_mass False inputs outputs storm = None \<longleftrightarrow>
    (\<exists>outs_plurality harm. harmonic_outs storm outputs (0, 0) = Some (Some (outs_plurality, harm)) \<and>
      \<not> relaxed_formula_path outs_plurality inputs) \<and>
    (\<Sum>c\<leftarrow>inputs. unat (cell_amount c)) < (\<Sum>c\<leftarrow>inputs. unat (plurality c))"
proof -
  have cells: "list_all (\<lambda>c. cell_amount c \<noteq> 0) inputs" "list_all (\<lambda>c. cell_amount c \<noteq> 0) outputs"
    "list_all (\<lambda>c. plurality c \<noteq> 0) inputs"
    using assms(2) by (auto simp: list_all_iff)
  show ?thesis
    using harmonic_outs_ok [OF cells(2), of storm "(0, 0)"] harmonic_ins_ok [OF cells(1), of storm 0]
      arithmetic_ins_None [OF assms(1) cells(3) assms(3,4), of storm]
    by (auto simp: calc_storage_mass_def split: option.splits)
qed

theorem storage_mass_panics_witness:
  "calc_storage_mass False
     [cell_of_entry \<lparr>ru_amount = 1, ru_script_public_key = \<lparr>spk_version = 0, spk_script = replicate 40 0\<rparr>,
        ru_block_daa_score = 0, ru_is_coinbase = False\<rparr>] [] 10 = None"
proof -
  let ?c = "\<lparr>plurality = 2, cell_amount = 1\<rparr>"
  have "cell_of_entry \<lparr>ru_amount = 1, ru_script_public_key = \<lparr>spk_version = 0, spk_script = replicate 40 0\<rparr>,
        ru_block_daa_score = 0, ru_is_coinbase = False\<rparr> = ?c"
    by (simp add: cell_of_entry_def registry_unit_plurality_def REGISTRY_UNIT_CONST_STORAGE_def REGISTRY_UNIT_UNIT_SIZE_def)
  then show ?thesis
    using storage_mass_panics [of "[?c]" "[]" 10] by (simp add: relaxed_formula_path_def)
qed

end
