(* ===== verification/Db_Cache.thy ===== *)
theory Db_Cache
  imports Sig_Cache
begin

text \<open>
  The bounded cache of the stores (\<open>database/src/cache.rs\<close>): entries are evicted at random when
  the number of entries, or the tracked total of their sizes, passes a limit.  The random draws are a
  parameter \<open>rnd\<close>, one number per draw, reduced to the range asked for; \<open>est\<close> is the
  \<open>MemSizeEstimator\<close> of the values.  The tracked size is an unbounded integer here, and equal to the
  sum of the sizes in the cache, so the subtractions of the code do not wrap.
\<close>

datatype mem_mode = Bytes | Units | Undefined_Mode

datatype cache_policy = Empty_Policy | Count nat | Tracked nat nat mem_mode

record policy_inner =
  tracked :: bool
  max_size :: nat
  min_items :: nat
  mode_of :: mem_mode

fun policy_from :: "cache_policy \<Rightarrow> policy_inner" where
  "policy_from Empty_Policy = \<lparr> tracked = False, max_size = 0, min_items = 0, mode_of = Undefined_Mode \<rparr>"
| "policy_from (Count n) = \<lparr> tracked = False, max_size = n, min_items = 0, mode_of = Undefined_Mode \<rparr>"
| "policy_from (Tracked n k mode) = \<lparr> tracked = True, max_size = n, min_items = k, mode_of = mode \<rparr>"

record ('k, 'v) cache_inner =
  in_map :: "('k \<times> 'v) list"
  tracked_size :: int

type_synonym 'v estimator = "mem_mode \<Rightarrow> 'v \<Rightarrow> nat"
type_synonym draws = "nat \<Rightarrow> nat"

section \<open>Entries\<close>

fun find_pos :: "'k \<Rightarrow> ('k \<times> 'v) list \<Rightarrow> nat option" where
  "find_pos k [] = None"
| "find_pos k ((k', v) # xs) = (if k' = k then Some 0 else map_option Suc (find_pos k xs))"

text \<open>\<open>IndexMap::swap_remove\<close>\<close>

definition swap_remove :: "'k \<Rightarrow> ('k \<times> 'v) list \<Rightarrow> ('k \<times> 'v) list" where
  "swap_remove k xs = (case find_pos k xs of None \<Rightarrow> xs | Some i \<Rightarrow> swap_remove_index i xs)"

lemma mod_index: "k < length xs \<Longrightarrow> n mod length xs < length xs"
  by (cases xs) simp_all

lemma evict_shrinks: "k < length xs \<Longrightarrow> length (swap_remove_index (n mod length xs) xs) < length xs"
  using mod_index [of k xs n] by (simp add: length_swap_remove)

function tracked_evict ::
  "'v estimator \<Rightarrow> policy_inner \<Rightarrow> draws \<Rightarrow> nat \<Rightarrow> ('k, 'v) cache_inner \<Rightarrow> ('k, 'v) cache_inner" where
  "tracked_evict est p rnd i c =
     (if tracked_size c > int (max_size p) \<and> length (in_map c) > min_items p then
        let j = rnd i mod length (in_map c)
        in tracked_evict est p rnd (i + 1)
             (c\<lparr>in_map := swap_remove_index j (in_map c),
                tracked_size := tracked_size c - int (est (mode_of p) (snd (in_map c ! j)))\<rparr>)
      else c)"
  by pat_completeness auto
termination
  by (relation "measure (\<lambda>(est, p, rnd, i, c). length (in_map c))") (auto simp: evict_shrinks)

declare tracked_evict.simps [simp del]

section \<open>The cache\<close>

definition inner_insert ::
  "'v estimator \<Rightarrow> draws \<Rightarrow> policy_inner \<Rightarrow> 'k \<Rightarrow> 'v \<Rightarrow> ('k, 'v) cache_inner \<Rightarrow> ('k, 'v) cache_inner" where
  "inner_insert est rnd p key data c =
     (if tracked p then
        let size1 = tracked_size c + int (est (mode_of p) data);
            size2 = (case map_of (in_map c) key of
                None \<Rightarrow> size1 | Some removed \<Rightarrow> size1 - int (est (mode_of p) removed))
        in tracked_evict est p rnd 0 (c\<lparr>in_map := index_insert key data (in_map c), tracked_size := size2\<rparr>)
      else
        let m = (if length (in_map c) = max_size p
                 then swap_remove_index (rnd 0 mod max_size p) (in_map c) else in_map c)
        in c\<lparr>in_map := index_insert key data m\<rparr>)"

definition inner_update_if_entry_exists ::
  "'v estimator \<Rightarrow> draws \<Rightarrow> policy_inner \<Rightarrow> 'k \<Rightarrow> ('v \<Rightarrow> 'v) \<Rightarrow> ('k, 'v) cache_inner \<Rightarrow> ('k, 'v) cache_inner" where
  "inner_update_if_entry_exists est rnd p key op c =
     (case map_of (in_map c) key of
        None \<Rightarrow> c
      | Some data \<Rightarrow>
          let c' = c\<lparr>in_map := index_insert key (op data) (in_map c)\<rparr>
          in if tracked p
             then tracked_evict est p rnd 0 (c'\<lparr>tracked_size :=
                    tracked_size c - int (est (mode_of p) data) + int (est (mode_of p) (op data))\<rparr>)
             else c')"

definition inner_remove ::
  "'v estimator \<Rightarrow> policy_inner \<Rightarrow> 'k \<Rightarrow> ('k, 'v) cache_inner \<Rightarrow> 'v option \<times> ('k, 'v) cache_inner" where
  "inner_remove est p key c =
     (case map_of (in_map c) key of
        None \<Rightarrow> (None, c)
      | Some data \<Rightarrow>
          (Some data, c\<lparr>in_map := swap_remove key (in_map c),
             tracked_size := tracked_size c - (if tracked p then int (est (mode_of p) data) else 0)\<rparr>))"

record ('k, 'v) db_cache =
  dc_inner :: "('k, 'v) cache_inner"
  dc_policy :: policy_inner

definition dc_new :: "cache_policy \<Rightarrow> ('k, 'v) db_cache" where
  "dc_new policy = \<lparr> dc_inner = \<lparr> in_map = [], tracked_size = 0 \<rparr>, dc_policy = policy_from policy \<rparr>"

definition dc_get :: "('k, 'v) db_cache \<Rightarrow> 'k \<Rightarrow> 'v option" where
  "dc_get c key = map_of (in_map (dc_inner c)) key"

definition dc_contains_key :: "('k, 'v) db_cache \<Rightarrow> 'k \<Rightarrow> bool" where
  "dc_contains_key c key \<longleftrightarrow> key \<in> fst ` set (in_map (dc_inner c))"

definition dc_insert :: "'v estimator \<Rightarrow> draws \<Rightarrow> 'k \<Rightarrow> 'v \<Rightarrow> ('k, 'v) db_cache \<Rightarrow> ('k, 'v) db_cache" where
  "dc_insert est rnd key data c =
     (if max_size (dc_policy c) = 0 then c
      else c\<lparr>dc_inner := inner_insert est rnd (dc_policy c) key data (dc_inner c)\<rparr>)"

text \<open>Each insertion of \<open>insert_many\<close> draws anew.\<close>

fun dc_insert_many ::
  "'v estimator \<Rightarrow> (nat \<Rightarrow> draws) \<Rightarrow> ('k \<times> 'v) list \<Rightarrow> ('k, 'v) db_cache \<Rightarrow> ('k, 'v) db_cache" where
  "dc_insert_many est rnds [] c = c"
| "dc_insert_many est rnds ((key, data) # items) c =
     dc_insert_many est (\<lambda>i. rnds (Suc i)) items (dc_insert est (rnds 0) key data c)"

definition dc_update_if_entry_exists ::
  "'v estimator \<Rightarrow> draws \<Rightarrow> 'k \<Rightarrow> ('v \<Rightarrow> 'v) \<Rightarrow> ('k, 'v) db_cache \<Rightarrow> ('k, 'v) db_cache" where
  "dc_update_if_entry_exists est rnd key op c =
     (if max_size (dc_policy c) = 0 then c
      else c\<lparr>dc_inner := inner_update_if_entry_exists est rnd (dc_policy c) key op (dc_inner c)\<rparr>)"

definition dc_remove :: "'v estimator \<Rightarrow> 'k \<Rightarrow> ('k, 'v) db_cache \<Rightarrow> ('k, 'v) db_cache" where
  "dc_remove est key c =
     (if max_size (dc_policy c) = 0 then c
      else c\<lparr>dc_inner := snd (inner_remove est (dc_policy c) key (dc_inner c))\<rparr>)"

definition dc_remove_many :: "'v estimator \<Rightarrow> 'k list \<Rightarrow> ('k, 'v) db_cache \<Rightarrow> ('k, 'v) db_cache" where
  "dc_remove_many est keys c = fold (dc_remove est) keys c"

definition dc_remove_all :: "('k, 'v) db_cache \<Rightarrow> ('k, 'v) db_cache" where
  "dc_remove_all c =
     (if max_size (dc_policy c) = 0 then c
      else c\<lparr>dc_inner := (dc_inner c)\<lparr>in_map := [],
               tracked_size := if tracked (dc_policy c) then 0 else tracked_size (dc_inner c)\<rparr>\<rparr>)"

section \<open>The invariant of the cache\<close>

definition total_size :: "'v estimator \<Rightarrow> policy_inner \<Rightarrow> ('k \<times> 'v) list \<Rightarrow> int" where
  "total_size est p xs = (\<Sum>(k, v)\<leftarrow>xs. int (est (mode_of p) v))"

text \<open>Keys are distinct, the tracked size is the total, and the policy's limit is kept.\<close>

definition inner_ok :: "'v estimator \<Rightarrow> policy_inner \<Rightarrow> ('k, 'v) cache_inner \<Rightarrow> bool" where
  "inner_ok est p c \<longleftrightarrow> distinct (map fst (in_map c)) \<and>
     (if tracked p
      then tracked_size c = total_size est p (in_map c) \<and>
        (tracked_size c \<le> int (max_size p) \<or> length (in_map c) \<le> min_items p)
      else length (in_map c) \<le> max_size p)"

definition dc_ok :: "'v estimator \<Rightarrow> ('k, 'v) db_cache \<Rightarrow> bool" where
  "dc_ok est c \<longleftrightarrow> inner_ok est (dc_policy c) (dc_inner c) \<and> (max_size (dc_policy c) = 0 \<longrightarrow> in_map (dc_inner c) = [])"

lemma sum_list_update_int: "i < length xs \<Longrightarrow> sum_list (xs[i := y]) = sum_list xs + y - (xs ! i :: int)"
proof (induction xs arbitrary: i)
  case (Cons x xs)
  then show ?case by (cases i) simp_all
qed simp

lemma total_size_swap_remove:
  assumes "i < length xs"
  shows "total_size est p (swap_remove_index i xs) = total_size est p xs - int (est (mode_of p) (snd (xs ! i)))"
proof -
  let ?f = "\<lambda>(k, v). int (est (mode_of p) v)"
  from assms obtain ys y where xs: "xs = ys @ [y]" by (cases xs rule: rev_cases) auto
  show ?thesis
  proof (cases "i < length ys")
    case True
    have "sum_list (map ?f (ys[i := y])) = sum_list (map ?f ys) + ?f y - ?f (ys ! i)"
      using True by (simp add: map_update sum_list_update_int)
    then show ?thesis
      using True by (simp add: total_size_def swap_remove_index_def xs list_update_append butlast_append
          nth_append case_prod_beta')
  next
    case False
    with assms xs have "i = length ys" by simp
    then show ?thesis by (simp add: total_size_def swap_remove_index_def xs case_prod_beta')
  qed
qed

lemma find_pos_Some: "find_pos k xs = Some i \<Longrightarrow> i < length xs \<and> fst (xs ! i) = k \<and> map_of xs k = Some (snd (xs ! i))"
  by (induction k xs arbitrary: i rule: find_pos.induct) (auto split: if_splits)

lemma find_pos_None: "find_pos k xs = None \<longleftrightarrow> k \<notin> fst ` set xs"
  by (induction k xs rule: find_pos.induct) auto

lemma total_size_index_insert:
  assumes "distinct (map fst xs)"
  shows "total_size est p (index_insert k v xs) = total_size est p xs + int (est (mode_of p) v) -
    (case map_of xs k of None \<Rightarrow> 0 | Some w \<Rightarrow> int (est (mode_of p) w))"
proof -
  have over: "total_size est p (map (\<lambda>(k', v'). (k', if k' = k then v else v')) xs) =
      total_size est p xs + (case map_of xs k of None \<Rightarrow> 0 | Some w \<Rightarrow> int (est (mode_of p) v) - int (est (mode_of p) w))"
    using assms
  proof (induction xs)
    case (Cons x xs)
    obtain a b where x: "x = (a, b)" by (cases x)
    have "a = k \<Longrightarrow> map_of xs k = None"
      using Cons(2) by (force simp: x map_of_eq_None_iff)
    then show ?case using Cons by (auto simp: total_size_def x split: option.split)
  qed (simp add: total_size_def)
  show ?thesis
  proof (cases "k \<in> fst ` set xs")
    case True
    then obtain w where "map_of xs k = Some w" by (metis map_of_eq_None_iff option.exhaust)
    with True over show ?thesis by (simp add: index_insert_def)
  next
    case False
    then have "map_of xs k = None" by (simp add: map_of_eq_None_iff)
    with False show ?thesis by (simp add: index_insert_def total_size_def)
  qed
qed

lemma tracked_evict_ok:
  assumes "tracked p" "distinct (map fst (in_map c))" "tracked_size c = total_size est p (in_map c)"
  shows "inner_ok est p (tracked_evict est p rnd i c) \<and> set (in_map (tracked_evict est p rnd i c)) \<subseteq> set (in_map c)"
  using assms
proof (induction est p rnd i c rule: tracked_evict.induct)
  case (1 est p rnd i c)
  let ?j = "rnd i mod length (in_map c)"
  let ?c = "c\<lparr>in_map := swap_remove_index ?j (in_map c),
                tracked_size := tracked_size c - int (est (mode_of p) (snd (in_map c ! ?j)))\<rparr>"
  show ?case
  proof (cases "tracked_size c > int (max_size p) \<and> length (in_map c) > min_items p")
    case True
    then have j: "?j < length (in_map c)" by (auto intro: mod_index)
    have "inner_ok est p (tracked_evict est p rnd (i + 1) ?c) \<and>
        set (in_map (tracked_evict est p rnd (i + 1) ?c)) \<subseteq> set (in_map ?c)"
      using 1(2-4) total_size_swap_remove [OF j, of est p]
      by (intro 1(1) [OF True refl]) (simp_all add: map_swap_remove distinct_swap_remove)
    moreover have "tracked_evict est p rnd i c = tracked_evict est p rnd (i + 1) ?c"
      using True by (subst tracked_evict.simps) (simp add: Let_def)
    ultimately show ?thesis using set_swap_remove [of ?j "in_map c"] by auto
  next
    case False
    then have "tracked_evict est p rnd i c = c" by (subst tracked_evict.simps) auto
    with False 1(2-4) show ?thesis by (auto simp: inner_ok_def not_less)
  qed
qed

lemma dc_new_ok: "dc_ok est (dc_new policy)"
  by (cases policy) (simp_all add: dc_ok_def inner_ok_def dc_new_def total_size_def)

lemma inner_insert_ok:
  assumes "inner_ok est p c" "max_size p \<noteq> 0"
  shows "inner_ok est p (inner_insert est rnd p key data c)"
proof (cases "tracked p")
  case True
  let ?s = "case map_of (in_map c) key of None \<Rightarrow> tracked_size c + int (est (mode_of p) data)
      | Some removed \<Rightarrow> tracked_size c + int (est (mode_of p) data) - int (est (mode_of p) removed)"
  have "inner_ok est p (tracked_evict est p rnd 0 (c\<lparr>in_map := index_insert key data (in_map c), tracked_size := ?s\<rparr>))"
    using assms True
    by (intro conjunct1 [OF tracked_evict_ok])
      (auto simp: inner_ok_def distinct_index_insert total_size_index_insert split: option.split)
  with True show ?thesis by (simp add: inner_insert_def Let_def)
next
  case False
  then show ?thesis
    using assms length_index_insert [of key data "in_map c"]
      length_index_insert [of key data "swap_remove_index (rnd 0 mod max_size p) (in_map c)"]
    by (auto simp: inner_ok_def inner_insert_def Let_def distinct_index_insert map_swap_remove distinct_swap_remove
        length_swap_remove)
qed

lemma inner_update_ok:
  assumes "inner_ok est p c"
  shows "inner_ok est p (inner_update_if_entry_exists est rnd p key op c)"
proof (cases "map_of (in_map c) key")
  case (Some data)
  have len: "length (index_insert key (op data) (in_map c)) = length (in_map c)"
    using map_of_eq_None_iff [of "in_map c" key] Some by (simp add: index_insert_def)
  show ?thesis
  proof (cases "tracked p")
    case True
    have "inner_ok est p (tracked_evict est p rnd 0 (c\<lparr>in_map := index_insert key (op data) (in_map c),
        tracked_size := tracked_size c - int (est (mode_of p) data) + int (est (mode_of p) (op data))\<rparr>))"
      using assms True Some
      by (intro conjunct1 [OF tracked_evict_ok]) (auto simp: inner_ok_def distinct_index_insert total_size_index_insert)
    with True Some show ?thesis by (simp add: inner_update_if_entry_exists_def Let_def)
  next
    case False
    with assms Some len show ?thesis
      by (simp add: inner_update_if_entry_exists_def Let_def inner_ok_def distinct_index_insert)
  qed
qed (simp add: inner_update_if_entry_exists_def assms)

lemma inner_remove_ok:
  assumes "inner_ok est p c"
  shows "inner_ok est p (snd (inner_remove est p key c))"
proof (cases "find_pos key (in_map c)")
  case None
  then have "map_of (in_map c) key = None" by (simp add: find_pos_None map_of_eq_None_iff)
  with assms show ?thesis by (simp add: inner_remove_def)
next
  case (Some i)
  note i = find_pos_Some [OF Some]
  have "snd (inner_remove est p key c) = c\<lparr>in_map := swap_remove_index i (in_map c),
      tracked_size := tracked_size c - (if tracked p then int (est (mode_of p) (snd (in_map c ! i))) else 0)\<rparr>"
    using i Some by (simp add: inner_remove_def swap_remove_def)
  then show ?thesis
    using assms i total_size_swap_remove [of i "in_map c" est p]
    by (auto simp: inner_ok_def map_swap_remove distinct_swap_remove length_swap_remove)
qed

lemma dc_ok_ops:
  assumes "dc_ok est c"
  shows "dc_ok est (dc_insert est rnd key data c)" "dc_ok est (dc_update_if_entry_exists est rnd key op c)"
    "dc_ok est (dc_remove est key c)" "dc_ok est (dc_remove_all c)"
  using assms unfolding dc_ok_def dc_insert_def dc_update_if_entry_exists_def dc_remove_def dc_remove_all_def
  by (simp_all add: inner_insert_ok inner_update_ok inner_remove_ok) (simp add: inner_ok_def total_size_def)

lemma dc_ok_many:
  "dc_ok est c \<Longrightarrow> dc_ok est (dc_insert_many est rnds items c)"
  "dc_ok est c \<Longrightarrow> dc_ok est (dc_remove_many est keys c)"
proof -
  show "dc_ok est c \<Longrightarrow> dc_ok est (dc_insert_many est rnds items c)"
    by (induction est rnds items c rule: dc_insert_many.induct) (simp_all add: dc_ok_ops)
  show "dc_ok est c \<Longrightarrow> dc_ok est (dc_remove_many est keys c)"
    unfolding dc_remove_many_def by (induction keys arbitrary: c) (simp_all add: dc_ok_ops)
qed

section \<open>Lookups\<close>

text \<open>What is in the cache after an operation was there before or was put there by it.\<close>

lemma tracked_evict_sub: "set (in_map (tracked_evict est p rnd i c)) \<subseteq> set (in_map c)"
proof (induction est p rnd i c rule: tracked_evict.induct)
  case (1 est p rnd i c)
  then show ?case
    using set_swap_remove [of "rnd i mod length (in_map c)" "in_map c"]
    by (subst tracked_evict.simps) (auto simp: Let_def)
qed

lemma dc_ok_distinct: "dc_ok est c \<Longrightarrow> distinct (map fst (in_map (dc_inner c)))"
  by (simp add: dc_ok_def inner_ok_def)

lemma dc_get_iff: "dc_ok est c \<Longrightarrow> dc_get c k = Some v \<longleftrightarrow> (k, v) \<in> set (in_map (dc_inner c))"
  unfolding dc_get_def by (rule map_of_eq_Some_iff [OF dc_ok_distinct])

lemma index_insert_set: "(k', v') \<in> set (index_insert k v xs) \<Longrightarrow> k' = k \<and> v' = v \<or> k' \<noteq> k \<and> (k', v') \<in> set xs"
  by (auto simp: index_insert_def split: if_splits) force

lemma dc_get_insert:
  assumes "dc_ok est c" "dc_get (dc_insert est rnd k v c) k' = Some v'"
  shows "k' = k \<and> v' = v \<or> (k' \<noteq> k \<or> max_size (dc_policy c) = 0) \<and> dc_get c k' = Some v'"
proof (cases "max_size (dc_policy c) = 0")
  case True
  with assms show ?thesis by (simp add: dc_insert_def)
next
  case False
  have "(k', v') \<in> set (in_map (inner_insert est rnd (dc_policy c) k v (dc_inner c)))"
    using assms(2) dc_get_iff [OF dc_ok_ops(1) [OF assms(1)]] False by (auto simp: dc_insert_def)
  then obtain m where "(k', v') \<in> set (index_insert k v m)" "set m \<subseteq> set (in_map (dc_inner c))"
    using tracked_evict_sub set_swap_remove
    by (fastforce simp: inner_insert_def Let_def split: if_splits)
  then show ?thesis
    using index_insert_set [of k' v' k v m] dc_get_iff [OF assms(1)] by blast
qed

interpretation db_memo: memo_table dc_get "dc_insert est rnd" "dc_ok est" for est rnd
  by unfold_locales (auto dest: dc_get_insert intro: dc_ok_ops)

lemma dc_get_remove:
  assumes "dc_ok est c" "dc_get (dc_remove est k c) k' = Some v'"
  shows "dc_get c k' = Some v'"
proof -
  have "(k', v') \<in> set (in_map (dc_inner (dc_remove est k c)))"
    using assms(2) dc_get_iff [OF dc_ok_ops(3) [OF assms(1)]] by simp
  then have "(k', v') \<in> set (in_map (dc_inner c))"
    using set_swap_remove by (fastforce simp: dc_remove_def inner_remove_def swap_remove_def split: if_splits option.splits)
  then show ?thesis using dc_get_iff [OF assms(1)] by simp
qed

lemma swap_remove_index_gone: "distinct ys \<Longrightarrow> i < length ys \<Longrightarrow> ys ! i \<notin> set (swap_remove_index i ys)"
proof -
  assume d: "distinct ys" and i: "i < length ys"
  then obtain zs z where ys: "ys = zs @ [z]" by (cases ys rule: rev_cases) auto
  show ?thesis
  proof (cases "i < length zs")
    case True
    with d ys show ?thesis
      by (auto simp: swap_remove_index_def list_update_append butlast_append set_update_distinct nth_append)
  next
    case False
    with i ys have "i = length zs" by simp
    with d ys show ?thesis by (simp add: swap_remove_index_def)
  qed
qed

lemma dc_remove_gone:
  assumes "dc_ok est c"
  shows "dc_get (dc_remove est k c) k = None"
proof (cases "max_size (dc_policy c) = 0")
  case True
  with assms show ?thesis by (simp add: dc_ok_def dc_remove_def dc_get_def)
next
  case False
  let ?m = "in_map (dc_inner c)"
  show ?thesis
  proof (cases "find_pos k ?m")
    case None
    then have "map_of ?m k = None" by (simp add: find_pos_None map_of_eq_None_iff)
    with False show ?thesis by (simp add: dc_remove_def inner_remove_def dc_get_def)
  next
    case (Some i)
    note i = find_pos_Some [OF Some]
    have "k \<notin> set (map fst (swap_remove_index i ?m))"
      using swap_remove_index_gone [of "map fst ?m" i] dc_ok_distinct [OF assms] i by (simp add: map_swap_remove)
    with False i Some show ?thesis
      by (simp add: dc_remove_def inner_remove_def dc_get_def swap_remove_def map_of_eq_None_iff)
  qed
qed

lemma dc_insert_hit: "\<not> tracked (dc_policy c) \<Longrightarrow> max_size (dc_policy c) \<noteq> 0 \<Longrightarrow> dc_get (dc_insert est rnd k v c) k = Some v"
  by (simp add: dc_insert_def inner_insert_def dc_get_def Let_def index_insert_lookup)

lemma dc_get_remove_all: "dc_ok est c \<Longrightarrow> dc_get (dc_remove_all c) k = None"
  by (simp add: dc_remove_all_def dc_get_def dc_ok_def)

lemma dc_policy_ops [simp]:
  "dc_policy (dc_insert est rnd k v c) = dc_policy c" "dc_policy (dc_remove est k c) = dc_policy c"
  "dc_policy (dc_remove_all c) = dc_policy c" "dc_policy (dc_update_if_entry_exists est rnd k op c) = dc_policy c"
  by (simp_all add: dc_insert_def dc_remove_def dc_remove_all_def dc_update_if_entry_exists_def)

end
