(* ===== verification/Db_Access.thy ===== *)
theory Db_Access
  imports Db_Cache
begin

text \<open>
  Typed access to the database through a cache (\<open>database/src/access.rs\<close>, \<open>item.rs\<close>, \<open>writer.rs\<close>).
  RocksDB is the map \<open>st_db\<close> from paths to values, a \<open>WriteBatch\<close> the list of the operations
  that are still pending, and the \<open>bincode\<close> serialisation is the identity; I/O errors are not
  modelled.  The cache is updated when an operation is issued, the database when the batch is written.
\<close>

section \<open>Paths and batches\<close>

datatype 'v batch_op = Put bytes 'v | Delete bytes | Delete_Prefix bytes

text \<open>A \<open>PrefixRange\<close> holds the paths that start with the prefix.\<close>

definition starts_with :: "bytes \<Rightarrow> bytes \<Rightarrow> bool" where
  "starts_with p path \<longleftrightarrow> take (length p) path = p"

fun apply_op :: "'v batch_op \<Rightarrow> (bytes \<rightharpoonup> 'v) \<Rightarrow> (bytes \<rightharpoonup> 'v)" where
  "apply_op (Put path v) db = db(path \<mapsto> v)"
| "apply_op (Delete path) db = db(path := None)"
| "apply_op (Delete_Prefix p) db = (\<lambda>path. if starts_with p path then None else db path)"

definition write_batch :: "'v batch_op list \<Rightarrow> (bytes \<rightharpoonup> 'v) \<Rightarrow> (bytes \<rightharpoonup> 'v)" where
  "write_batch ops db = fold apply_op ops db"

datatype writer = DirectDbWriter | BatchDbWriter | MemoryWriter

record 'v store =
  st_db :: "bytes \<rightharpoonup> 'v"
  st_batch :: "'v batch_op list"
  st_cache :: "(bytes, 'v) db_cache"
  st_prefix :: bytes

definition writer_op :: "writer \<Rightarrow> 'v batch_op \<Rightarrow> 'v store \<Rightarrow> 'v store" where
  "writer_op w oper st =
     (case w of
        DirectDbWriter \<Rightarrow> st\<lparr>st_db := apply_op oper (st_db st)\<rparr>
      | BatchDbWriter \<Rightarrow> st\<lparr>st_batch := st_batch st @ [oper]\<rparr>
      | MemoryWriter \<Rightarrow> st)"

text \<open>\<open>db.write(batch)\<close>\<close>

definition commit :: "'v store \<Rightarrow> 'v store" where
  "commit st = st\<lparr>st_db := write_batch (st_batch st) (st_db st), st_batch := []\<rparr>"

definition db_key :: "bytes \<Rightarrow> bytes \<Rightarrow> bytes" where
  "db_key prefix key = prefix @ key"

datatype store_error = KeyNotFound bytes

section \<open>Cached access\<close>

definition access_new :: "cache_policy \<Rightarrow> bytes \<Rightarrow> (bytes \<rightharpoonup> 'v) \<Rightarrow> 'v store" where
  "access_new policy prefix db = \<lparr> st_db = db, st_batch = [], st_cache = dc_new policy, st_prefix = prefix \<rparr>"

definition access_has :: "bytes \<Rightarrow> 'v store \<Rightarrow> bool" where
  "access_has key st \<longleftrightarrow> dc_contains_key (st_cache st) key \<or> st_db st (db_key (st_prefix st) key) \<noteq> None"

definition access_read :: "'v estimator \<Rightarrow> draws \<Rightarrow> bytes \<Rightarrow> ('v store, store_error, 'v) sm" where
  "access_read est rnd key = (\<lambda>st.
     case dc_get (st_cache st) key of
       Some data \<Rightarrow> (Inr data, st)
     | None \<Rightarrow>
         (case st_db st (db_key (st_prefix st) key) of
            Some data \<Rightarrow> (Inr data, st\<lparr>st_cache := dc_insert est rnd key data (st_cache st)\<rparr>)
          | None \<Rightarrow> (Inl (KeyNotFound (db_key (st_prefix st) key)), st)))"

definition access_has_with_fallback :: "bytes \<Rightarrow> bytes \<Rightarrow> 'v store \<Rightarrow> bool" where
  "access_has_with_fallback fallback key st \<longleftrightarrow>
     (if dc_contains_key (st_cache st) key then True
      else if st_db st (db_key (st_prefix st) key) \<noteq> None then True
      else st_db st (db_key fallback key) \<noteq> None)"

definition access_read_with_fallback ::
  "'v estimator \<Rightarrow> draws \<Rightarrow> bytes \<Rightarrow> bytes \<Rightarrow> ('v store, store_error, 'v) sm" where
  "access_read_with_fallback est rnd fallback key = (\<lambda>st.
     case dc_get (st_cache st) key of
       Some data \<Rightarrow> (Inr data, st)
     | None \<Rightarrow>
         (case st_db st (db_key (st_prefix st) key) of
            Some data \<Rightarrow> (Inr data, st\<lparr>st_cache := dc_insert est rnd key data (st_cache st)\<rparr>)
          | None \<Rightarrow>
              (case st_db st (db_key fallback key) of
                 Some data \<Rightarrow> (Inr data, st\<lparr>st_cache := dc_insert est rnd key data (st_cache st)\<rparr>)
               | None \<Rightarrow> (Inl (KeyNotFound (db_key fallback key)), st))))"

definition access_write :: "'v estimator \<Rightarrow> draws \<Rightarrow> writer \<Rightarrow> bytes \<Rightarrow> 'v \<Rightarrow> 'v store \<Rightarrow> 'v store" where
  "access_write est rnd w key data st =
     writer_op w (Put (db_key (st_prefix st) key) data) (st\<lparr>st_cache := dc_insert est rnd key data (st_cache st)\<rparr>)"

definition access_write_many ::
  "'v estimator \<Rightarrow> (nat \<Rightarrow> draws) \<Rightarrow> writer \<Rightarrow> (bytes \<times> 'v) list \<Rightarrow> 'v store \<Rightarrow> 'v store" where
  "access_write_many est rnds w items st =
     fold (\<lambda>(key, data). writer_op w (Put (db_key (st_prefix st) key) data)) items
       (st\<lparr>st_cache := dc_insert_many est rnds items (st_cache st)\<rparr>)"

definition access_write_many_without_cache :: "writer \<Rightarrow> (bytes \<times> 'v) list \<Rightarrow> 'v store \<Rightarrow> 'v store" where
  "access_write_many_without_cache w items st =
     (let st' = fold (\<lambda>(key, data). writer_op w (Put (db_key (st_prefix st) key) data)) items st
      in st'\<lparr>st_cache := dc_remove_all (st_cache st')\<rparr>)"

definition access_delete :: "'v estimator \<Rightarrow> writer \<Rightarrow> bytes \<Rightarrow> 'v store \<Rightarrow> 'v store" where
  "access_delete est w key st =
     writer_op w (Delete (db_key (st_prefix st) key)) (st\<lparr>st_cache := dc_remove est key (st_cache st)\<rparr>)"

definition access_delete_many :: "'v estimator \<Rightarrow> writer \<Rightarrow> bytes list \<Rightarrow> 'v store \<Rightarrow> 'v store" where
  "access_delete_many est w keys st =
     fold (\<lambda>key. writer_op w (Delete (db_key (st_prefix st) key))) keys
       (st\<lparr>st_cache := dc_remove_many est keys (st_cache st)\<rparr>)"

definition access_delete_all :: "writer \<Rightarrow> 'v store \<Rightarrow> 'v store" where
  "access_delete_all w st =
     writer_op w (Delete_Prefix (st_prefix st)) (st\<lparr>st_cache := dc_remove_all (st_cache st)\<rparr>)"

section \<open>A cached item\<close>

record 'v db_item =
  it_db :: "bytes \<rightharpoonup> 'v"
  it_batch :: "'v batch_op list"
  it_cached :: "'v option"
  it_key :: bytes

definition item_writer_op :: "writer \<Rightarrow> 'v batch_op \<Rightarrow> 'v db_item \<Rightarrow> 'v db_item" where
  "item_writer_op w oper it =
     (case w of
        DirectDbWriter \<Rightarrow> it\<lparr>it_db := apply_op oper (it_db it)\<rparr>
      | BatchDbWriter \<Rightarrow> it\<lparr>it_batch := it_batch it @ [oper]\<rparr>
      | MemoryWriter \<Rightarrow> it)"

definition item_new :: "bytes \<Rightarrow> (bytes \<rightharpoonup> 'v) \<Rightarrow> 'v db_item" where
  "item_new key db = \<lparr> it_db = db, it_batch = [], it_cached = None, it_key = key \<rparr>"

definition item_read :: "('v db_item, store_error, 'v) sm" where
  "item_read = (\<lambda>it.
     case it_cached it of
       Some item \<Rightarrow> (Inr item, it)
     | None \<Rightarrow>
         (case it_db it (it_key it) of
            Some item \<Rightarrow> (Inr item, it\<lparr>it_cached := Some item\<rparr>)
          | None \<Rightarrow> (Inl (KeyNotFound (it_key it)), it)))"

definition item_write :: "writer \<Rightarrow> 'v \<Rightarrow> 'v db_item \<Rightarrow> 'v db_item" where
  "item_write w item it = item_writer_op w (Put (it_key it) item) (it\<lparr>it_cached := Some item\<rparr>)"

definition item_remove :: "writer \<Rightarrow> 'v db_item \<Rightarrow> 'v db_item" where
  "item_remove w it = item_writer_op w (Delete (it_key it)) (it\<lparr>it_cached := None\<rparr>)"

definition item_update :: "writer \<Rightarrow> ('v \<Rightarrow> 'v) \<Rightarrow> ('v db_item, store_error, 'v) sm" where
  "item_update w op = (\<lambda>it.
     case (case it_cached it of Some item \<Rightarrow> Some item | None \<Rightarrow> it_db it (it_key it)) of
       Some item \<Rightarrow>
         (Inr (op item), item_writer_op w (Put (it_key it) (op item)) (it\<lparr>it_cached := Some (op item)\<rparr>))
     | None \<Rightarrow> (Inl (KeyNotFound (it_key it)), it))"

section \<open>Coherence\<close>

text \<open>The contents after the pending batch; a cache is coherent when it agrees with them.\<close>

definition view :: "'v store \<Rightarrow> bytes \<Rightarrow> 'v option" where
  "view st key = write_batch (st_batch st) (st_db st) (db_key (st_prefix st) key)"

definition coherent :: "'v estimator \<Rightarrow> 'v store \<Rightarrow> bool" where
  "coherent est st \<longleftrightarrow> dc_ok est (st_cache st) \<and>
     (\<forall>key v. dc_get (st_cache st) key = Some v \<longrightarrow> view st key = Some v)"

lemma write_batch_append [simp]: "write_batch (ops @ [oper]) db = apply_op oper (write_batch ops db)"
  by (simp add: write_batch_def)

lemma write_batch_Nil [simp]: "write_batch [] db = db"
  by (simp add: write_batch_def)

lemma db_key_inj [simp]: "db_key p a = db_key p b \<longleftrightarrow> a = b"
  by (simp add: db_key_def)

lemma starts_with_db_key [simp]: "starts_with p (db_key p k)"
  by (simp add: starts_with_def db_key_def)

text \<open>A direct write while a batch is pending may be overtaken by the batch.\<close>

definition writable :: "writer \<Rightarrow> 'v store \<Rightarrow> bool" where
  "writable w st \<longleftrightarrow> w = BatchDbWriter \<or> w = DirectDbWriter \<and> st_batch st = []"

lemma view_writer_op:
  "writable w st \<Longrightarrow> view (writer_op w oper (st\<lparr>st_cache := c\<rparr>)) key =
     apply_op oper (write_batch (st_batch st) (st_db st)) (db_key (st_prefix st) key)"
  by (auto simp: writable_def view_def writer_op_def)

lemma writer_op_fields [simp]:
  "st_cache (writer_op w oper st) = st_cache st" "st_prefix (writer_op w oper st) = st_prefix st"
  by (simp_all add: writer_op_def split: writer.split)

lemma writable_writer_op: "writable w st \<Longrightarrow> writable w (writer_op w oper st)"
  by (auto simp: writable_def writer_op_def)

lemma coherentI:
  assumes "dc_ok est (st_cache st)" "\<And>key v. dc_get (st_cache st) key = Some v \<Longrightarrow> view st key = Some v"
  shows "coherent est st"
  using assms by (simp add: coherent_def)

lemma coherent_write:
  assumes "coherent est st" "writable w st"
  shows "coherent est (access_write est rnd w key data st) \<and> writable w (access_write est rnd w key data st) \<and>
    view (access_write est rnd w key data st) = (view st)(key \<mapsto> data)"
proof -
  have v: "view (access_write est rnd w key data st) = (view st)(key \<mapsto> data)"
    using view_writer_op [OF assms(2)] by (auto simp: access_write_def view_def [of st] fun_eq_iff)
  have "coherent est (access_write est rnd w key data st)"
  proof (rule coherentI)
    show "dc_ok est (st_cache (access_write est rnd w key data st))"
      using assms(1) by (simp add: access_write_def coherent_def dc_ok_ops)
    fix k x
    assume "dc_get (st_cache (access_write est rnd w key data st)) k = Some x"
    then have get: "dc_get (dc_insert est rnd key data (st_cache st)) k = Some x" by (simp add: access_write_def)
    have ok: "dc_ok est (st_cache st)" using assms(1) by (simp add: coherent_def)
    have "k = key \<and> x = data \<or> k \<noteq> key \<and> dc_get (st_cache st) k = Some x"
      using dc_get_insert [OF ok get] get ok by (auto simp: dc_insert_def dc_get_def dc_ok_def)
    then show "view (access_write est rnd w key data st) k = Some x"
      using assms(1) unfolding v by (auto simp: coherent_def)
  qed
  moreover have "writable w (access_write est rnd w key data st)"
    using assms(2) unfolding access_write_def by (intro writable_writer_op) (simp add: writable_def)
  ultimately show ?thesis using v by simp
qed

lemma coherent_delete:
  assumes "coherent est st" "writable w st"
  shows "coherent est (access_delete est w key st) \<and> writable w (access_delete est w key st) \<and>
    view (access_delete est w key st) = (view st)(key := None)"
proof -
  have v: "view (access_delete est w key st) = (view st)(key := None)"
    using view_writer_op [OF assms(2)] by (auto simp: access_delete_def view_def [of st] fun_eq_iff)
  have ok: "dc_ok est (st_cache st)" using assms(1) by (simp add: coherent_def)
  have "coherent est (access_delete est w key st)"
  proof (rule coherentI)
    show "dc_ok est (st_cache (access_delete est w key st))"
      using ok by (simp add: access_delete_def dc_ok_ops)
    fix k x
    assume "dc_get (st_cache (access_delete est w key st)) k = Some x"
    then have get: "dc_get (dc_remove est key (st_cache st)) k = Some x" by (simp add: access_delete_def)
    then have "k \<noteq> key" "dc_get (st_cache st) k = Some x"
      using dc_remove_gone [OF ok] dc_get_remove [OF ok get] by auto
    then show "view (access_delete est w key st) k = Some x"
      using assms(1) unfolding v by (simp add: coherent_def)
  qed
  moreover have "writable w (access_delete est w key st)"
    using assms(2) unfolding access_delete_def by (intro writable_writer_op) (simp add: writable_def)
  ultimately show ?thesis using v by simp
qed

lemma coherent_delete_all:
  assumes "coherent est st" "writable w st"
  shows "coherent est (access_delete_all w st) \<and> view (access_delete_all w st) = Map.empty"
proof -
  have ok: "dc_ok est (st_cache st)" using assms(1) by (simp add: coherent_def)
  have v: "view (access_delete_all w st) = Map.empty"
    using view_writer_op [OF assms(2)] by (auto simp: access_delete_all_def fun_eq_iff)
  have "coherent est (access_delete_all w st)"
    using ok by (intro coherentI) (simp_all add: access_delete_all_def dc_ok_ops dc_get_remove_all)
  with v show ?thesis by simp
qed

lemma coherent_commit: "coherent est st \<Longrightarrow> coherent est (commit st) \<and> view (commit st) = view st"
  by (simp add: coherent_def commit_def view_def fun_eq_iff)

text \<open>A key is settled when the database agrees with the view of it, or it is cached.\<close>

definition settled :: "bytes \<Rightarrow> 'v store \<Rightarrow> bool" where
  "settled key st \<longleftrightarrow> dc_get (st_cache st) key \<noteq> None \<or> st_db st (db_key (st_prefix st) key) = view st key"

lemma settled_commit: "settled key (commit st)"
  by (simp add: settled_def commit_def view_def)

lemma coherent_read:
  assumes "coherent est st" "settled key st"
  shows "\<exists>st'. access_read est rnd key st =
      (case view st key of Some v \<Rightarrow> Inr v | None \<Rightarrow> Inl (KeyNotFound (db_key (st_prefix st) key)), st') \<and>
    coherent est st' \<and> view st' = view st \<and> st_batch st' = st_batch st \<and> st_db st' = st_db st"
proof (cases "dc_get (st_cache st) key")
  case (Some v)
  with assms(1) have "view st key = Some v" by (simp add: coherent_def)
  with Some assms(1) show ?thesis by (simp add: access_read_def)
next
  case None
  with assms(2) have db: "st_db st (db_key (st_prefix st) key) = view st key" by (simp add: settled_def)
  show ?thesis
  proof (cases "view st key")
    case None
    with db \<open>dc_get (st_cache st) key = None\<close> assms(1) show ?thesis by (simp add: access_read_def)
  next
    case (Some v)
    let ?st = "st\<lparr>st_cache := dc_insert est rnd key v (st_cache st)\<rparr>"
    have ok: "dc_ok est (st_cache st)" using assms(1) by (simp add: coherent_def)
    have view: "view ?st = view st" by (simp add: view_def fun_eq_iff)
    have "coherent est ?st"
    proof (rule coherentI)
      fix k x
      assume "dc_get (st_cache ?st) k = Some x"
      then have "k = key \<and> x = v \<or> dc_get (st_cache st) k = Some x"
        using dc_get_insert [OF ok, of rnd key v k x] by auto
      then show "view ?st k = Some x"
        using assms(1) Some unfolding view by (auto simp: coherent_def)
    qed (simp add: ok dc_ok_ops)
    with view Some db None show ?thesis by (simp add: access_read_def)
  qed
qed

text \<open>The operations on many keys are sequences of the operations on one.\<close>

lemma writer_op_cache: "writer_op w oper (st\<lparr>st_cache := c\<rparr>) = (writer_op w oper st)\<lparr>st_cache := c\<rparr>"
  by (simp add: writer_op_def split: writer.split)

lemma fold_writer_op:
  "fold (\<lambda>x. writer_op w (f x)) xs (st\<lparr>st_cache := c\<rparr>) = (fold (\<lambda>x. writer_op w (f x)) xs st)\<lparr>st_cache := c\<rparr>"
  "st_cache (fold (\<lambda>x. writer_op w (f x)) xs st) = st_cache st"
  by (induction xs arbitrary: st) (simp_all add: writer_op_cache)

lemma access_write_many_Cons:
  "access_write_many est rnds w ((key, data) # items) st =
     access_write_many est (\<lambda>i. rnds (Suc i)) w items (access_write est (rnds 0) w key data st)"
  by (simp add: access_write_many_def access_write_def writer_op_cache case_prod_unfold fold_writer_op)

lemma access_delete_many_Cons:
  "access_delete_many est w (key # keys) st = access_delete_many est w keys (access_delete est w key st)"
  by (simp add: access_delete_many_def access_delete_def dc_remove_many_def writer_op_cache fold_writer_op)

lemma coherent_write_many:
  "coherent est st \<Longrightarrow> writable w st \<Longrightarrow> coherent est (access_write_many est rnds w items st)"
proof (induction items arbitrary: st rnds)
  case (Cons item items)
  then show ?case by (cases item) (simp add: access_write_many_Cons coherent_write)
qed (simp add: access_write_many_def)

lemma coherent_delete_many:
  "coherent est st \<Longrightarrow> writable w st \<Longrightarrow> coherent est (access_delete_many est w keys st)"
  by (induction keys arbitrary: st)
    (simp_all add: access_delete_many_Cons coherent_delete, simp add: access_delete_many_def dc_remove_many_def)

lemma coherent_write_many_without_cache:
  assumes "coherent est st"
  shows "coherent est (access_write_many_without_cache w items st)"
proof -
  have ok: "dc_ok est (st_cache st)" using assms by (simp add: coherent_def)
  then show ?thesis
    by (intro coherentI) (simp_all add: access_write_many_without_cache_def Let_def case_prod_unfold fold_writer_op
        dc_ok_ops dc_get_remove_all)
qed

section \<open>Interleavings of operations\<close>

text \<open>The operations of a store whose reads are of settled keys.\<close>

inductive store_step :: "'v estimator \<Rightarrow> 'v store \<Rightarrow> 'v store \<Rightarrow> bool" for est where
  step_write: "writable w st \<Longrightarrow> store_step est st (access_write est rnd w key data st)"
| step_delete: "writable w st \<Longrightarrow> store_step est st (access_delete est w key st)"
| step_delete_all: "writable w st \<Longrightarrow> store_step est st (access_delete_all w st)"
| step_write_many: "writable w st \<Longrightarrow> store_step est st (access_write_many est rnds w items st)"
| step_delete_many: "writable w st \<Longrightarrow> store_step est st (access_delete_many est w keys st)"
| step_write_many_without_cache: "store_step est st (access_write_many_without_cache w items st)"
| step_commit: "store_step est st (commit st)"
| step_read: "settled key st \<Longrightarrow> store_step est st (snd (access_read est rnd key st))"

lemma store_step_coherent: "store_step est st st' \<Longrightarrow> coherent est st \<Longrightarrow> coherent est st'"
proof (induction rule: store_step.induct)
  case (step_read key st rnd)
  then obtain st' where "snd (access_read est rnd key st) = st'" "coherent est st'"
    using coherent_read [OF step_read(2,1), of rnd] by auto
  then show ?case by simp
qed (simp_all add: coherent_write coherent_delete coherent_delete_all coherent_write_many coherent_delete_many
    coherent_write_many_without_cache coherent_commit)

inductive store_reach :: "'v estimator \<Rightarrow> 'v store \<Rightarrow> 'v store \<Rightarrow> bool" for est where
  reach_refl: "store_reach est st st"
| reach_step: "store_reach est st st' \<Longrightarrow> store_step est st' st'' \<Longrightarrow> store_reach est st st''"

lemma store_reach_coherent: "store_reach est st st' \<Longrightarrow> coherent est st \<Longrightarrow> coherent est st'"
  by (induction rule: store_reach.induct) (auto dest: store_step_coherent)

lemma coherent_new: "coherent est (access_new policy prefix db)"
  by (intro coherentI) (simp_all add: access_new_def dc_new_ok, simp add: dc_new_def dc_get_def)

text \<open>
  C27: A store is coherent in every interleaving of writes, deletions, commits and reads of settled
  keys: a read of a settled key returns the value last written under it, pending or not, and
  \<open>KeyNotFound\<close> after a deletion; committing makes every key settled without changing what is read.
\<close>

theorem store_coherent:
  assumes "store_reach est (access_new policy prefix db) st"
  shows "(settled key st \<longrightarrow> fst (access_read est rnd key st) =
      (case view st key of Some v \<Rightarrow> Inr v | None \<Rightarrow> Inl (KeyNotFound (db_key (st_prefix st) key)))) \<and>
    settled key (commit st) \<and> view (commit st) = view st \<and>
    view (access_write est rnd BatchDbWriter key data st) = (view st)(key \<mapsto> data) \<and>
    view (access_delete est BatchDbWriter key st) = (view st)(key := None)"
proof -
  have c: "coherent est st" by (rule store_reach_coherent [OF assms coherent_new])
  have w: "writable BatchDbWriter st" by (simp add: writable_def)
  show ?thesis
    using coherent_read [OF c, of key rnd] coherent_commit [OF c] coherent_write [OF c w] coherent_delete [OF c w]
      settled_commit [of key st] by auto
qed

theorem store_coherent_witness:
  "let est = (\<lambda>_ _. 1); st = access_write est (\<lambda>_. 0) BatchDbWriter [1] (7 :: nat) (access_new (Count 1) [9] Map.empty)
   in fst (access_read est (\<lambda>_. 0) [1] st) = Inr 7 \<and> st_db st = Map.empty"
proof -
  let ?est = "\<lambda>_ _. 1 :: nat" and ?init = "access_new (Count 1) [9] Map.empty :: nat store"
  let ?st = "access_write ?est (\<lambda>_. 0) BatchDbWriter [1] 7 ?init"
  have "store_step ?est ?init ?st" by (rule store_step.step_write) (simp add: writable_def)
  then have "store_reach ?est ?init ?st" using reach_refl reach_step by metis
  moreover have "settled [1] ?st" "view ?st [1] = Some 7"
    by (simp_all add: settled_def access_write_def dc_insert_hit access_new_def dc_new_def view_def writer_op_def
        write_batch_def)
  ultimately have "fst (access_read ?est (\<lambda>_. 0) [1] ?st) = Inr 7"
    using store_coherent [of ?est "Count 1" "[9]" Map.empty ?st "[1]" "\<lambda>_. 0"] by simp
  then show ?thesis by (simp add: access_write_def writer_op_def access_new_def)
qed

text \<open>
  C28: Reading a key between its batched deletion and the commit brings the deleted value back into the
  cache, where it stays: after the commit the database does not have the key, and the store still
  returns the value.
\<close>

theorem store_read_revives_deleted:
  assumes "coherent est st" "st_batch st = []" "st_db st (db_key (st_prefix st) key) = Some v"
    and "\<not> tracked (dc_policy (st_cache st))" "max_size (dc_policy (st_cache st)) \<noteq> 0"
  shows "let st1 = access_delete est BatchDbWriter key st; (r, st2) = access_read est rnd key st1; st3 = commit st2
    in r = Inr v \<and> st_db st3 (db_key (st_prefix st3) key) = None \<and> fst (access_read est rnd' key st3) = Inr v"
proof -
  let ?c = "dc_remove est key (st_cache st)"
  have ok: "dc_ok est (st_cache st)" using assms(1) by (simp add: coherent_def)
  have gone: "dc_get ?c key = None" by (rule dc_remove_gone [OF ok])
  have hit: "dc_get (dc_insert est rnd key v ?c) key = Some v"
    using assms(4,5) by (intro dc_insert_hit) simp_all
  show ?thesis
    using assms(2,3) gone hit
    by (simp add: access_delete_def access_read_def writer_op_def commit_def write_batch_def)
qed

theorem store_read_revives_deleted_witness:
  "let st = access_new (Count 1) [9] [[9, 1] \<mapsto> 7 :: nat]; est = (\<lambda>_ _. 1);
       st1 = access_delete est BatchDbWriter [1] st; (r, st2) = access_read est (\<lambda>_. 0) [1] st1; st3 = commit st2
   in st_db st3 [9, 1] = None \<and> fst (access_read est (\<lambda>_. 0) [1] st3) = Inr 7"
proof -
  let ?st = "access_new (Count 1) [9] [[9, 1] \<mapsto> 7] :: nat store" and ?est = "\<lambda>_ _. 1 :: nat"
  have "let st1 = access_delete ?est BatchDbWriter [1] ?st; (r, st2) = access_read ?est (\<lambda>_. 0) [1] st1; st3 = commit st2
    in r = Inr 7 \<and> st_db st3 (db_key (st_prefix st3) [1]) = None \<and> fst (access_read ?est (\<lambda>_. 0) [1] st3) = Inr 7"
    by (rule store_read_revives_deleted [OF coherent_new]) (simp_all add: access_new_def dc_new_def db_key_def)
  moreover have "st_prefix (access_delete ?est BatchDbWriter [1] ?st) = [9]"
    "st_prefix (snd (access_read ?est (\<lambda>_. 0) [1] (access_delete ?est BatchDbWriter [1] ?st))) = [9]"
    by (simp_all add: access_delete_def access_read_def access_new_def split: option.split)
  ultimately show ?thesis
    by (simp add: Let_def split_beta commit_def db_key_def)
qed

end
