(* ===== verification/Account_Store.thy ===== *)
theory Account_Store
  imports Db_Access Tx_Types "HOL-Library.List_Lexorder"
begin

text \<open>
  Account states (\<open>consensus/src/model/stores/account_store.rs\<close>), the store of the live accounts, and
  the flash transactions that change them (\<open>consensus/src/pipeline/virtual_processor/flash_tx.rs\<close>).
  What the flash functions need of the store is a record of two operations, \<open>bank\<close>; the store of the
  node is the instance \<open>db_bank\<close> on a cached database access.
\<close>

section \<open>Account states\<close>

type_synonym hash = bytes

definition hash_default :: hash where "hash_default = replicate 32 0"

record flash_entry =
  fe_flash_id :: hash
  fe_expiry_daa_score :: u64
  fe_block_hash :: hash

record account_state =
  acc_balance :: u64
  recent_flashes :: "flash_entry list"

definition account_state_new :: "u64 \<Rightarrow> account_state" where
  "account_state_new balance = \<lparr> acc_balance = balance, recent_flashes = [] \<rparr>"

definition account_default :: account_state where
  "account_default = \<lparr> acc_balance = 0, recent_flashes = [] \<rparr>"

text \<open>\<open>sort_by\<close> is a stable sort, byte strings are ordered lexicographically.\<close>

definition to_canonical_bytes :: "account_state \<Rightarrow> bytes" where
  "to_canonical_bytes s =
     (let flashes = sort_key fe_flash_id (recent_flashes s)
      in u64_to_le (acc_balance s) @ u32_to_le (word_of_nat (length flashes)) @
         concat (map (\<lambda>f. fe_flash_id f @ u64_to_le (fe_expiry_daa_score f)) flashes))"

definition content_hash :: "(bytes \<Rightarrow> hash) \<Rightarrow> account_state \<Rightarrow> hash" where
  "content_hash sha3 s = sha3 (ascii ''SAHYADRI_ACCOUNT_STATE_V1'' @ to_canonical_bytes s)"

definition is_empty_account :: "account_state \<Rightarrow> bool" where
  "is_empty_account s \<longleftrightarrow> acc_balance s = 0 \<and> recent_flashes s = []"

definition estimate_mem_bytes :: "account_state \<Rightarrow> nat" where
  "estimate_mem_bytes s = 16 + length (recent_flashes s) * 40"

definition FLASH_EXPIRY_BLOCKS :: u64 where "FLASH_EXPIRY_BLOCKS = 100"
definition FLASH_PRUNE_BUFFER :: u64 where "FLASH_PRUNE_BUFFER = 50"
definition FLASH_PRUNE_WINDOW :: u64 where "FLASH_PRUNE_WINDOW = FLASH_EXPIRY_BLOCKS + FLASH_PRUNE_BUFFER"

definition is_flash_replay :: "hash \<Rightarrow> account_state \<Rightarrow> bool" where
  "is_flash_replay fid s \<longleftrightarrow> list_ex (\<lambda>e. fe_flash_id e = fid) (recent_flashes s)"

definition record_flash :: "hash \<Rightarrow> u64 \<Rightarrow> hash \<Rightarrow> account_state \<Rightarrow> account_state" where
  "record_flash fid expiry bh s =
     s\<lparr>recent_flashes := recent_flashes s @
        [\<lparr> fe_flash_id = fid, fe_expiry_daa_score = expiry, fe_block_hash = bh \<rparr>]\<rparr>"

definition prune_recent_flashes :: "u64 \<Rightarrow> account_state \<Rightarrow> account_state" where
  "prune_recent_flashes daa s =
     (let cutoff = sat_sub64 daa FLASH_PRUNE_BUFFER
      in s\<lparr>recent_flashes := filter (\<lambda>e. fe_expiry_daa_score e > cutoff) (recent_flashes s)\<rparr>)"

definition reorg_block_flashes :: "hash \<Rightarrow> account_state \<Rightarrow> bool \<times> account_state" where
  "reorg_block_flashes bh s =
     (let flashes = filter (\<lambda>e. fe_block_hash e \<noteq> bh) (recent_flashes s)
      in (length flashes < length (recent_flashes s), s\<lparr>recent_flashes := flashes\<rparr>))"

section \<open>The store of accounts\<close>

definition account_key :: "script_public_key \<Rightarrow> bytes" where
  "account_key spk = u16_to_le (spk_version spk) @ spk_script spk"

record 's bank =
  bank_get :: "script_public_key \<Rightarrow> 's \<Rightarrow> account_state \<times> 's"
  bank_set :: "script_public_key \<Rightarrow> account_state \<Rightarrow> 's \<Rightarrow> 's"

text \<open>
  \<open>DbAccountStore\<close>: an absent account reads as the default one.  The random draws of the cache may
  depend on the whole store.
\<close>

definition account_est :: "account_state estimator" where
  "account_est mode s = estimate_mem_bytes s"

definition db_bank :: "(account_state store \<Rightarrow> draws) \<Rightarrow> account_state store bank" where
  "db_bank rnd =
     \<lparr> bank_get = (\<lambda>spk st.
          case access_read account_est (rnd st) (account_key spk) st of
            (Inr s, st') \<Rightarrow> (s, st')
          | (Inl (KeyNotFound _), st') \<Rightarrow> (account_default, st')),
       bank_set = (\<lambda>spk s st. access_write account_est (rnd st) BatchDbWriter (account_key spk) s st) \<rparr>"

definition get_balance :: "'s bank \<Rightarrow> script_public_key \<Rightarrow> 's \<Rightarrow> u64 \<times> 's" where
  "get_balance b spk st = (case bank_get b spk st of (s, st') \<Rightarrow> (acc_balance s, st'))"

text \<open>The last transaction of an account is no longer kept.\<close>

definition get_last_tx_id :: "'s bank \<Rightarrow> script_public_key \<Rightarrow> 's \<Rightarrow> hash \<times> 's" where
  "get_last_tx_id b spk st = (replicate 32 0, st)"

definition set_last_tx_id_batch :: "'s bank \<Rightarrow> script_public_key \<Rightarrow> hash \<Rightarrow> 's \<Rightarrow> 's" where
  "set_last_tx_id_batch b spk tx_id st = st"

definition update_balance_batch :: "'s bank \<Rightarrow> script_public_key \<Rightarrow> int \<Rightarrow> 's \<Rightarrow> 's" where
  "update_balance_batch b spk change st =
     (case bank_get b spk st of (s, st') \<Rightarrow>
        bank_set b spk
          (s\<lparr>acc_balance := if change \<ge> 0 then sat_add64 (acc_balance s) (word_of_int change)
                            else sat_sub64 (acc_balance s) (word_of_int (- change))\<rparr>) st')"

section \<open>Flash transactions\<close>

text \<open>\<open>None\<close> is the failing assertion.\<close>

definition hash20_to_p2pkh_spk :: "bytes \<Rightarrow> script_public_key option" where
  "hash20_to_p2pkh_spk hash20 =
     (if length hash20 \<ge> 20
      then Some \<lparr> spk_version = 0, spk_script = 0x14 # take 20 hash20 @ [0xac] \<rparr> else None)"

definition flash_pubkey_to_spk :: "(bytes \<Rightarrow> hash) \<Rightarrow> bytes \<Rightarrow> script_public_key" where
  "flash_pubkey_to_spk sha3 pubkey =
     \<lparr> spk_version = 0, spk_script = 0x14 # take 20 (sha3 pubkey) @ [0xac] \<rparr>"

definition apply_flash_tx :: "(bytes \<Rightarrow> hash) \<Rightarrow> 's bank \<Rightarrow> flash_transaction \<Rightarrow> hash \<Rightarrow> 's \<Rightarrow> 's option" where
  "apply_flash_tx sha3 b tx bh st = do {
     let sender_spk = flash_pubkey_to_spk sha3 (fl_pubkey tx);
     recipient_spk \<leftarrow> hash20_to_p2pkh_spk (fl_recipient tx);
     let (sender, st) = bank_get b sender_spk st;
     let total_debit = sat_add64 (fl_amount tx) (fl_fee tx);
     let sender = sender\<lparr>acc_balance := sat_sub64 (acc_balance sender) total_debit\<rparr>;
     let sender = record_flash (flash_id sha3 tx) (fl_expiry_daa_score tx) bh sender;
     let st = bank_set b sender_spk sender st;
     let (recipient, st) = bank_get b recipient_spk st;
     let recipient = recipient\<lparr>acc_balance := sat_add64 (acc_balance recipient) (fl_amount tx)\<rparr>;
     Some (bank_set b recipient_spk recipient st)
   }"

definition reorg_flash_tx :: "(bytes \<Rightarrow> hash) \<Rightarrow> 's bank \<Rightarrow> hash \<Rightarrow> flash_transaction \<Rightarrow> 's \<Rightarrow> 's option" where
  "reorg_flash_tx sha3 b bh tx st = do {
     let sender_spk = flash_pubkey_to_spk sha3 (fl_pubkey tx);
     recipient_spk \<leftarrow> hash20_to_p2pkh_spk (fl_recipient tx);
     let (sender, st) = bank_get b sender_spk st;
     let (removed, sender) = reorg_block_flashes bh sender;
     if \<not> removed then Some st
     else do {
       let total_credit = sat_add64 (fl_amount tx) (fl_fee tx);
       let sender = sender\<lparr>acc_balance := sat_add64 (acc_balance sender) total_credit\<rparr>;
       let st = bank_set b sender_spk sender st;
       let (recipient, st) = bank_get b recipient_spk st;
       let recipient = recipient\<lparr>acc_balance := sat_sub64 (acc_balance recipient) (fl_amount tx)\<rparr>;
       Some (bank_set b recipient_spk recipient st)
     }
   }"

fun reorg_flash_block :: "(bytes \<Rightarrow> hash) \<Rightarrow> 's bank \<Rightarrow> hash \<Rightarrow> flash_transaction list \<Rightarrow> 's \<Rightarrow> 's option" where
  "reorg_flash_block sha3 b bh [] st = Some st"
| "reorg_flash_block sha3 b bh (tx # txs) st =
     Option.bind (reorg_flash_tx sha3 b bh tx st) (reorg_flash_block sha3 b bh txs)"

fun prune_flashes_for_accounts :: "'s bank \<Rightarrow> script_public_key list \<Rightarrow> u64 \<Rightarrow> 's \<Rightarrow> 's" where
  "prune_flashes_for_accounts b [] daa st = st"
| "prune_flashes_for_accounts b (spk # spks) daa st =
     (case bank_get b spk st of (acc, st) \<Rightarrow>
        if recent_flashes acc = [] then prune_flashes_for_accounts b spks daa st
        else let acc' = prune_recent_flashes daa acc
             in if length (recent_flashes acc') \<noteq> length (recent_flashes acc)
                then prune_flashes_for_accounts b spks daa (bank_set b spk acc' st)
                else prune_flashes_for_accounts b spks daa st)"

section \<open>The encoding of account states\<close>

text \<open>What is committed of a flash entry.\<close>

definition committed :: "flash_entry \<Rightarrow> hash \<times> u64" where
  "committed f = (fe_flash_id f, fe_expiry_daa_score f)"

lemma flash_bytes_inj:
  assumes "list_all (\<lambda>f. length (fe_flash_id f) = 32) fs" "list_all (\<lambda>f. length (fe_flash_id f) = 32) gs"
    and "concat (map (\<lambda>f. fe_flash_id f @ u64_to_le (fe_expiry_daa_score f)) fs) =
      concat (map (\<lambda>f. fe_flash_id f @ u64_to_le (fe_expiry_daa_score f)) gs)"
  shows "map committed fs = map committed gs"
  using assms
proof (induction fs arbitrary: gs)
  case Nil
  then show ?case by (cases gs) auto
next
  case (Cons f fs)
  then obtain g gs' where g: "gs = g # gs'" by (cases gs) auto
  have "fe_flash_id f @ u64_to_le (fe_expiry_daa_score f) = fe_flash_id g @ u64_to_le (fe_expiry_daa_score g) \<and>
      concat (map (\<lambda>f. fe_flash_id f @ u64_to_le (fe_expiry_daa_score f)) fs) =
      concat (map (\<lambda>f. fe_flash_id f @ u64_to_le (fe_expiry_daa_score f)) gs')"
    using Cons(2-4) g by (simp add: append_eq_append_conv del: append_assoc flip: append_assoc)
  then show ?case
    using Cons g by (simp add: committed_def)
qed

lemma canonical_bytes_inj:
  assumes "list_all (\<lambda>f. length (fe_flash_id f) = 32) (recent_flashes s)"
    and "list_all (\<lambda>f. length (fe_flash_id f) = 32) (recent_flashes t)"
    and "to_canonical_bytes s = to_canonical_bytes t"
  shows "acc_balance s = acc_balance t \<and>
    map committed (sort_key fe_flash_id (recent_flashes s)) = map committed (sort_key fe_flash_id (recent_flashes t))"
proof -
  let ?fs = "sort_key fe_flash_id (recent_flashes s)" and ?gs = "sort_key fe_flash_id (recent_flashes t)"
  have "u64_to_le (acc_balance s) = u64_to_le (acc_balance t)"
    and "concat (map (\<lambda>f. fe_flash_id f @ u64_to_le (fe_expiry_daa_score f)) ?fs) =
      concat (map (\<lambda>f. fe_flash_id f @ u64_to_le (fe_expiry_daa_score f)) ?gs)"
    using assms(3) by (simp_all add: to_canonical_bytes_def Let_def append_eq_append_conv)
  then show ?thesis
    using flash_bytes_inj [of ?fs ?gs] assms(1,2) by (simp add: list_all_iff)
qed

section \<open>The contract of a bank\<close>

text \<open>
  On the accounts of a set, the bank behaves like a map from scripts to account states.  The set is
  what lets a bounded cache satisfy the contract.
\<close>

locale bank_contract =
  fixes b :: "'s bank"
    and accts :: "'s \<Rightarrow> script_public_key \<Rightarrow> account_state"
    and ok :: "'s \<Rightarrow> bool"
    and K :: "script_public_key set"
  assumes get_spec: "ok st \<Longrightarrow> spk \<in> K \<Longrightarrow>
      \<exists>st'. bank_get b spk st = (accts st spk, st') \<and> ok st' \<and> accts st' = accts st"
    and set_spec: "ok st \<Longrightarrow> spk \<in> K \<Longrightarrow>
      ok (bank_set b spk s st) \<and> accts (bank_set b spk s st) = (accts st)(spk := s)"
begin

lemma update_balance_spec:
  assumes "ok st" "spk \<in> K"
  shows "ok (update_balance_batch b spk change st) \<and>
    accts (update_balance_batch b spk change st) = (accts st)(spk := (accts st spk)\<lparr>acc_balance :=
      if change \<ge> 0 then sat_add64 (acc_balance (accts st spk)) (word_of_int change)
      else sat_sub64 (acc_balance (accts st spk)) (word_of_int (- change))\<rparr>)"
proof -
  obtain st' where "bank_get b spk st = (accts st spk, st')" "ok st'" "accts st' = accts st"
    using get_spec [OF assms] by blast
  then show ?thesis
    using set_spec [of st' spk] assms(2) by (simp add: update_balance_batch_def)
qed

end

section \<open>Flash transactions on maps of accounts\<close>

definition debit_flash :: "(bytes \<Rightarrow> hash) \<Rightarrow> flash_transaction \<Rightarrow> hash \<Rightarrow> account_state \<Rightarrow> account_state" where
  "debit_flash sha3 tx bh a = record_flash (flash_id sha3 tx) (fl_expiry_daa_score tx) bh
     (a\<lparr>acc_balance := sat_sub64 (acc_balance a) (sat_add64 (fl_amount tx) (fl_fee tx))\<rparr>)"

definition credit :: "u64 \<Rightarrow> account_state \<Rightarrow> account_state" where
  "credit n a = a\<lparr>acc_balance := sat_add64 (acc_balance a) n\<rparr>"

definition uncredit :: "u64 \<Rightarrow> account_state \<Rightarrow> account_state" where
  "uncredit n a = a\<lparr>acc_balance := sat_sub64 (acc_balance a) n\<rparr>"

abbreviation sender_of :: "(bytes \<Rightarrow> hash) \<Rightarrow> flash_transaction \<Rightarrow> script_public_key" where
  "sender_of sha3 tx \<equiv> flash_pubkey_to_spk sha3 (fl_pubkey tx)"

definition recipient_of :: "flash_transaction \<Rightarrow> script_public_key" where
  "recipient_of tx = \<lparr> spk_version = 0, spk_script = 0x14 # take 20 (fl_recipient tx) @ [0xac] \<rparr>"

lemma hash20_recipient:
  "20 \<le> length (fl_recipient tx) \<Longrightarrow> hash20_to_p2pkh_spk (fl_recipient tx) = Some (recipient_of tx)"
  by (simp add: hash20_to_p2pkh_spk_def recipient_of_def)

definition flash_effect ::
  "(bytes \<Rightarrow> hash) \<Rightarrow> hash \<Rightarrow> flash_transaction \<Rightarrow> (script_public_key \<Rightarrow> account_state) \<Rightarrow> script_public_key \<Rightarrow> account_state" where
  "flash_effect sha3 bh tx m =
     (let m' = m(sender_of sha3 tx := debit_flash sha3 tx bh (m (sender_of sha3 tx)))
      in m'(recipient_of tx := credit (fl_amount tx) (m' (recipient_of tx))))"

definition unflash_effect ::
  "(bytes \<Rightarrow> hash) \<Rightarrow> hash \<Rightarrow> flash_transaction \<Rightarrow> (script_public_key \<Rightarrow> account_state) \<Rightarrow> script_public_key \<Rightarrow> account_state" where
  "unflash_effect sha3 bh tx m =
     (case reorg_block_flashes bh (m (sender_of sha3 tx)) of (removed, sender) \<Rightarrow>
        if \<not> removed then m
        else let m' = m(sender_of sha3 tx := credit (sat_add64 (fl_amount tx) (fl_fee tx)) sender)
             in m'(recipient_of tx := uncredit (fl_amount tx) (m' (recipient_of tx))))"

context bank_contract
begin

lemma apply_flash_spec:
  assumes "ok st" "sender_of sha3 tx \<in> K" "recipient_of tx \<in> K" "20 \<le> length (fl_recipient tx)"
  shows "\<exists>st'. apply_flash_tx sha3 b tx bh st = Some st' \<and> ok st' \<and> accts st' = flash_effect sha3 bh tx (accts st)"
proof -
  let ?s = "sender_of sha3 tx" and ?r = "recipient_of tx"
  obtain st1 where g1: "bank_get b ?s st = (accts st ?s, st1)" "ok st1" "accts st1 = accts st"
    using get_spec [OF assms(1,2)] by blast
  define st2 where "st2 = bank_set b ?s (debit_flash sha3 tx bh (accts st ?s)) st1"
  have s2: "ok st2" "accts st2 = (accts st)(?s := debit_flash sha3 tx bh (accts st ?s))"
    using set_spec [OF g1(2) assms(2)] g1(3) by (simp_all add: st2_def)
  obtain st3 where g3: "bank_get b ?r st2 = (accts st2 ?r, st3)" "ok st3" "accts st3 = accts st2"
    using get_spec [OF s2(1) assms(3)] by blast
  have "apply_flash_tx sha3 b tx bh st = Some (bank_set b ?r (credit (fl_amount tx) (accts st2 ?r)) st3)"
    using g1(1) g3(1) hash20_recipient [OF assms(4)]
    by (simp add: apply_flash_tx_def st2_def debit_flash_def credit_def Let_def)
  moreover have "ok (bank_set b ?r (credit (fl_amount tx) (accts st2 ?r)) st3) \<and>
      accts (bank_set b ?r (credit (fl_amount tx) (accts st2 ?r)) st3) = flash_effect sha3 bh tx (accts st)"
    using set_spec [OF g3(2) assms(3)] g3(3) s2(2) by (simp add: flash_effect_def Let_def)
  ultimately show ?thesis by blast
qed

lemma reorg_flash_spec:
  assumes "ok st" "sender_of sha3 tx \<in> K" "recipient_of tx \<in> K" "20 \<le> length (fl_recipient tx)"
  shows "\<exists>st'. reorg_flash_tx sha3 b bh tx st = Some st' \<and> ok st' \<and> accts st' = unflash_effect sha3 bh tx (accts st)"
proof -
  let ?s = "sender_of sha3 tx" and ?r = "recipient_of tx"
  obtain st1 where g1: "bank_get b ?s st = (accts st ?s, st1)" "ok st1" "accts st1 = accts st"
    using get_spec [OF assms(1,2)] by blast
  obtain removed a where a: "reorg_block_flashes bh (accts st ?s) = (removed, a)" by (cases "reorg_block_flashes bh (accts st ?s)")
  show ?thesis
  proof (cases removed)
    case False
    then show ?thesis
      using g1 a hash20_recipient [OF assms(4)] by (simp add: reorg_flash_tx_def unflash_effect_def Let_def)
  next
    case True
    let ?a = "credit (sat_add64 (fl_amount tx) (fl_fee tx)) a"
    define st2 where "st2 = bank_set b ?s ?a st1"
    have s2: "ok st2" "accts st2 = (accts st)(?s := ?a)"
      using set_spec [OF g1(2) assms(2)] g1(3) by (simp_all add: st2_def)
    obtain st3 where g3: "bank_get b ?r st2 = (accts st2 ?r, st3)" "ok st3" "accts st3 = accts st2"
      using get_spec [OF s2(1) assms(3)] by blast
    have "reorg_flash_tx sha3 b bh tx st = Some (bank_set b ?r (uncredit (fl_amount tx) (accts st2 ?r)) st3)"
      using g1(1) g3(1) hash20_recipient [OF assms(4)] a True
      by (simp add: reorg_flash_tx_def st2_def credit_def uncredit_def Let_def)
    moreover have "ok (bank_set b ?r (uncredit (fl_amount tx) (accts st2 ?r)) st3) \<and>
        accts (bank_set b ?r (uncredit (fl_amount tx) (accts st2 ?r)) st3) = unflash_effect sha3 bh tx (accts st)"
      using set_spec [OF g3(2) assms(3)] g3(3) s2(2) a True by (simp add: unflash_effect_def Let_def)
    ultimately show ?thesis by blast
  qed
qed

end

section \<open>The database as a bank\<close>

lemma account_key_inj [simp]: "account_key a = account_key c \<longleftrightarrow> a = c"
  by (cases a; cases c) (auto simp: account_key_def append_eq_append_conv)

definition db_accts :: "account_state store \<Rightarrow> script_public_key \<Rightarrow> account_state" where
  "db_accts st spk = (case view st (account_key spk) of None \<Rightarrow> account_default | Some s \<Rightarrow> s)"

text \<open>
  The store has room for the accounts of a set when the cache holds only such accounts and is larger
  than the set; then nothing is evicted before the batch is written.
\<close>

definition roomy :: "script_public_key set \<Rightarrow> account_state store \<Rightarrow> bool" where
  "roomy K st \<longleftrightarrow> coherent account_est st \<and> finite K \<and> card K < max_size (dc_policy (st_cache st)) \<and>
     \<not> tracked (dc_policy (st_cache st)) \<and> fst ` set (in_map (dc_inner (st_cache st))) \<subseteq> account_key ` K \<and>
     (\<forall>key. settled key st)"

lemma roomy_length:
  assumes "roomy K st"
  shows "length (in_map (dc_inner (st_cache st))) < max_size (dc_policy (st_cache st))"
proof -
  let ?ks = "map fst (in_map (dc_inner (st_cache st)))"
  have "distinct ?ks"
    using assms dc_ok_distinct by (auto simp: roomy_def coherent_def)
  then have "length ?ks = card (set ?ks)" by (simp only: distinct_card)
  also have "\<dots> \<le> card (account_key ` K)"
    using assms by (intro card_mono) (auto simp: roomy_def)
  also have "\<dots> \<le> card K"
    using assms by (intro card_image_le) (simp add: roomy_def)
  finally show ?thesis using assms by (simp add: roomy_def)
qed

lemma roomy_insert:
  assumes "roomy K st"
  shows "in_map (dc_inner (dc_insert account_est rnd k v (st_cache st))) = index_insert k v (in_map (dc_inner (st_cache st)))"
  using assms roomy_length [OF assms] by (simp add: roomy_def dc_insert_def inner_insert_def Let_def)

lemma index_insert_keys: "fst ` set (index_insert k v xs) = insert k (fst ` set xs)"
proof -
  have "set (map fst (index_insert k v xs)) = insert k (set (map fst xs))"
    unfolding keys_index_insert by auto
  then show ?thesis by simp
qed

lemma roomy_get:
  assumes "roomy K st" "spk \<in> K"
  shows "\<exists>st'. bank_get (db_bank rnd) spk st = (db_accts st spk, st') \<and> roomy K st' \<and> db_accts st' = db_accts st"
proof -
  let ?k = "account_key spk"
  obtain st' where st': "access_read account_est (rnd st) ?k st =
      (case view st ?k of Some v \<Rightarrow> Inr v | None \<Rightarrow> Inl (KeyNotFound (db_key (st_prefix st) ?k)), st')"
    "coherent account_est st'" "view st' = view st" "st_db st' = st_db st"
    using coherent_read [of account_est st ?k "rnd st"] assms(1) by (auto simp: roomy_def)
  have cases: "st' = st \<or> (\<exists>v. st' = st\<lparr>st_cache := dc_insert account_est (rnd st) ?k v (st_cache st)\<rparr>)"
    using st'(1) by (auto simp: access_read_def split: option.splits)
  have "roomy K st'"
  proof (cases "st' = st")
    case False
    with cases obtain v where v: "st' = st\<lparr>st_cache := dc_insert account_est (rnd st) ?k v (st_cache st)\<rparr>" by blast
    have "settled key st'" for key
    proof -
      have "settled key st" using assms(1) by (simp add: roomy_def)
      then show ?thesis
        using v st'(3) roomy_insert [OF assms(1), of "rnd st" ?k v] dc_get_def [of "st_cache st'"]
        by (auto simp: settled_def dc_get_def index_insert_lookup)
    qed
    then show ?thesis
      using assms st'(2) v roomy_insert [OF assms(1), of "rnd st" ?k v]
      by (auto simp: roomy_def index_insert_keys)
  qed (use assms in simp)
  then show ?thesis
    using st' by (auto simp: db_bank_def db_accts_def fun_eq_iff split: option.split)
qed

lemma roomy_set:
  assumes "roomy K st" "spk \<in> K"
  shows "roomy K (bank_set (db_bank rnd) spk s st) \<and>
    db_accts (bank_set (db_bank rnd) spk s st) = (db_accts st)(spk := s)"
proof -
  let ?k = "account_key spk" and ?st = "access_write account_est (rnd st) BatchDbWriter (account_key spk) s st"
  have w: "coherent account_est ?st" "view ?st = (view st)(?k \<mapsto> s)"
    using coherent_write [of account_est st BatchDbWriter] assms(1) by (simp_all add: roomy_def writable_def)
  have cache: "st_cache ?st = dc_insert account_est (rnd st) ?k s (st_cache st)"
    "st_db ?st = st_db st" "st_prefix ?st = st_prefix st"
    by (simp_all add: access_write_def writer_op_def)
  have "settled key ?st" for key
  proof -
    have "settled key st" using assms(1) by (simp add: roomy_def)
    then show ?thesis
      using w(2) cache roomy_insert [OF assms(1), of "rnd st" ?k s]
      by (auto simp: settled_def dc_get_def index_insert_lookup)
  qed
  then have "roomy K ?st"
    using assms w(1) cache roomy_insert [OF assms(1), of "rnd st" ?k s] by (auto simp: roomy_def index_insert_keys)
  moreover have "db_accts ?st = (db_accts st)(spk := s)"
    using w(2) by (auto simp: db_accts_def fun_eq_iff)
  ultimately show ?thesis by (simp add: db_bank_def)
qed

interpretation db: bank_contract "db_bank rnd" db_accts "roomy K" K for rnd K
  by unfold_locales (fact roomy_get, fact roomy_set)

lemma roomy_new:
  "finite K \<Longrightarrow> card K < n \<Longrightarrow> roomy K (access_new (Count n) prefix database)"
  using coherent_new [of account_est "Count n" prefix database]
  by (simp add: roomy_def access_new_def dc_new_def settled_def view_def)

end
