(* ===== verification/Flash_Validation.thy ===== *)
theory Flash_Validation
  imports Account_Store Script_Num
begin

text \<open>
  Validation of flash transactions (\<open>transaction_validator/tx_validation_in_account_context.rs\<close>) and
  their application to the accounts when a block is committed (\<open>virtual_processor/processor.rs\<close>).
  \<open>vrf\<close> is the Dilithium verification of a public key, a signature and a message.
\<close>

text \<open>The texts of \<open>Message\<close> are kept as the data they print.\<close>

datatype tx_message =
    FlashExpired u64 u64 | FlashReplay hash | FlashSignatureFailed
  | AccountPayloadTooSmall nat nat | AccountPubkeyInvalid nat nat | AccountSignatureFailed

datatype tx_rule_error =
    Unknown_Error | InvalidNonce u64 u64 | ZeroFee | InvalidPayload | Message tx_message | NoTxInputs | TxDuplicateInputs
  | TxHasGas | UnknownTxVersion u16 | TooManyInputs nat nat | TooManyOutputs nat nat | TooBigSignatureScript nat nat
  | TooBigScriptPublicKey nat nat | NotFinalized nat | CoinbaseHasInputs nat | CoinbaseTooManyOutputs nat u64
  | CoinbaseScriptPublicKeyTooLong nat | CoinbaseNonZeroMassCommitment
  | ImmatureCoinbaseSpend nat registry_ref u64 u64 u64 | InputAmountOverflow | InputAmountTooHigh | TxOutZero nat
  | TxOutTooHigh nat | OutputsValueOverflow | TotalTxOutTooHigh | SpendTooHigh u64 u64 | SequenceLockConditionsAreNotMet
  | MissingTxOutpoints | SignatureInvalid tx_script_error | SignatureEmpty tx_script_error | WrongSigOpCount nat u64 u64
  | MassIncomputable | WrongMass u64 u64 | SubnetworksDisabled bytes | FeerateTooLow

type_synonym ('s, 'a) tx_check = "('s, tx_rule_error, 'a) sm"

definition read_account :: "'s bank \<Rightarrow> script_public_key \<Rightarrow> ('s, account_state) tx_check" where
  "read_account b spk = (\<lambda>st. case bank_get b spk st of (a, st') \<Rightarrow> (Inr a, st'))"

text \<open>The three copies of \<open>pubkey_to_p2pkh_spk\<close> are the same function.\<close>

definition pubkey_to_p2pkh_spk :: "(bytes \<Rightarrow> hash) \<Rightarrow> bytes \<Rightarrow> script_public_key" where
  "pubkey_to_p2pkh_spk sha3 pubkey =
     \<lparr> spk_version = 0, spk_script = 0x14 # take 20 (sha3 pubkey) @ [0xac] \<rparr>"

definition FLASH_MIN_FEE_KANA :: u64 where "FLASH_MIN_FEE_KANA = 1000"

section \<open>Validation\<close>

definition validate_flash_transaction ::
  "(bytes \<Rightarrow> hash) \<Rightarrow> (bytes \<Rightarrow> bytes \<Rightarrow> bytes \<Rightarrow> bool) \<Rightarrow> 's bank \<Rightarrow> flash_transaction \<Rightarrow> u64 \<Rightarrow> ('s, unit) tx_check" where
  "validate_flash_transaction sha3 vrf b tx daa =
     (if daa > fl_expiry_daa_score tx then sthrow (Message (FlashExpired daa (fl_expiry_daa_score tx)))
      else if fl_fee tx < FLASH_MIN_FEE_KANA then sthrow ZeroFee
      else sbind (read_account b (pubkey_to_p2pkh_spk sha3 (fl_pubkey tx))) (\<lambda>account.
        let fid = flash_id sha3 tx in
        if is_flash_replay fid account then sthrow (Message (FlashReplay fid))
        else if \<not> vrf (fl_pubkey tx) (fl_signature tx) (flash_sighash sha3 tx) then sthrow (Message FlashSignatureFailed)
        else case checked_add64 (fl_amount tx) (fl_fee tx) of
            None \<Rightarrow> sthrow InputAmountOverflow
          | Some total_required \<Rightarrow>
              if acc_balance account < total_required
              then sthrow (SpendTooHigh (fl_amount tx) (acc_balance account))
              else sret ()))"

text \<open>The filter of duplicates, expired and already applied transactions.\<close>

fun filter_eligible ::
  "(bytes \<Rightarrow> hash) \<Rightarrow> 's bank \<Rightarrow> u64 \<Rightarrow> hash list \<Rightarrow> flash_transaction list \<Rightarrow> ('s, flash_transaction list) tx_check" where
  "filter_eligible sha3 b daa seen [] = sret []"
| "filter_eligible sha3 b daa seen (tx # txs) =
     (let fid = flash_id sha3 tx in
      if fid \<in> set seen then filter_eligible sha3 b daa seen txs
      else if daa > fl_expiry_daa_score tx then filter_eligible sha3 b daa (fid # seen) txs
      else sbind (read_account b (pubkey_to_p2pkh_spk sha3 (fl_pubkey tx))) (\<lambda>account.
        if is_flash_replay fid account then filter_eligible sha3 b daa (fid # seen) txs
        else sbind (filter_eligible sha3 b daa (fid # seen) txs) (\<lambda>rest. sret (tx # rest))))"

text \<open>
  \<open>sender_debits\<close>, in the order in which senders first occur.  The hash map of the code has another
  order, which decides only which sender an error names.
\<close>

fun aggregate_debits ::
  "(bytes \<Rightarrow> hash) \<Rightarrow> flash_transaction list \<Rightarrow> (script_public_key \<times> u64) list \<Rightarrow>
     (tx_rule_error, (script_public_key \<times> u64) list) result" where
  "aggregate_debits sha3 [] debits = Inr debits"
| "aggregate_debits sha3 (tx # txs) debits =
     (let spk = pubkey_to_p2pkh_spk sha3 (fl_pubkey tx);
          entry = (case map_of debits spk of None \<Rightarrow> 0 | Some v \<Rightarrow> v)
      in case Option.bind (checked_add64 entry (fl_amount tx)) (\<lambda>v. checked_add64 v (fl_fee tx)) of
           None \<Rightarrow> Inl InputAmountOverflow
         | Some debit \<Rightarrow> aggregate_debits sha3 txs (index_insert spk debit debits))"

fun check_debits :: "'s bank \<Rightarrow> (script_public_key \<times> u64) list \<Rightarrow> ('s, unit) tx_check" where
  "check_debits b [] = sret ()"
| "check_debits b ((spk, total_debit) # debits) =
     sbind (read_account b spk) (\<lambda>account.
       if acc_balance account < total_debit then sthrow (SpendTooHigh total_debit (acc_balance account))
       else check_debits b debits)"

fun validate_each ::
  "(bytes \<Rightarrow> hash) \<Rightarrow> (bytes \<Rightarrow> bytes \<Rightarrow> bytes \<Rightarrow> bool) \<Rightarrow> 's bank \<Rightarrow> u64 \<Rightarrow> flash_transaction list \<Rightarrow> ('s, unit) tx_check" where
  "validate_each sha3 vrf b daa [] = sret ()"
| "validate_each sha3 vrf b daa (tx # txs) =
     sbind (validate_flash_transaction sha3 vrf b tx daa) (\<lambda>_. validate_each sha3 vrf b daa txs)"

definition validate_flash_batch ::
  "(bytes \<Rightarrow> hash) \<Rightarrow> (bytes \<Rightarrow> bytes \<Rightarrow> bytes \<Rightarrow> bool) \<Rightarrow> 's bank \<Rightarrow> flash_transaction list \<Rightarrow> u64 \<Rightarrow>
     ('s, flash_transaction list) tx_check" where
  "validate_flash_batch sha3 vrf b txs daa =
     (if txs = [] then sret []
      else sbind (filter_eligible sha3 b daa [] txs) (\<lambda>eligible.
        if eligible = [] then sret []
        else sbind (slift (aggregate_debits sha3 eligible [])) (\<lambda>debits.
          sbind (check_debits b debits) (\<lambda>_.
          sbind (validate_each sha3 vrf b daa eligible) (\<lambda>_. sret eligible)))))"

section \<open>Application at commit\<close>

fun apply_flash_list :: "(bytes \<Rightarrow> hash) \<Rightarrow> 's bank \<Rightarrow> hash \<Rightarrow> flash_transaction list \<Rightarrow> 's \<Rightarrow> 's option" where
  "apply_flash_list sha3 b bh [] st = Some st"
| "apply_flash_list sha3 b bh (tx # txs) st =
     Option.bind (apply_flash_tx sha3 b tx bh st) (apply_flash_list sha3 b bh txs)"

text \<open>The scripts are computed again after the application, which did not panic.\<close>

definition affected_spks :: "(bytes \<Rightarrow> hash) \<Rightarrow> flash_transaction list \<Rightarrow> script_public_key list" where
  "affected_spks sha3 txs = concat (map (\<lambda>tx. [flash_pubkey_to_spk sha3 (fl_pubkey tx), recipient_of tx]) txs)"

definition flash_apply_hook ::
  "(bytes \<Rightarrow> hash) \<Rightarrow> (bytes \<Rightarrow> bytes \<Rightarrow> bytes \<Rightarrow> bool) \<Rightarrow> 's bank \<Rightarrow> hash \<Rightarrow> u64 \<Rightarrow> transaction list \<Rightarrow> 's \<Rightarrow> 's option" where
  "flash_apply_hook sha3 vrf b bh daa txs st =
     (let flash_txs = List.map_filter from_transaction txs in
      if flash_txs = [] then Some st
      else case validate_flash_batch sha3 vrf b flash_txs daa st of
          (Inl _, st) \<Rightarrow> Some st
        | (Inr valid_txs, st) \<Rightarrow>
            map_option (prune_flashes_for_accounts b (affected_spks sha3 valid_txs) daa)
              (apply_flash_list sha3 b bh valid_txs st))"

definition flash_reorg_hook :: "(bytes \<Rightarrow> hash) \<Rightarrow> 's bank \<Rightarrow> hash \<Rightarrow> transaction list \<Rightarrow> 's \<Rightarrow> 's option" where
  "flash_reorg_hook sha3 b bh txs st =
     (let flash_txs = List.map_filter from_transaction txs in
      if flash_txs = [] then Some st else reorg_flash_block sha3 b bh flash_txs st)"

lemma sender_of_p2pkh: "pubkey_to_p2pkh_spk sha3 pk = flash_pubkey_to_spk sha3 pk"
  by (simp add: pubkey_to_p2pkh_spk_def flash_pubkey_to_spk_def)

end
