(* ===== verification/Coinbase.thy ===== *)
theory Coinbase
  imports Tx_Types Sig_Cache
begin

text \<open>
  Coinbase payloads, block subsidies and the split of rewards (\<open>consensus/src/processes/coinbase.rs\<close>,
  \<open>consensus/core/src/coinbase.rs\<close>), with the forked parameters they depend on
  (\<open>consensus/core/src/config/params.rs\<close>).  The tables of monthly subsidies, which the manager
  keeps and never reads, are left out.
\<close>

section \<open>Forked parameters\<close>

text \<open>\<open>ForkActivation\<close> is a DAA score; the largest score stands for never, zero for always.\<close>

record 'a forked_param =
  fp_pre :: 'a
  fp_post :: 'a
  fp_activation :: u64

definition is_active :: "u64 \<Rightarrow> u64 \<Rightarrow> bool" where
  "is_active activation daa \<longleftrightarrow> daa \<ge> activation"

definition forked_new_const :: "'a \<Rightarrow> 'a forked_param" where
  "forked_new_const v = \<lparr> fp_pre = v, fp_post = v, fp_activation = - 1 \<rparr>"

definition forked_get :: "'a forked_param \<Rightarrow> u64 \<Rightarrow> 'a" where
  "forked_get p daa = (if is_active (fp_activation p) daa then fp_post p else fp_pre p)"

definition forked_before :: "'a forked_param \<Rightarrow> 'a" where
  "forked_before p = (if fp_activation p = 0 then fp_post p else fp_pre p)"

definition forked_after :: "'a forked_param \<Rightarrow> 'a" where
  "forked_after p = (if fp_activation p = - 1 then fp_pre p else fp_post p)"

section \<open>Payloads\<close>

record miner_data =
  md_script_public_key :: script_public_key
  md_extra_data :: bytes

record coinbase_data =
  cb_blue_score :: u64
  cb_subsidy :: u64
  cb_miner_data :: miner_data

record block_reward_data =
  rd_subsidy :: u64
  rd_total_fees :: u64
  rd_script_public_key :: script_public_key

datatype coinbase_error =
    PayloadLenBelowMin nat nat | PayloadLenAboveMax nat nat
  | PayloadScriptPublicKeyLenAboveMax nat u8 | PayloadCantContainScriptPublicKey nat nat

definition LENGTH_OF_BLUE_SCORE :: nat where "LENGTH_OF_BLUE_SCORE = 8"
definition LENGTH_OF_SUBSIDY :: nat where "LENGTH_OF_SUBSIDY = 8"
definition LENGTH_OF_SCRIPT_PUB_KEY_VERSION :: nat where "LENGTH_OF_SCRIPT_PUB_KEY_VERSION = 2"
definition LENGTH_OF_SCRIPT_PUB_KEY_LENGTH :: nat where "LENGTH_OF_SCRIPT_PUB_KEY_LENGTH = 1"

definition MIN_PAYLOAD_LENGTH :: nat where
  "MIN_PAYLOAD_LENGTH = LENGTH_OF_BLUE_SCORE + LENGTH_OF_SUBSIDY + LENGTH_OF_SCRIPT_PUB_KEY_VERSION +
     LENGTH_OF_SCRIPT_PUB_KEY_LENGTH"

lemmas payload_lengths = LENGTH_OF_BLUE_SCORE_def LENGTH_OF_SUBSIDY_def LENGTH_OF_SCRIPT_PUB_KEY_VERSION_def
  LENGTH_OF_SCRIPT_PUB_KEY_LENGTH_def MIN_PAYLOAD_LENGTH_def

record coinbase_manager =
  cm_spk_max_len :: u8
  cm_max_payload_len :: nat
  cm_bps_history :: "u64 forked_param"

text \<open>What follows the two scores; the length fits a byte when the check of the callers passes.\<close>

definition miner_bytes :: "miner_data \<Rightarrow> bytes" where
  "miner_bytes md =
     (let script = spk_script (md_script_public_key md)
      in u16_to_le (spk_version (md_script_public_key md)) @ [word_of_nat (length script)] @ script @ md_extra_data md)"

definition serialize_coinbase_payload :: "coinbase_manager \<Rightarrow> coinbase_data \<Rightarrow> (coinbase_error, bytes) result" where
  "serialize_coinbase_payload cm data =
     (let len = length (spk_script (md_script_public_key (cb_miner_data data)))
      in if len > unat (cm_spk_max_len cm) then Inl (PayloadScriptPublicKeyLenAboveMax len (cm_spk_max_len cm))
         else Inr (u64_to_le (cb_blue_score data) @ u64_to_le (cb_subsidy data) @ miner_bytes (cb_miner_data data)))"

definition modify_coinbase_payload ::
  "coinbase_manager \<Rightarrow> bytes \<Rightarrow> miner_data \<Rightarrow> (coinbase_error, bytes) result" where
  "modify_coinbase_payload cm payload md =
     (let len = length (spk_script (md_script_public_key md))
      in if len > unat (cm_spk_max_len cm) then Inl (PayloadScriptPublicKeyLenAboveMax len (cm_spk_max_len cm))
         else Inr (take (LENGTH_OF_BLUE_SCORE + LENGTH_OF_SUBSIDY) payload @ miner_bytes md))"

text \<open>\<open>split_at\<close> of the parser; the checked minimal length keeps it in range.\<close>

definition parser_take :: "nat \<Rightarrow> bytes \<Rightarrow> bytes \<times> bytes" where
  "parser_take n remaining = (take n remaining, drop n remaining)"

definition deserialize_coinbase_payload :: "coinbase_manager \<Rightarrow> bytes \<Rightarrow> (coinbase_error, coinbase_data) result" where
  "deserialize_coinbase_payload cm payload =
     (if length payload < MIN_PAYLOAD_LENGTH then Inl (PayloadLenBelowMin (length payload) MIN_PAYLOAD_LENGTH)
      else if length payload > cm_max_payload_len cm
      then Inl (PayloadLenAboveMax (length payload) (cm_max_payload_len cm))
      else
        let (blue_score, remaining) = parser_take LENGTH_OF_BLUE_SCORE payload;
            (subsidy, remaining) = parser_take LENGTH_OF_SUBSIDY remaining;
            (version, remaining) = parser_take LENGTH_OF_SCRIPT_PUB_KEY_VERSION remaining;
            (len, remaining) = parser_take LENGTH_OF_SCRIPT_PUB_KEY_LENGTH remaining;
            script_len = hd len
        in if script_len > cm_spk_max_len cm
           then Inl (PayloadScriptPublicKeyLenAboveMax (unat script_len) (cm_spk_max_len cm))
           else if length remaining < unat script_len
           then Inl (PayloadCantContainScriptPublicKey (length payload) (MIN_PAYLOAD_LENGTH + unat script_len))
           else let (script, remaining) = parser_take (unat script_len) remaining
                in Inr \<lparr> cb_blue_score = u64_from_le blue_score, cb_subsidy = u64_from_le subsidy,
                         cb_miner_data = \<lparr> md_script_public_key = \<lparr> spk_version = u16_from_le version, spk_script = script \<rparr>,
                                           md_extra_data = remaining \<rparr> \<rparr>)"

section \<open>Subsidies\<close>

text \<open>\<open>None\<close> is the panic of a division by zero; the multiplication wraps around.\<close>

definition calc_block_subsidy :: "coinbase_manager \<Rightarrow> u64 \<Rightarrow> u64 option" where
  "calc_block_subsidy cm blue_score =
     (let base_reward = 8318123;
          halving_interval = 126230400 * forked_after (cm_bps_history cm)
      in if halving_interval = 0 then None
         else let halvings = blue_score div halving_interval
              in Some (if halvings \<ge> 64 then 0 else drop_bit (unat halvings) base_reward))"

definition MAX_KANA :: u64 where "MAX_KANA = 21000000 * 100000000"

section \<open>The split of rewards\<close>

text \<open>
  Rewards by address, in the order of their first use; the values are the bits of an \<open>i64\<close>.
  \<open>hex_string\<close> is the hexadecimal encoding of \<open>faster_hex\<close>.
\<close>

type_synonym account_rewards = "(bytes \<times> u64) list"

definition SAHYADRI_TREASURY_ADDRESS :: bytes where
  "SAHYADRI_TREASURY_ADDRESS = ascii ''csm1sxh5at56p0c6s9gwtj0mumwcly258gexk5zxp0xvj6''"

definition extract_address :: "(bytes \<Rightarrow> bytes) \<Rightarrow> script_public_key \<Rightarrow> bytes" where
  "extract_address hex_string spk =
     hex_string (u16_to_le (spk_version spk) @ [word_of_nat (length (spk_script spk))] @ spk_script spk)"

definition add_reward :: "bytes \<Rightarrow> u64 \<Rightarrow> account_rewards \<Rightarrow> account_rewards" where
  "add_reward addr amount rewards =
     index_insert addr ((case map_of rewards addr of None \<Rightarrow> 0 | Some v \<Rightarrow> v) + amount) rewards"

definition split_reward :: "bytes \<Rightarrow> u64 \<Rightarrow> u64 \<Rightarrow> account_rewards \<Rightarrow> account_rewards" where
  "split_reward miner_address subsidy fees rewards =
     (let total_reward = subsidy + fees
      in if total_reward > 0
         then let subsidy_dev_fee = subsidy div 20;
                  tx_dev_fee = fees div 10;
                  total_dev_fee = subsidy_dev_fee + tx_dev_fee;
                  miner_reward = total_reward - total_dev_fee
              in add_reward SAHYADRI_TREASURY_ADDRESS total_dev_fee (add_reward miner_address miner_reward rewards)
         else rewards)"

fun blue_rewards ::
  "(bytes \<Rightarrow> bytes) \<Rightarrow> (bytes \<rightharpoonup> block_reward_data) \<Rightarrow> bytes set \<Rightarrow> bytes list \<Rightarrow> account_rewards \<Rightarrow> account_rewards" where
  "blue_rewards hex_string mergeset_rewards non_daa [] rewards = rewards"
| "blue_rewards hex_string mergeset_rewards non_daa (blue # blues) rewards =
     blue_rewards hex_string mergeset_rewards non_daa blues
       (if blue \<in> non_daa then rewards
        else case mergeset_rewards blue of
            None \<Rightarrow> rewards
          | Some d \<Rightarrow> split_reward (extract_address hex_string (rd_script_public_key d)) (rd_subsidy d) (rd_total_fees d) rewards)"

fun red_totals :: "(bytes \<rightharpoonup> block_reward_data) \<Rightarrow> bytes set \<Rightarrow> bytes list \<Rightarrow> u64 \<times> u64 \<Rightarrow> u64 \<times> u64" where
  "red_totals mergeset_rewards non_daa [] totals = totals"
| "red_totals mergeset_rewards non_daa (red # reds) (red_subsidy, red_fees) =
     red_totals mergeset_rewards non_daa reds
       (case mergeset_rewards red of
          None \<Rightarrow> (red_subsidy, red_fees)
        | Some d \<Rightarrow> if red \<in> non_daa then (red_subsidy, red_fees + rd_total_fees d)
                    else (red_subsidy + rd_subsidy d, red_fees + rd_total_fees d))"

definition expected_coinbase_transaction ::
  "(bytes \<Rightarrow> bytes) \<Rightarrow> miner_data \<Rightarrow> bytes list \<Rightarrow> bytes list \<Rightarrow> (bytes \<rightharpoonup> block_reward_data) \<Rightarrow> bytes set \<Rightarrow> account_rewards" where
  "expected_coinbase_transaction hex_string md blues reds mergeset_rewards non_daa =
     (let rewards = blue_rewards hex_string mergeset_rewards non_daa blues [];
          (red_subsidy, red_fees) = red_totals mergeset_rewards non_daa reds (0, 0)
      in split_reward (extract_address hex_string (md_script_public_key md)) red_subsidy red_fees rewards)"

section \<open>Payloads are read back\<close>

text \<open>Data that fits the limits of the manager.\<close>

definition fits :: "coinbase_manager \<Rightarrow> coinbase_data \<Rightarrow> bool" where
  "fits cm data \<longleftrightarrow> length (spk_script (md_script_public_key (cb_miner_data data))) \<le> unat (cm_spk_max_len cm) \<and>
     MIN_PAYLOAD_LENGTH + length (spk_script (md_script_public_key (cb_miner_data data))) +
       length (md_extra_data (cb_miner_data data)) \<le> cm_max_payload_len cm"

lemma payload_of_serialized:
  assumes "fits cm data"
  shows "\<exists>payload. serialize_coinbase_payload cm data = Inr payload \<and> deserialize_coinbase_payload cm payload = Inr data"
proof -
  let ?script = "spk_script (md_script_public_key (cb_miner_data data))"
  have len: "length ?script \<le> unat (cm_spk_max_len cm)" using assms by (simp add: fits_def)
  moreover have "unat (cm_spk_max_len cm) < 256" by (rule unat_byte_lt)
  ultimately have w: "unat (word_of_nat (length ?script) :: u8) = length ?script"
    by (simp add: unat_of_nat del: unat_byte_lt)
  then have "\<not> (word_of_nat (length ?script) > cm_spk_max_len cm)" using len by (simp add: word_less_nat_alt)
  then show ?thesis
    using assms len w
    by (simp add: fits_def serialize_coinbase_payload_def deserialize_coinbase_payload_def miner_bytes_def
        parser_take_def payload_lengths Let_def)
qed

lemma le_from_roundtrip:
  "length bs = 8 \<Longrightarrow> u64_to_le (u64_from_le bs) = bs" "length bs = 2 \<Longrightarrow> u16_to_le (u16_from_le bs) = bs"
  using le_nat_bound [of bs] le_bytes_nat [of bs]
  by (simp_all add: u64_to_le_def u64_from_le_def u16_to_le_def u16_from_le_def unat_of_nat)

lemma serialized_of_payload:
  assumes "deserialize_coinbase_payload cm payload = Inr data"
  shows "fits cm data \<and> serialize_coinbase_payload cm data = Inr payload"
proof -
  let ?n = "unat (payload ! 18)" and ?rest = "drop 19 payload"
  have l: "19 \<le> length payload" "length payload \<le> cm_max_payload_len cm" "\<not> payload ! 18 > cm_spk_max_len cm" "?n \<le> length ?rest"
    and d: "data = \<lparr> cb_blue_score = u64_from_le (take 8 payload), cb_subsidy = u64_from_le (take 8 (drop 8 payload)),
      cb_miner_data = \<lparr> md_script_public_key = \<lparr> spk_version = u16_from_le (take 2 (drop 16 payload)),
        spk_script = take ?n ?rest \<rparr>, md_extra_data = drop ?n ?rest \<rparr> \<rparr>"
    using assms by (auto simp: deserialize_coinbase_payload_def parser_take_def payload_lengths Let_def hd_drop_conv_nth
        split: if_splits)
  have n: "?n \<le> unat (cm_spk_max_len cm)" using l(3) by (simp add: word_less_nat_alt)
  have p: "take 8 (drop 8 payload) @ drop 16 payload = drop 8 payload"
    "take 2 (drop 16 payload) @ drop 18 payload = drop 16 payload" "payload ! 18 # ?rest = drop 18 payload"
    using append_take_drop_id [of 8 "drop 8 payload"] append_take_drop_id [of 2 "drop 16 payload"]
      Cons_nth_drop_Suc [of 18 payload] l(1) by simp_all
  have "payload = take 8 payload @ take 8 (drop 8 payload) @ take 2 (drop 16 payload) @ [payload ! 18] @ ?rest"
    unfolding append_Cons append_Nil p by simp
  then have "payload = u64_to_le (u64_from_le (take 8 payload)) @ u64_to_le (u64_from_le (take 8 (drop 8 payload))) @
      u16_to_le (u16_from_le (take 2 (drop 16 payload))) @ [payload ! 18] @ take ?n ?rest @ drop ?n ?rest"
    using l(1) by (simp add: le_from_roundtrip del: drop_drop)
  moreover have "length (take ?n ?rest) = ?n" using l(4) by simp
  ultimately show ?thesis
    using l n unfolding d
    by (simp add: fits_def serialize_coinbase_payload_def miner_bytes_def payload_lengths Let_def)
qed

section \<open>The supply\<close>

lemma sum_by_halvings:
  fixes f :: "nat \<Rightarrow> nat"
  shows "(\<Sum>i<k * n. f (i div n)) = n * (\<Sum>h<k. f h)"
proof (induction k)
  case (Suc k)
  have "(\<Sum>i<Suc k * n. f (i div n)) = (\<Sum>i<k * n. f (i div n)) + (\<Sum>i=k * n..<k * n + n. f (i div n))"
    by (simp add: add.commute sum.atLeastLessThan_concat lessThan_atLeast0)
  also have "(\<Sum>i=k * n..<k * n + n. f (i div n)) = (\<Sum>i=k * n..<k * n + n. f k)"
  proof (intro sum.cong refl)
    fix i
    assume "i \<in> {k * n..<k * n + n}"
    then have "i div n = k" by (intro div_nat_eqI) (auto simp: mult.commute)
    then show "f (i div n) = f k" by simp
  qed
  finally show ?case using Suc by (simp add: algebra_simps)
qed simp

lemma unat_drop_bit64: "unat (drop_bit h (w :: u64)) = unat w div 2 ^ h"
proof -
  have "unat (drop_bit h w) = drop_bit h (take_bit 64 (unat w))"
    by (simp add: unsigned_drop_bit_eq take_bit_nat_eq_self)
  then show ?thesis by (simp add: drop_bit_eq_div take_bit_nat_eq_self)
qed

lemma subsidy_by_halvings:
  assumes "0 < bps" "bps < 2 ^ 32" "forked_after (cm_bps_history cm) = word_of_nat bps" "i < 2 ^ 64"
  shows "map_option unat (calc_block_subsidy cm (word_of_nat i)) = Some (8318123 div 2 ^ (i div (126230400 * bps)))"
proof -
  let ?I = "126230400 * word_of_nat bps :: u64"
  have b: "unat (word_of_nat bps :: u64) = bps" using assms(2) by (simp add: unat_of_nat)
  have I: "unat ?I = 126230400 * bps" using assms(2) b by (subst unat_mul64) simp_all
  then have "?I \<noteq> 0" using assms(1) by (metis mult_eq_0_iff neq0_conv unat_0 zero_neq_numeral)
  moreover have d: "unat (word_of_nat i div ?I) = i div (126230400 * bps)"
    using assms(4) I by (simp add: unat_div unat_of_nat)
  moreover have "8318123 div 2 ^ h = (0 :: nat)" if "64 \<le> h" for h :: nat
  proof -
    have "(8318123 :: nat) < 2 ^ 64" by simp
    also have "\<dots> \<le> 2 ^ h" using that by (intro power_increasing) simp_all
    finally show ?thesis by simp
  qed
  moreover have "word_of_nat i div ?I \<ge> 64 \<longleftrightarrow> 64 \<le> i div (126230400 * bps)"
    using d by (simp add: word_le_nat_alt)
  moreover have "unat (drop_bit h (8318123 :: u64)) = 8318123 div 2 ^ h" for h
    using unat_drop_bit64 [of h 8318123] by simp
  ultimately show ?thesis
    using assms(3) by (simp add: calc_block_subsidy_def Let_def del: unsigned_drop_bit_eq)
qed

lemma halvings_sum:
  "(\<Sum>h<k. 8318123 div 2 ^ h) \<le> (16636230 :: nat)" "23 \<le> k \<Longrightarrow> (\<Sum>h<k. 8318123 div 2 ^ h) = (16636230 :: nat)"
proof -
  have zero: "8318123 div 2 ^ h = (0 :: nat)" if "23 \<le> h" for h :: nat
  proof -
    have "(8318123 :: nat) < 2 ^ 23" by simp
    also have "\<dots> \<le> 2 ^ h" using that by (intro power_increasing) simp_all
    finally show ?thesis by simp
  qed
  have full: "(\<Sum>h<23. 8318123 div 2 ^ h) = (16636230 :: nat)"
    by (simp add: lessThan_nat_numeral lessThan_Suc)
  show eq: "(\<Sum>h<k. 8318123 div 2 ^ h) = (16636230 :: nat)" if "23 \<le> k"
  proof -
    have "(\<Sum>h<k. 8318123 div 2 ^ h) = (\<Sum>h<23. 8318123 div 2 ^ h :: nat)"
      using that zero by (intro sum.mono_neutral_right) auto
    then show ?thesis using full by simp
  qed
  show "(\<Sum>h<k. 8318123 div 2 ^ h) \<le> (16636230 :: nat)"
  proof -
    have "(\<Sum>h<k. 8318123 div 2 ^ h) \<le> (\<Sum>h<max k 23. 8318123 div 2 ^ h :: nat)"
      by (intro sum_mono2) auto
    then show ?thesis using eq full by (cases "23 \<le> k") (simp_all add: max_def)
  qed
qed

section \<open>Properties\<close>

text \<open>
  Coinbase payloads are read back: data within the limits serialises to a payload that
  deserialises to it, every payload that deserialises is the serialisation of its data, and replacing
  the miner's data in a payload keeps the blue score and the subsidy.
\<close>

theorem coinbase_payload_roundtrip:
  "(fits cm data \<longrightarrow>
      (\<exists>payload. serialize_coinbase_payload cm data = Inr payload \<and> deserialize_coinbase_payload cm payload = Inr data)) \<and>
   (deserialize_coinbase_payload cm bytes = Inr data \<longrightarrow> fits cm data \<and> serialize_coinbase_payload cm data = Inr bytes) \<and>
   (deserialize_coinbase_payload cm bytes = Inr data \<and> fits cm (data\<lparr>cb_miner_data := md\<rparr>) \<longrightarrow>
      (\<exists>payload. modify_coinbase_payload cm bytes md = Inr payload \<and>
        deserialize_coinbase_payload cm payload = Inr (data\<lparr>cb_miner_data := md\<rparr>)))"
proof (intro conjI impI)
  assume d: "deserialize_coinbase_payload cm bytes = Inr data \<and> fits cm (data\<lparr>cb_miner_data := md\<rparr>)"
  then have "serialize_coinbase_payload cm data = Inr bytes" using serialized_of_payload by blast
  then have "take 16 bytes = u64_to_le (cb_blue_score data) @ u64_to_le (cb_subsidy data)"
    by (auto simp: serialize_coinbase_payload_def Let_def split: if_splits)
  then have "modify_coinbase_payload cm bytes md = serialize_coinbase_payload cm (data\<lparr>cb_miner_data := md\<rparr>)"
    by (simp add: modify_coinbase_payload_def serialize_coinbase_payload_def payload_lengths Let_def)
  then show "\<exists>payload. modify_coinbase_payload cm bytes md = Inr payload \<and>
      deserialize_coinbase_payload cm payload = Inr (data\<lparr>cb_miner_data := md\<rparr>)"
    using payload_of_serialized d by simp
qed (use payload_of_serialized serialized_of_payload in blast)+

theorem coinbase_payload_roundtrip_witness:
  "let cm = \<lparr> cm_spk_max_len = 150, cm_max_payload_len = 204, cm_bps_history = forked_new_const 1 \<rparr>;
       md = \<lparr> md_script_public_key = \<lparr> spk_version = 0, spk_script = [1, 2] \<rparr>, md_extra_data = [9] \<rparr>;
       data = \<lparr> cb_blue_score = 7, cb_subsidy = 8318123, cb_miner_data = md \<rparr>
   in fits cm data \<and> (\<exists>payload. serialize_coinbase_payload cm data = Inr payload \<and> deserialize_coinbase_payload cm payload = Inr data)"
proof -
  let ?cm = "\<lparr> cm_spk_max_len = 150, cm_max_payload_len = 204, cm_bps_history = forked_new_const 1 \<rparr> :: coinbase_manager"
  let ?data = "\<lparr> cb_blue_score = 7, cb_subsidy = 8318123, cb_miner_data =
    \<lparr> md_script_public_key = \<lparr> spk_version = 0, spk_script = [1, 2] \<rparr>, md_extra_data = [9] \<rparr> \<rparr>"
  have "fits ?cm ?data" by (simp add: fits_def payload_lengths)
  then show ?thesis using coinbase_payload_roundtrip [of ?cm ?data] by (simp add: Let_def)
qed

text \<open>
  C40: The supply.  The subsidies of all blocks up to any blue score sum up to at most
  2,099,997,967,392,000 kana times the number of blocks per second, and to exactly that from the
  23rd halving on.  This stays below the maximal supply for one block per second only: the reward of
  a block is not divided by the block rate, while the halving interval is multiplied by it.
\<close>

theorem subsidy_supply:
  assumes "0 < bps" "bps < 2 ^ 32" "forked_after (cm_bps_history cm) = word_of_nat bps" "n \<le> 2 ^ 64"
  shows "(\<Sum>i<n. unat (the (calc_block_subsidy cm (word_of_nat i)))) \<le> 2099997967392000 * bps \<and>
    (23 * 126230400 * bps \<le> n \<longrightarrow>
      (\<Sum>i<n. unat (the (calc_block_subsidy cm (word_of_nat i)))) = 2099997967392000 * bps) \<and>
    (2099997967392000 * bps \<le> unat MAX_KANA \<longleftrightarrow> bps = 1)"
proof -
  let ?I = "126230400 * bps" and ?f = "\<lambda>h. 8318123 div 2 ^ h :: nat"
  have f: "unat (the (calc_block_subsidy cm (word_of_nat i))) = ?f (i div ?I)" if "i < n" for i
    using subsidy_by_halvings [OF assms(1-3), of i] that assms(4) by (cases "calc_block_subsidy cm (word_of_nat i)") auto
  have I: "0 < ?I" using assms(1) by simp
  then have "n \<le> n * ?I" by simp
  then have "(\<Sum>i<n. ?f (i div ?I)) \<le> (\<Sum>i<n * ?I. ?f (i div ?I))" by (intro sum_mono2) auto
  then have le: "(\<Sum>i<n. ?f (i div ?I)) \<le> ?I * 16636230"
    using mult_le_mono2 [OF halvings_sum(1) [of n], of ?I] sum_by_halvings [of ?f ?I n] by linarith
  have "(\<Sum>i<n. ?f (i div ?I)) = ?I * 16636230" if "23 * ?I \<le> n"
  proof -
    have "(\<Sum>i<23 * ?I. ?f (i div ?I)) \<le> (\<Sum>i<n. ?f (i div ?I))" using that by (intro sum_mono2) auto
    then show ?thesis using le halvings_sum(2) [of 23] sum_by_halvings [of ?f ?I 23] by simp
  qed
  moreover have "2099997967392000 * bps \<le> 2100000000000000 \<longleftrightarrow> bps = 1" using assms(1) by auto
  ultimately show ?thesis using le f by (simp add: MAX_KANA_def)
qed

theorem subsidy_supply_witness:
  "let cm = \<lparr> cm_spk_max_len = 150, cm_max_payload_len = 204, cm_bps_history = forked_new_const 10 \<rparr>
   in (\<Sum>i<30000000000. unat (the (calc_block_subsidy cm (word_of_nat i)))) = 20999979673920000 \<and>
      20999979673920000 > unat MAX_KANA"
proof -
  let ?cm = "\<lparr> cm_spk_max_len = 150, cm_max_payload_len = 204, cm_bps_history = forked_new_const 10 \<rparr> :: coinbase_manager"
  have "forked_after (cm_bps_history ?cm) = word_of_nat 10" by (simp add: forked_after_def forked_new_const_def)
  from subsidy_supply [OF _ _ this, of 30000000000] show ?thesis
    unfolding Let_def by (simp add: MAX_KANA_def)
qed

end
