(* ===== verification/Tx_Validation.thy ===== *)
theory Tx_Validation
  imports Flash_Validation Tx_Hashing Coinbase Script_Engine
begin

text \<open>
  Validation of transactions on their own, against their header and against the accounts
  (\<open>consensus/src/processes/transaction_validator/\<close>).  \<open>vrf\<close> is the Dilithium verification,
  \<open>sha\<close> SHA-256 and \<open>sha3\<close> SHA3-256.
\<close>

section \<open>Definitions\<close>

definition TX_VERSION :: u16 where "TX_VERSION = 0"
definition LOCK_TIME_THRESHOLD_core :: u64 where "LOCK_TIME_THRESHOLD_core = 500000000000"

record transaction_validator =
  max_tx_inputs :: nat
  max_tx_outputs :: nat
  max_signature_script_len :: nat
  max_script_public_key_len :: nat
  tv_coinbase_payload_script_public_key_max_len :: u8
  tv_coinbase_maturity :: u64
  tv_sahyadri_consensus_k :: u16

type_synonym tx_result = "(tx_rule_error, unit) result"

subsection \<open>In isolation\<close>

definition is_did_payload :: "bytes \<Rightarrow> bool" where
  "is_did_payload payload \<longleftrightarrow> length payload \<ge> 4 \<and> take 4 payload \<in> {ascii ''DCRT'', ascii ''DUPD'', ascii ''DDEC''}"

definition is_flash_payload :: "bytes \<Rightarrow> bool" where
  "is_flash_payload payload \<longleftrightarrow> length payload \<ge> 8 \<and> take 8 payload = ascii ''FLASH_V1''"

text \<open>\<open>find_index\<close> is \<open>Iterator::position\<close>.\<close>

fun find_index :: "('a \<Rightarrow> bool) \<Rightarrow> 'a list \<Rightarrow> nat option" where
  "find_index P [] = None"
| "find_index P (x # xs) = (if P x then Some 0 else map_option Suc (find_index P xs))"

definition check_coinbase_in_isolation :: "transaction_validator \<Rightarrow> transaction \<Rightarrow> tx_result" where
  "check_coinbase_in_isolation tv tx =
     (if \<not> is_coinbase tx then Inr ()
      else if tx_inputs tx \<noteq> [] then Inl (CoinbaseHasInputs (length (tx_inputs tx)))
      else if tx_mass tx > 0 then Inl CoinbaseNonZeroMassCommitment
      else let outputs_limit = 100 in
        if (word_of_nat (length (tx_outputs tx)) :: u64) > outputs_limit
        then Inl (CoinbaseTooManyOutputs (length (tx_outputs tx)) outputs_limit)
        else case find_index (\<lambda>out. length (spk_script (out_script_public_key out)) >
                unat (tv_coinbase_payload_script_public_key_max_len tv)) (tx_outputs tx) of
            Some i \<Rightarrow> Inl (CoinbaseScriptPublicKeyTooLong i)
          | None \<Rightarrow> Inr ())"

text \<open>The error of too many outputs names the limit of the inputs, as the code does.\<close>

definition check_transaction_outputs_count :: "transaction_validator \<Rightarrow> transaction \<Rightarrow> tx_result" where
  "check_transaction_outputs_count tv tx =
     (if is_coinbase tx then Inr ()
      else if length (tx_outputs tx) > max_tx_outputs tv
      then Inl (TooManyOutputs (length (tx_outputs tx)) (max_tx_inputs tv))
      else Inr ())"

definition check_transaction_inputs_count :: "transaction_validator \<Rightarrow> transaction \<Rightarrow> tx_result" where
  "check_transaction_inputs_count tv tx =
     (if \<not> is_coinbase tx \<and> tx_inputs tx = [] \<and> tx_payload tx = [] then Inl NoTxInputs
      else if length (tx_inputs tx) > max_tx_inputs tv
      then Inl (TooManyInputs (length (tx_inputs tx)) (max_tx_inputs tv))
      else Inr ())"

definition check_transaction_signature_scripts :: "transaction_validator \<Rightarrow> transaction \<Rightarrow> tx_result" where
  "check_transaction_signature_scripts tv tx =
     (case find_index (\<lambda>input. length (signature_script input) > max_signature_script_len tv) (tx_inputs tx) of
        Some i \<Rightarrow> Inl (TooBigSignatureScript i (max_signature_script_len tv))
      | None \<Rightarrow> Inr ())"

definition check_transaction_script_public_keys :: "transaction_validator \<Rightarrow> transaction \<Rightarrow> tx_result" where
  "check_transaction_script_public_keys tv tx =
     (case find_index (\<lambda>out. length (spk_script (out_script_public_key out)) > max_script_public_key_len tv) (tx_outputs tx) of
        Some i \<Rightarrow> Inl (TooBigScriptPublicKey i (max_script_public_key_len tv))
      | None \<Rightarrow> Inr ())"

definition check_transaction_inputs_in_isolation :: "transaction_validator \<Rightarrow> transaction \<Rightarrow> tx_result" where
  "check_transaction_inputs_in_isolation tv tx =
     rbind (check_transaction_inputs_count tv tx) (\<lambda>_. check_transaction_signature_scripts tv tx)"

definition check_transaction_outputs_in_isolation :: "transaction_validator \<Rightarrow> transaction \<Rightarrow> tx_result" where
  "check_transaction_outputs_in_isolation tv tx =
     rbind (check_transaction_outputs_count tv tx) (\<lambda>_. check_transaction_script_public_keys tv tx)"

fun check_duplicates :: "registry_ref set \<Rightarrow> transaction_input list \<Rightarrow> tx_result" where
  "check_duplicates existing [] = Inr ()"
| "check_duplicates existing (input # inputs) =
     (if previous_outpoint input \<in> existing then Inl TxDuplicateInputs
      else check_duplicates (insert (previous_outpoint input) existing) inputs)"

definition check_duplicate_transaction_inputs :: "transaction \<Rightarrow> tx_result" where
  "check_duplicate_transaction_inputs tx = check_duplicates {} (tx_inputs tx)"

definition check_gas :: "transaction \<Rightarrow> tx_result" where
  "check_gas tx = (if tx_gas tx > 0 then Inl TxHasGas else Inr ())"

definition check_transaction_version :: "transaction \<Rightarrow> tx_result" where
  "check_transaction_version tx = (if tx_version tx \<noteq> TX_VERSION then Inl (UnknownTxVersion (tx_version tx)) else Inr ())"

fun output_value_ranges :: "nat \<Rightarrow> u64 \<Rightarrow> transaction_output list \<Rightarrow> tx_result" where
  "output_value_ranges i tot [] = Inr ()"
| "output_value_ranges i tot (out # outs) =
     (if out_value out = 0 then Inl (TxOutZero i)
      else if out_value out > MAX_KANA then Inl (TxOutTooHigh i)
      else case checked_add64 tot (out_value out) of
          None \<Rightarrow> Inl OutputsValueOverflow
        | Some new_total \<Rightarrow> if new_total > MAX_KANA then Inl TotalTxOutTooHigh else output_value_ranges (i + 1) new_total outs)"

definition check_transaction_output_value_ranges :: "transaction \<Rightarrow> tx_result" where
  "check_transaction_output_value_ranges tx = output_value_ranges 0 0 (tx_outputs tx)"

definition check_transaction_subnetwork :: "transaction \<Rightarrow> tx_result" where
  "check_transaction_subnetwork tx =
     (if is_coinbase tx \<or> is_native (tx_subnetwork_id tx) then Inr () else Inl (SubnetworksDisabled (tx_subnetwork_id tx)))"

definition ACCOUNT_TX_MIN_PAYLOAD :: nat where "ACCOUNT_TX_MIN_PAYLOAD = PUBKEY_SIZE + 8 + SIG_SIZE"

definition verify_account_tx_signature ::
    "(bytes \<Rightarrow> bytes) \<Rightarrow> (bytes \<Rightarrow> bytes \<Rightarrow> bytes \<Rightarrow> bool) \<Rightarrow> transaction \<Rightarrow> tx_result" where
  "verify_account_tx_signature sha vrf tx =
     (let payload = tx_payload tx in
      if is_flash_payload payload then Inr ()
      else if length payload < ACCOUNT_TX_MIN_PAYLOAD
      then Inl (Message (AccountPayloadTooSmall (length payload) ACCOUNT_TX_MIN_PAYLOAD))
      else let sig_start = length payload - SIG_SIZE;
               nonce_start = sig_start - 8;
               sender_pubkey = take nonce_start payload;
               sig_bytes = drop sig_start payload
           in if length sender_pubkey \<noteq> PUBKEY_SIZE
              then Inl (Message (AccountPubkeyInvalid (length sender_pubkey) PUBKEY_SIZE))
              else let signable_payload = take sig_start payload in
                if \<not> vrf sender_pubkey sig_bytes (compute_account_tx_sighash sha tx signable_payload)
                then Inl (Message AccountSignatureFailed)
                else Inr ())"

text \<open>The thread pool computes the results in the order of the transactions.\<close>

definition verify_account_tx_signatures_batch ::
    "(bytes \<Rightarrow> bytes) \<Rightarrow> (bytes \<Rightarrow> bytes \<Rightarrow> bytes \<Rightarrow> bool) \<Rightarrow> transaction list \<Rightarrow> tx_result list" where
  "verify_account_tx_signatures_batch sha vrf txs = map (verify_account_tx_signature sha vrf) txs"

definition validate_tx_in_isolation ::
    "(bytes \<Rightarrow> bytes) \<Rightarrow> (bytes \<Rightarrow> bytes \<Rightarrow> bytes \<Rightarrow> bool) \<Rightarrow> transaction_validator \<Rightarrow> transaction \<Rightarrow> tx_result" where
  "validate_tx_in_isolation sha vrf tv tx =
     (if is_did_payload (tx_payload tx) then Inr ()
      else if tx_inputs tx = [] \<and> tx_payload tx \<noteq> [] \<and> \<not> is_coinbase tx
      then rbind (check_transaction_output_value_ranges tx) (\<lambda>_. verify_account_tx_signature sha vrf tx)
      else rbind (check_transaction_inputs_in_isolation tv tx) (\<lambda>_.
           rbind (check_transaction_outputs_in_isolation tv tx) (\<lambda>_.
           rbind (check_coinbase_in_isolation tv tx) (\<lambda>_.
           rbind (check_transaction_output_value_ranges tx) (\<lambda>_.
           rbind (check_duplicate_transaction_inputs tx) (\<lambda>_.
           rbind (check_gas tx) (\<lambda>_.
           rbind (check_transaction_subnetwork tx) (\<lambda>_.
           check_transaction_version tx))))))))"

subsection \<open>In the context of the header\<close>

datatype lock_time_type = LTFinalized | LTDaaScore | LTTime

datatype lock_time_arg = ArgFinalized | ArgDaaScore u64 | ArgMedianTime u64

definition get_lock_time_type :: "transaction \<Rightarrow> lock_time_type" where
  "get_lock_time_type tx =
     (if tx_lock_time tx = 0 then LTFinalized
      else if tx_lock_time tx < LOCK_TIME_THRESHOLD_core then LTDaaScore else LTTime)"

definition check_unlocked :: "transaction \<Rightarrow> u64 \<Rightarrow> tx_result" where
  "check_unlocked tx block_time_or_daa_score =
     (if tx_lock_time tx < block_time_or_daa_score then Inr ()
      else case find_index (\<lambda>input. sequence input \<noteq> - 1) (tx_inputs tx) of
          Some i \<Rightarrow> Inl (NotFinalized i)
        | None \<Rightarrow> Inr ())"

definition check_tx_is_finalized :: "transaction \<Rightarrow> lock_time_arg \<Rightarrow> tx_result" where
  "check_tx_is_finalized tx arg =
     (case arg of
        ArgFinalized \<Rightarrow> Inr ()
      | ArgDaaScore ctx_daa_score \<Rightarrow> check_unlocked tx ctx_daa_score
      | ArgMedianTime ctx_block_time \<Rightarrow> check_unlocked tx ctx_block_time)"

definition validate_tx_in_header_context :: "transaction \<Rightarrow> lock_time_arg \<Rightarrow> tx_result" where
  "validate_tx_in_header_context tx arg = check_tx_is_finalized tx arg"

definition validate_tx_in_header_context_with_args :: "transaction \<Rightarrow> u64 \<Rightarrow> u64 \<Rightarrow> tx_result" where
  "validate_tx_in_header_context_with_args tx ctx_daa_score ctx_block_time =
     validate_tx_in_header_context tx
       (case get_lock_time_type tx of
          LTFinalized \<Rightarrow> ArgFinalized
        | LTDaaScore \<Rightarrow> ArgDaaScore ctx_daa_score
        | LTTime \<Rightarrow> ArgMedianTime ctx_block_time)"

subsection \<open>In the context of the accounts\<close>

datatype tx_validation_flags = Full_Checks | SkipScriptChecks | SkipMassCheck

definition extract_sender :: "(bytes \<Rightarrow> bytes) \<Rightarrow> transaction \<Rightarrow> (tx_rule_error, script_public_key) result" where
  "extract_sender sha3 tx =
     (let payload = tx_payload tx in
      if length payload < PUBKEY_SIZE + 8 + SIG_SIZE then Inl InvalidPayload
      else let sig_start = length payload - SIG_SIZE;
               nonce_start = sig_start - 8
           in Inr (pubkey_to_p2pkh_spk sha3 (take nonce_start payload)))"

text \<open>
  The script checks share the memo of partial hashes among the inputs and use the validator's
  cache, which is returned; \<open>None\<close> is a panic.
\<close>

fun check_inputs ::
    "crypto \<Rightarrow> populated_transaction \<Rightarrow> nat \<Rightarrow> (transaction_input \<times> registry_unit) list \<Rightarrow> reused_values \<Rightarrow> sig_cache \<Rightarrow>
     (tx_result \<times> sig_cache) option" where
  "check_inputs cr ptx i [] rv cache = Some (Inr (), cache)"
| "check_inputs cr ptx i ((input, entry) # inputs) rv cache =
     (case from_transaction_input ptx input i entry rv cache of
        None \<Rightarrow> None
      | Some s \<Rightarrow>
          (case execute cr s of
             (Inl e, s') \<Rightarrow> if e = Panicked then None else Some (Inl Unknown_Error, vm_sig_cache s')
           | (Inr _, s') \<Rightarrow> check_inputs cr ptx (i + 1) inputs (vm_reused s') (vm_sig_cache s')))"

definition check_scripts :: "crypto \<Rightarrow> populated_transaction \<Rightarrow> sig_cache \<Rightarrow> (tx_result \<times> sig_cache) option" where
  "check_scripts cr ptx cache = check_inputs cr ptx 0 (populated_inputs ptx) reused_values_new cache"

definition MIN_FEE_KANA :: u64 where "MIN_FEE_KANA = 1000"

definition required_balance :: "transaction \<Rightarrow> account_state \<Rightarrow> (tx_rule_error, u64) result" where
  "required_balance tx account =
     (let total_out = sum_list (map out_value (tx_outputs tx)) in
      if tx_gas tx < MIN_FEE_KANA then Inl ZeroFee
      else case checked_add64 total_out (tx_gas tx) of
          None \<Rightarrow> Inl InputAmountOverflow
        | Some total_required \<Rightarrow>
            if acc_balance account < total_required then Inl (SpendTooHigh total_out (acc_balance account))
            else Inr (tx_gas tx))"

definition validate_populated_transaction_and_get_fee ::
    "crypto \<Rightarrow> 's bank \<Rightarrow> populated_transaction \<Rightarrow> tx_validation_flags \<Rightarrow> 's \<times> sig_cache \<Rightarrow>
     ((tx_rule_error, u64) result \<times> 's \<times> sig_cache) option" where
  "validate_populated_transaction_and_get_fee cr b ptx flags = (\<lambda>(st, cache).
     (let tx = pop_tx ptx in
      if is_coinbase tx then Some (Inr 0, st, cache)
      else if is_flash_payload (tx_payload tx) then Some (Inr 0, st, cache)
      else if is_did_payload (tx_payload tx) then Some (Inr 0, st, cache)
      else case extract_sender (sha3_256 cr) tx of
        Inl e \<Rightarrow> Some (Inl e, st, cache)
      | Inr sender_spk \<Rightarrow>
          (case bank_get b sender_spk st of (account, st') \<Rightarrow>
             (case required_balance tx account of
                Inl e \<Rightarrow> Some (Inl e, st', cache)
              | Inr gas \<Rightarrow>
                  if flags = Full_Checks
                  then map_option (\<lambda>(r, cache'). (rbind r (\<lambda>_. Inr gas), st', cache')) (check_scripts cr ptx cache)
                  else Some (Inr gas, st', cache)))))"

section \<open>What the checks establish\<close>

lemma find_index_None: "find_index P xs = None \<longleftrightarrow> (\<forall>x \<in> set xs. \<not> P x)"
  by (induction xs) auto

lemma find_check:
  "(case find_index P xs of None \<Rightarrow> Inr () | Some i \<Rightarrow> Inl (e i)) = Inr () \<longleftrightarrow> (\<forall>x \<in> set xs. \<not> P x)"
  using find_index_None [of P xs] by (cases "find_index P xs") auto

lemma check_duplicates_ok:
  "check_duplicates existing inputs = Inr () \<longleftrightarrow>
     distinct (map previous_outpoint inputs) \<and> previous_outpoint ` set inputs \<inter> existing = {}"
  by (induction existing inputs rule: check_duplicates.induct) auto

lemma output_value_ranges_ok:
  "unat tot \<le> unat MAX_KANA \<Longrightarrow> output_value_ranges i tot outs = Inr () \<longleftrightarrow>
     (\<forall>out \<in> set outs. out_value out \<noteq> 0) \<and> unat tot + (\<Sum>out\<leftarrow>outs. unat (out_value out)) \<le> unat MAX_KANA"
proof (induction outs arbitrary: i tot)
  case (Cons out outs)
  have max: "unat MAX_KANA + unat MAX_KANA < 2 ^ 64" by (simp add: MAX_KANA_def)
  show ?case
  proof (cases "out_value out = 0 \<or> out_value out > MAX_KANA")
    case True
    then show ?thesis by (auto simp: word_less_nat_alt)
  next
    case False
    then have le: "unat (out_value out) \<le> unat MAX_KANA" by (simp add: word_less_nat_alt)
    then have fit: "unat tot + unat (out_value out) < 2 ^ 64" using Cons.prems max by linarith
    then have add: "checked_add64 tot (out_value out) = Some (tot + out_value out)"
      and sum: "unat (tot + out_value out) = unat tot + unat (out_value out)"
      by (simp_all add: checked_add64_def unat_add64)
    show ?thesis
    proof (cases "unat (tot + out_value out) \<le> unat MAX_KANA")
      case True
      then show ?thesis using False Cons.IH [OF True, of "i + 1"] by (simp add: add sum word_less_nat_alt not_less add.assoc)
    next
      case big: False
      then show ?thesis using False by (simp add: add sum word_less_nat_alt not_less)
    qed
  qed
qed simp


lemma check_transaction_output_value_ranges_ok:
  "check_transaction_output_value_ranges tx = Inr () \<longleftrightarrow>
     (\<forall>out \<in> set (tx_outputs tx). out_value out \<noteq> 0) \<and> (\<Sum>out\<leftarrow>tx_outputs tx. unat (out_value out)) \<le> unat MAX_KANA"
  by (simp add: check_transaction_output_value_ranges_def output_value_ranges_ok)

definition signed_by_payload ::
    "(bytes \<Rightarrow> bytes) \<Rightarrow> (bytes \<Rightarrow> bytes \<Rightarrow> bytes \<Rightarrow> bool) \<Rightarrow> transaction \<Rightarrow> bool" where
  "signed_by_payload sha vrf tx \<longleftrightarrow> (\<exists>pk nonce sig. tx_payload tx = pk @ nonce @ sig \<and>
     length pk = PUBKEY_SIZE \<and> length nonce = 8 \<and> length sig = SIG_SIZE \<and>
     vrf pk sig (compute_account_tx_sighash sha tx (pk @ nonce)))"

lemma verify_account_tx_signature_ok:
  "verify_account_tx_signature sha vrf tx = Inr () \<longleftrightarrow> is_flash_payload (tx_payload tx) \<or> signed_by_payload sha vrf tx"
proof -
  let ?p = "tx_payload tx" and ?s = "length (tx_payload tx) - SIG_SIZE"
  have "signed_by_payload sha vrf tx \<longleftrightarrow> ACCOUNT_TX_MIN_PAYLOAD \<le> length ?p \<and> ?s - 8 = PUBKEY_SIZE \<and>
      vrf (take (?s - 8) ?p) (drop ?s ?p) (compute_account_tx_sighash sha tx (take ?s ?p))" (is "_ \<longleftrightarrow> ?R")
  proof
    assume "signed_by_payload sha vrf tx"
    then obtain pk nonce sig where p: "?p = pk @ nonce @ sig" "length pk = PUBKEY_SIZE" "length nonce = 8"
        "length sig = SIG_SIZE" "vrf pk sig (compute_account_tx_sighash sha tx (pk @ nonce))"
      by (auto simp: signed_by_payload_def)
    then have s: "?s = length pk + length nonce" by simp
    have "take (?s - 8) ?p = pk" "drop ?s ?p = sig" "take ?s ?p = pk @ nonce"
      unfolding s using p(1,3) by simp_all
    then show ?R using p by (simp add: ACCOUNT_TX_MIN_PAYLOAD_def)
  next
    assume R: ?R
    then have "PUBKEY_SIZE + 8 + SIG_SIZE \<le> length ?p" "?s = PUBKEY_SIZE + 8" by (auto simp: ACCOUNT_TX_MIN_PAYLOAD_def)
    then show "signed_by_payload sha vrf tx"
      unfolding signed_by_payload_def using R
      by (intro exI [of _ "take PUBKEY_SIZE ?p"] exI [of _ "take 8 (drop PUBKEY_SIZE ?p)"] exI [of _ "drop ?s ?p"])
        (auto simp: take_add [symmetric] simp flip: append_assoc)
  qed
  moreover have "length (take (?s - 8) ?p) = ?s - 8" by simp
  ultimately show ?thesis
    by (auto simp: verify_account_tx_signature_def Let_def)
qed

lemma rbind_unit: "rbind (r :: tx_result) (\<lambda>_. k) = Inr () \<longleftrightarrow> r = Inr () \<and> k = Inr ()"
  by (cases r) auto

lemma classical_checks_ok:
  "check_transaction_inputs_in_isolation tv tx = Inr () \<longleftrightarrow>
     (is_coinbase tx \<or> tx_inputs tx \<noteq> [] \<or> tx_payload tx \<noteq> []) \<and> length (tx_inputs tx) \<le> max_tx_inputs tv \<and>
     (\<forall>input \<in> set (tx_inputs tx). length (signature_script input) \<le> max_signature_script_len tv)"
  "check_transaction_outputs_in_isolation tv tx = Inr () \<longleftrightarrow>
     (is_coinbase tx \<or> length (tx_outputs tx) \<le> max_tx_outputs tv) \<and>
     (\<forall>out \<in> set (tx_outputs tx). length (spk_script (out_script_public_key out)) \<le> max_script_public_key_len tv)"
  by (auto simp: check_transaction_inputs_in_isolation_def check_transaction_inputs_count_def
      check_transaction_signature_scripts_def check_transaction_outputs_in_isolation_def
      check_transaction_outputs_count_def check_transaction_script_public_keys_def rbind_unit find_check not_less)

lemma check_gas_ok: "check_gas tx = Inr () \<longleftrightarrow> tx_gas tx = 0"
  by (auto simp: check_gas_def word_gt_0)

lemma check_unlocked_ok:
  "check_unlocked tx c = Inr () \<longleftrightarrow> tx_lock_time tx < c \<or> (\<forall>input \<in> set (tx_inputs tx). sequence input = - 1)"
  by (auto simp: check_unlocked_def find_check)

lemma header_context_ok:
  "validate_tx_in_header_context_with_args tx daa_score time = Inr () \<longleftrightarrow>
     tx_lock_time tx = 0 \<or> tx_lock_time tx < (if tx_lock_time tx < LOCK_TIME_THRESHOLD_core then daa_score else time) \<or>
     (\<forall>input \<in> set (tx_inputs tx). sequence input = - 1)"
  by (simp add: validate_tx_in_header_context_with_args_def validate_tx_in_header_context_def check_tx_is_finalized_def
      get_lock_time_type_def check_unlocked_ok)

text \<open>A wrapped sum is the sum when that is at most the maximal supply.\<close>

lemma unat_total_out:
  "(\<Sum>out\<leftarrow>outs. unat (out_value out)) < 2 ^ 64 \<Longrightarrow>
     unat (sum_list (map out_value outs)) = (\<Sum>out\<leftarrow>outs. unat (out_value out))"
  by (induction outs) (auto simp: unat_add64)

lemma required_balance_ok:
  assumes "(\<Sum>out\<leftarrow>tx_outputs tx. unat (out_value out)) < 2 ^ 64" "required_balance tx account = Inr fee"
  shows "fee = tx_gas tx \<and> 1000 \<le> unat fee \<and>
    (\<Sum>out\<leftarrow>tx_outputs tx. unat (out_value out)) + unat fee \<le> unat (acc_balance account)"
proof -
  obtain req where req: "checked_add64 (sum_list (map out_value (tx_outputs tx))) (tx_gas tx) = Some req"
      "\<not> tx_gas tx < MIN_FEE_KANA" "\<not> acc_balance account < req" "fee = tx_gas tx"
    using assms(2) by (auto simp: required_balance_def Let_def split: if_splits option.splits)
  then show ?thesis
    using checked_add64_unat [OF req(1)] unat_total_out [OF assms(1)]
    by (simp add: word_less_nat_alt MIN_FEE_KANA_def)
qed

lemma extract_sender_signed:
  assumes "tx_payload tx = pk @ nonce @ sig" "length pk = PUBKEY_SIZE" "length nonce = 8" "length sig = SIG_SIZE"
  shows "extract_sender sha3 tx = Inr (pubkey_to_p2pkh_spk sha3 pk)"
  using assms by (simp add: extract_sender_def Let_def)

section \<open>Properties\<close>




text \<open>
  C19: An account transaction that passes the checks on its own and those against the accounts is
  signed by the key whose account it spends from, pays a fee of at least the minimum, and the
  account holds the outputs and the fee, computed without wrapping around.
\<close>

theorem account_tx_covered:
  assumes "validate_tx_in_isolation sha (dilithium_verify cr) tv tx = Inr ()"
    and "tx_inputs tx = []" "\<not> is_coinbase tx" "\<not> is_did_payload (tx_payload tx)" "\<not> is_flash_payload (tx_payload tx)"
    and "tx_payload tx \<noteq> []" "pop_tx ptx = tx"
    and "validate_populated_transaction_and_get_fee cr b ptx flags (st, cache) = Some (Inr fee, st', cache')"
  shows "\<exists>pk nonce sig. tx_payload tx = pk @ nonce @ sig \<and>
    dilithium_verify cr pk sig (compute_account_tx_sighash sha tx (pk @ nonce)) \<and>
    1000 \<le> unat fee \<and> (\<Sum>out\<leftarrow>tx_outputs tx. unat (out_value out)) + unat fee \<le>
      unat (acc_balance (fst (bank_get b (pubkey_to_p2pkh_spk (sha3_256 cr) pk) st)))"
proof -
  have signed: "signed_by_payload sha (dilithium_verify cr) tx"
    using assms(1-6) by (auto simp: validate_tx_in_isolation_def rbind_unit verify_account_tx_signature_ok)
  have "(\<Sum>out\<leftarrow>tx_outputs tx. unat (out_value out)) \<le> unat MAX_KANA"
    using assms(1-6) by (auto simp: validate_tx_in_isolation_def rbind_unit check_transaction_output_value_ranges_ok)
  then have small: "(\<Sum>out\<leftarrow>tx_outputs tx. unat (out_value out)) < 2 ^ 64" by (simp add: MAX_KANA_def)
  obtain pk nonce sig where p: "tx_payload tx = pk @ nonce @ sig" "length pk = PUBKEY_SIZE" "length nonce = 8"
      "length sig = SIG_SIZE" "dilithium_verify cr pk sig (compute_account_tx_sighash sha tx (pk @ nonce))"
    using signed by (auto simp: signed_by_payload_def)
  let ?spk = "pubkey_to_p2pkh_spk (sha3_256 cr) pk"
  have "required_balance tx (fst (bank_get b ?spk st)) = Inr fee"
    using assms(3-5,7,8) extract_sender_signed [OF p(1-4), of "sha3_256 cr"]
    by (auto simp: validate_populated_transaction_and_get_fee_def Let_def rbind_Inr_iff
        split: prod.splits sum.splits if_splits)
  then show ?thesis using required_balance_ok [OF small] p(1,5) by blast
qed


text \<open>A validator, an account transaction and a bank that is a table of accounts.\<close>

definition demo_validator :: transaction_validator where
  "demo_validator = \<lparr>max_tx_inputs = 10, max_tx_outputs = 10, max_signature_script_len = 100, max_script_public_key_len = 100,
     tv_coinbase_payload_script_public_key_max_len = 150, tv_coinbase_maturity = 100, tv_sahyadri_consensus_k = 18\<rparr>"

definition demo_account_tx :: transaction where
  "demo_account_tx = transaction_new 0 [] [\<lparr>out_value = 7, out_script_public_key = \<lparr>spk_version = 0, spk_script = [0x51]\<rparr>\<rparr>]
     0 SUBNETWORK_ID_NATIVE 1000 (replicate 5269 1)"

definition table_bank :: "(script_public_key \<Rightarrow> account_state) bank" where
  "table_bank = \<lparr>bank_get = (\<lambda>spk m. (m spk, m)), bank_set = (\<lambda>spk a m. m(spk := a))\<rparr>"

lemma demo_account_payload:
  "tx_inputs demo_account_tx = []" "tx_payload demo_account_tx = replicate 5269 1" "tx_gas demo_account_tx = 1000"
  "map out_value (tx_outputs demo_account_tx) = [7]" "\<not> is_coinbase demo_account_tx"
  by (simp_all add: demo_account_tx_def transaction_new_def is_coinbase_def SUBNETWORK_ID_NATIVE_def
      SUBNETWORK_ID_COINBASE_def subnetwork_from_byte_def)

lemma demo_payload_kind: "\<not> is_did_payload (replicate 5269 1)" "\<not> is_flash_payload (replicate 5269 1)"
proof -
  have ne: "take n (replicate 5269 (1 :: u8)) \<noteq> x" if "0 < n" "hd x \<noteq> 1" for n x
  proof -
    have "hd (take n (replicate 5269 (1 :: u8))) = 1" using that(1) by (cases n) simp_all
    then show ?thesis using that(2) by metis
  qed
  have "hd (ascii ''DCRT'') = 68" "hd (ascii ''DUPD'') = 68" "hd (ascii ''DDEC'') = 68" "hd (ascii ''FLASH_V1'') = 70"
    by (simp_all add: ascii_def)
  then have "take 4 (replicate 5269 1) \<notin> {ascii ''DCRT'', ascii ''DUPD'', ascii ''DDEC''}"
      "take 8 (replicate 5269 1) \<noteq> ascii ''FLASH_V1''"
    using ne [of 4] ne [of 8] by (auto simp del: take_replicate)
  then show "\<not> is_did_payload (replicate 5269 1)" "\<not> is_flash_payload (replicate 5269 1)"
    unfolding is_did_payload_def is_flash_payload_def by blast+
qed



theorem account_tx_covered_witness:
  "\<exists>pk nonce sig. tx_payload demo_account_tx = pk @ nonce @ sig \<and> 7 + 1000 \<le> unat (acc_balance (account_state_new 5000))"
proof -
  let ?m = "\<lambda>_ :: script_public_key. account_state_new 5000" and ?ptx = "\<lparr>pop_tx = demo_account_tx, pop_entries = []\<rparr>"
  note d = demo_account_payload demo_payload_kind
  have out: "(\<Sum>out\<leftarrow>tx_outputs demo_account_tx. unat (out_value out)) = 7" "sum_list (map out_value (tx_outputs demo_account_tx)) = 7"
    by (simp_all add: demo_account_tx_def transaction_new_def)
  have ranges: "check_transaction_output_value_ranges demo_account_tx = Inr ()"
    unfolding check_transaction_output_value_ranges_ok by (simp add: demo_account_tx_def transaction_new_def MAX_KANA_def)
  have "verify_account_tx_signature (\<lambda>b. b) (dilithium_verify demo_crypto) demo_account_tx = Inr ()"
    by (simp add: verify_account_tx_signature_def d Let_def ACCOUNT_TX_MIN_PAYLOAD_def PUBKEY_SIZE_def SIG_SIZE_def demo_crypto_def
        del: take_replicate drop_replicate)
  then have iso: "validate_tx_in_isolation (\<lambda>b. b) (dilithium_verify demo_crypto) demo_validator demo_account_tx = Inr ()"
    using ranges by (simp add: validate_tx_in_isolation_def d)
  have "validate_populated_transaction_and_get_fee demo_crypto table_bank ?ptx SkipScriptChecks (?m, cache_new 0) = Some (Inr 1000, ?m, cache_new 0)"
    by (simp add: validate_populated_transaction_and_get_fee_def d Let_def extract_sender_def PUBKEY_SIZE_def SIG_SIZE_def
        table_bank_def required_balance_def out(2) MIN_FEE_KANA_def checked_add64_def account_state_new_def)
  then show ?thesis
    using account_tx_covered [OF iso d(1,5) _ _ _ _, of ?ptx table_bank SkipScriptChecks ?m "cache_new 0" 1000 ?m "cache_new 0"]
    by (simp add: d table_bank_def out(1)) (metis)
qed

end
