(* ===== verification/Block_Body.thy ===== *)
theory Block_Body
  imports Merkle Mass Tx_Validation
begin

text \<open>
  Validation of block bodies (\<open>consensus/src/pipeline/body_processor/\<close>) and the checks of
  \<open>virtual_processor/block_validation.rs\<close> on the transactions of a block.  Headers keep the fields
  that are read here.  The status store and the median time of the past are parameters.
\<close>

section \<open>Definitions\<close>

record header =
  hdr_hash :: bytes
  hdr_direct_parents :: "bytes list"
  hdr_hash_merkle_root :: bytes
  hdr_account_commitment :: bytes
  hdr_daa_score :: u64
  hdr_blue_score :: u64
  hdr_pruning_point :: bytes

record block =
  block_header :: header
  block_transactions :: "transaction list"

datatype rule_error =
    WrongBlockVersion u16 | TimeTooFarIntoTheFuture u64 u64 | NoParents | TooManyParents nat nat | OriginParent
  | InvalidParentsRelation bytes bytes | InvalidParent bytes | MissingParents "bytes list" | PruningViolation bytes
  | UnexpectedHeaderDaaScore u64 u64 | UnexpectedHeaderBlueScore u64 u64 | UnexpectedHeaderBlueWork nat nat
  | UnexpectedDifficulty bytes u32 u32 | TimeTooOld u64 u64 | KnownInvalid | MergeSetTooBig u64 u64
  | ViolatingBoundedMergeDepth | BadMerkleRoot bytes bytes | NoTransactions | FirstTxNotCoinbase | MultipleCoinbases nat
  | BadCoinbasePayload coinbase_error | BadCoinbasePayloadBlueScore u64 u64
  | TxInIsolationValidationFailed bytes tx_rule_error | ExceedsComputeMassLimit u64 u64
  | ExceedsTransientMassLimit u64 u64 | ExceedsStorageMassLimit u64 u64 | DoubleSpendInSameBlock registry_ref
  | ChainedTransaction registry_ref | TxInContextFailed bytes tx_rule_error | WrongSubsidy u64 u64
  | DuplicateTransactions bytes | InvalidPoW | WrongHeaderPruningPoint bytes bytes
  | BadAccountCommitment bytes bytes bytes | AccountCommitmentComputeFailed
  | UnexpectedIndirectParents "bytes list list" "bytes list list" | BadAcceptedIDMerkleRoot bytes bytes bytes
  | BadCoinbaseTransaction | InvalidTransactionsInBlockContext nat nat
  | InvalidTransactionsInNewBlock "(bytes \<times> tx_rule_error) list" | InsufficientDaaWindowSize nat | PrunedBlock

type_synonym 'a block_result = "(rule_error, 'a) result"

subsection \<open>In isolation\<close>

definition check_has_transactions :: "block \<Rightarrow> unit block_result" where
  "check_has_transactions blk = (if block_transactions blk = [] then Inl NoTransactions else Inr ())"

definition check_hash_merkle_root :: "(bytes \<Rightarrow> bytes) \<Rightarrow> block \<Rightarrow> unit block_result option" where
  "check_hash_merkle_root sha3 blk =
     map_option (\<lambda>calculated.
       if calculated \<noteq> hdr_hash_merkle_root (block_header blk)
       then Inl (BadMerkleRoot (hdr_hash_merkle_root (block_header blk)) calculated) else Inr ())
     (calc_hash_merkle_root sha3 (block_transactions blk))"

definition check_only_one_coinbase :: "block \<Rightarrow> unit block_result option" where
  "check_only_one_coinbase blk =
     (case block_transactions blk of
        [] \<Rightarrow> None
      | tx # txs \<Rightarrow> Some
          (if \<not> is_coinbase tx then Inl FirstTxNotCoinbase
           else case find_index is_coinbase txs of Some i \<Rightarrow> Inl (MultipleCoinbases i) | None \<Rightarrow> Inr ()))"

fun check_transactions_in_isolation ::
    "(bytes \<Rightarrow> bytes) \<Rightarrow> (bytes \<Rightarrow> bytes) \<Rightarrow> (bytes \<Rightarrow> bytes \<Rightarrow> bytes \<Rightarrow> bool) \<Rightarrow> transaction_validator \<Rightarrow>
     transaction list \<Rightarrow> unit block_result" where
  "check_transactions_in_isolation sha sha3 vrf tv [] = Inr ()"
| "check_transactions_in_isolation sha sha3 vrf tv (tx # txs) =
     (case validate_tx_in_isolation sha vrf tv tx of
        Inl e \<Rightarrow> Inl (TxInIsolationValidationFailed (tx_id sha3 tx) e)
      | Inr _ \<Rightarrow> check_transactions_in_isolation sha sha3 vrf tv txs)"

type_synonym masses = "u64 \<times> u64 \<times> u64"

fun check_masses :: "mass_calculator \<Rightarrow> u64 \<Rightarrow> transaction list \<Rightarrow> masses \<Rightarrow> masses block_result" where
  "check_masses mc max_block_mass [] totals = Inr totals"
| "check_masses mc max_block_mass (tx # txs) (compute, transient, storage) =
     (let m = calc_non_contextual_masses mc tx;
          total_compute = sat_add64 compute (compute_mass m);
          total_transient = sat_add64 transient (transient_mass m);
          total_storage = sat_add64 storage (tx_mass tx)
      in if total_compute > max_block_mass then Inl (ExceedsComputeMassLimit total_compute max_block_mass)
         else if total_transient > max_block_mass then Inl (ExceedsTransientMassLimit total_transient max_block_mass)
         else if total_storage > max_block_mass then Inl (ExceedsStorageMassLimit total_storage max_block_mass)
         else check_masses mc max_block_mass txs (total_compute, total_transient, total_storage))"

definition check_block_mass :: "mass_calculator \<Rightarrow> u64 \<Rightarrow> block \<Rightarrow> masses block_result" where
  "check_block_mass mc max_block_mass blk = check_masses mc max_block_mass (block_transactions blk) (0, 0, 0)"

fun check_double_spends :: "registry_ref set \<Rightarrow> registry_ref list \<Rightarrow> unit block_result" where
  "check_double_spends existing [] = Inr ()"
| "check_double_spends existing (op # ops) =
     (if op \<in> existing then Inl (DoubleSpendInSameBlock op) else check_double_spends (insert op existing) ops)"

definition block_outpoints :: "block \<Rightarrow> registry_ref list" where
  "block_outpoints blk = concat (map (\<lambda>tx. map previous_outpoint (tx_inputs tx)) (block_transactions blk))"

definition check_block_double_spends :: "block \<Rightarrow> unit block_result" where
  "check_block_double_spends blk = check_double_spends {} (block_outpoints blk)"

definition block_created_outpoints :: "(bytes \<Rightarrow> bytes) \<Rightarrow> block \<Rightarrow> registry_ref set" where
  "block_created_outpoints sha3 blk =
     set (concat (map (\<lambda>tx. map (\<lambda>index. \<lparr>ref_transaction_id = tx_id sha3 tx, ref_index = word_of_nat index\<rparr>)
       [0..<length (tx_outputs tx)]) (block_transactions blk)))"

definition check_no_chained_transactions :: "(bytes \<Rightarrow> bytes) \<Rightarrow> block \<Rightarrow> unit block_result" where
  "check_no_chained_transactions sha3 blk =
     (case List.find (\<lambda>op. op \<in> block_created_outpoints sha3 blk) (block_outpoints blk) of
        Some op \<Rightarrow> Inl (ChainedTransaction op) | None \<Rightarrow> Inr ())"

fun check_ids :: "bytes set \<Rightarrow> bytes list \<Rightarrow> unit block_result" where
  "check_ids ids [] = Inr ()"
| "check_ids ids (txid # rest) =
     (if txid \<in> ids then Inl (DuplicateTransactions txid) else check_ids (insert txid ids) rest)"

definition check_duplicate_transactions :: "(bytes \<Rightarrow> bytes) \<Rightarrow> block \<Rightarrow> unit block_result" where
  "check_duplicate_transactions sha3 blk = check_ids {} (map (tx_id sha3) (block_transactions blk))"

text \<open>The outer \<open>None\<close> is a panic.\<close>

definition and_then :: "('e, 'a) result option \<Rightarrow> ('a \<Rightarrow> ('e, 'b) result option) \<Rightarrow> ('e, 'b) result option" where
  "and_then m f = Option.bind m (\<lambda>r. case r of Inl e \<Rightarrow> Some (Inl e) | Inr a \<Rightarrow> f a)"

definition validate_body_in_isolation ::
    "(bytes \<Rightarrow> bytes) \<Rightarrow> (bytes \<Rightarrow> bytes) \<Rightarrow> (bytes \<Rightarrow> bytes \<Rightarrow> bytes \<Rightarrow> bool) \<Rightarrow> transaction_validator \<Rightarrow> mass_calculator \<Rightarrow>
     u64 \<Rightarrow> block \<Rightarrow> masses block_result option" where
  "validate_body_in_isolation sha sha3 vrf tv mc max_block_mass blk =
     and_then (Some (check_has_transactions blk)) (\<lambda>_.
     and_then (check_hash_merkle_root sha3 blk) (\<lambda>_.
     and_then (check_only_one_coinbase blk) (\<lambda>_.
     Some (rbind (check_transactions_in_isolation sha sha3 vrf tv (block_transactions blk)) (\<lambda>_.
           rbind (check_block_mass mc max_block_mass blk) (\<lambda>mass.
           rbind (check_duplicate_transactions sha3 blk) (\<lambda>_.
           rbind (check_block_double_spends blk) (\<lambda>_.
           rbind (check_no_chained_transactions sha3 blk) (\<lambda>_. Inr mass)))))))))"

subsection \<open>In context\<close>

fun check_block_transactions_in_context ::
    "(bytes \<Rightarrow> bytes) \<Rightarrow> u64 block_result \<Rightarrow> u64 \<Rightarrow> transaction list \<Rightarrow> unit block_result" where
  "check_block_transactions_in_context sha3 pmt daa_score [] = Inr ()"
| "check_block_transactions_in_context sha3 pmt daa_score (tx # txs) =
     rbind (case get_lock_time_type tx of
              LTFinalized \<Rightarrow> Inr ArgFinalized
            | LTDaaScore \<Rightarrow> Inr (ArgDaaScore daa_score)
            | LTTime \<Rightarrow> rbind pmt (\<lambda>t. Inr (ArgMedianTime t))) (\<lambda>arg.
     case validate_tx_in_header_context tx arg of
       Inl e \<Rightarrow> Inl (TxInContextFailed (tx_id sha3 tx) e)
     | Inr _ \<Rightarrow> check_block_transactions_in_context sha3 pmt daa_score txs)"

definition check_parent_bodies_exist :: "(bytes \<Rightarrow> bool) \<Rightarrow> block \<Rightarrow> unit block_result" where
  "check_parent_bodies_exist has_body blk =
     (let missing = filter (\<lambda>parent. \<not> has_body parent) (hdr_direct_parents (block_header blk))
      in if missing \<noteq> [] then Inl (MissingParents missing) else Inr ())"

text \<open>The subsidy is computed, which may divide by zero, and not compared.\<close>

definition check_coinbase_blue_score_and_subsidy :: "coinbase_manager \<Rightarrow> block \<Rightarrow> unit block_result option" where
  "check_coinbase_blue_score_and_subsidy cm blk =
     (case block_transactions blk of
        [] \<Rightarrow> None
      | tx # _ \<Rightarrow>
          (case deserialize_coinbase_payload cm (tx_payload tx) of
             Inl e \<Rightarrow> Some (Inl (BadCoinbasePayload e))
           | Inr data \<Rightarrow>
               if cb_blue_score data \<noteq> hdr_blue_score (block_header blk)
               then Some (Inl (BadCoinbasePayloadBlueScore (cb_blue_score data) (hdr_blue_score (block_header blk))))
               else map_option (\<lambda>_. Inr ()) (calc_block_subsidy cm (hdr_daa_score (block_header blk)))))"

definition validate_body_in_context ::
    "(bytes \<Rightarrow> bytes) \<Rightarrow> coinbase_manager \<Rightarrow> (bytes \<Rightarrow> bool) \<Rightarrow> u64 block_result \<Rightarrow> block \<Rightarrow> unit block_result option" where
  "validate_body_in_context sha3 cm has_body pmt blk =
     and_then (Some (check_parent_bodies_exist has_body blk)) (\<lambda>_.
     and_then (check_coinbase_blue_score_and_subsidy cm blk) (\<lambda>_.
     Some (check_block_transactions_in_context sha3 pmt (hdr_daa_score (block_header blk)) (block_transactions blk))))"

subsection \<open>Transactions in the state of a block\<close>

definition validate_coinbase_transaction :: "u64 \<Rightarrow> transaction \<Rightarrow> unit block_result" where
  "validate_coinbase_transaction daa_score coinbase = Inr ()"

definition validate_transactions_in_parallel ::
    "(bytes \<Rightarrow> bytes) \<Rightarrow> (bytes \<Rightarrow> bytes \<Rightarrow> bytes \<Rightarrow> bool) \<Rightarrow> transaction list \<Rightarrow> (transaction \<times> nat) list" where
  "validate_transactions_in_parallel sha vrf txs =
     (let candidates = drop 1 (zip [0..<length txs] txs);
          results = verify_account_tx_signatures_batch sha vrf (map snd candidates)
      in List.map_filter (\<lambda>((i, tx), res). if res = Inr () then Some (tx, i) else None) (zip candidates results))"

definition account_model_count :: "transaction list \<Rightarrow> nat" where
  "account_model_count txs =
     length (filter (\<lambda>tx. is_flash_payload (tx_payload tx) \<or> is_did_payload (tx_payload tx)) (drop 1 txs))"

definition check_validated_count ::
    "(bytes \<Rightarrow> bytes) \<Rightarrow> (bytes \<Rightarrow> bytes \<Rightarrow> bytes \<Rightarrow> bool) \<Rightarrow> transaction list \<Rightarrow> unit block_result" where
  "check_validated_count sha vrf txs =
     (let validated_transactions = validate_transactions_in_parallel sha vrf txs;
          account_expected = length txs - 1 - account_model_count txs
      in if length validated_transactions < account_expected
         then Inl (InvalidTransactionsInBlockContext (account_expected - length validated_transactions) (length txs - 1))
         else Inr ())"

section \<open>What the checks establish\<close>

lemma check_transactions_ok:
  "check_transactions_in_isolation sha sha3 vrf tv txs = Inr () \<longleftrightarrow>
     (\<forall>tx \<in> set txs. validate_tx_in_isolation sha vrf tv tx = Inr ())"
  by (induction txs) (auto split: sum.splits)

lemma check_double_spends_ok: "check_double_spends existing ops = Inr () \<longleftrightarrow> distinct ops \<and> set ops \<inter> existing = {}"
  by (induction existing ops rule: check_double_spends.induct) auto

lemma check_ids_ok: "check_ids ids xs = Inr () \<longleftrightarrow> distinct xs \<and> set xs \<inter> ids = {}"
  by (induction ids xs rule: check_ids.induct) auto

lemma check_no_chained_ok:
  "check_no_chained_transactions sha3 blk = Inr () \<longleftrightarrow> set (block_outpoints blk) \<inter> block_created_outpoints sha3 blk = {}"
proof -
  have "check_no_chained_transactions sha3 blk = Inr () \<longleftrightarrow>
      List.find (\<lambda>op. op \<in> block_created_outpoints sha3 blk) (block_outpoints blk) = None"
    by (simp add: check_no_chained_transactions_def split: option.split)
  then show ?thesis by (auto simp: find_None_iff)
qed

text \<open>Below the limit the saturating sums are the sums.\<close>

lemma check_masses_ok:
  "check_masses mc m txs (c, t, s) = Inr (c', t', s') \<Longrightarrow> max c (max t s) \<le> m \<Longrightarrow> m < - 1 \<Longrightarrow>
     unat c' = unat c + (\<Sum>tx\<leftarrow>txs. unat (compute_mass (calc_non_contextual_masses mc tx))) \<and> c' \<le> m \<and>
     unat t' = unat t + (\<Sum>tx\<leftarrow>txs. unat (transient_mass (calc_non_contextual_masses mc tx))) \<and> t' \<le> m \<and>
     unat s' = unat s + (\<Sum>tx\<leftarrow>txs. unat (tx_mass tx)) \<and> s' \<le> m"
proof (induction txs arbitrary: c t s)
  case (Cons tx txs)
  let ?m = "calc_non_contextual_masses mc tx"
  have exact: "unat (sat_add64 a b) = unat a + unat b" if "\<not> sat_add64 a b > m" for a b
  proof -
    have "unat (sat_add64 a b) < 2 ^ 64 - 1"
      using that Cons.prems(3) unat_max64 by (simp add: word_less_nat_alt)
    then show ?thesis by (simp add: unat_sat_add64 min_def split: if_splits)
  qed
  have le: "\<not> sat_add64 c (compute_mass ?m) > m" "\<not> sat_add64 t (transient_mass ?m) > m" "\<not> sat_add64 s (tx_mass tx) > m"
    using Cons.prems(1) by (auto simp: Let_def split: if_splits)
  then have "check_masses mc m txs (sat_add64 c (compute_mass ?m), sat_add64 t (transient_mass ?m), sat_add64 s (tx_mass tx)) =
      Inr (c', t', s')"
    using Cons.prems(1) by (simp add: Let_def)
  then show ?case
    using Cons.IH [of "sat_add64 c (compute_mass ?m)" "sat_add64 t (transient_mass ?m)" "sat_add64 s (tx_mass tx)"]
      le exact [OF le(1)] exact [OF le(2)] exact [OF le(3)] Cons.prems(3)
    by (simp add: not_less)
qed simp

lemma and_then_ok: "and_then m f = Some (Inr b) \<longleftrightarrow> (\<exists>a. m = Some (Inr a) \<and> f a = Some (Inr b))"
  by (cases m; cases "the m") (auto simp: and_then_def)

lemma one_coinbase_ok:
  "check_only_one_coinbase blk = Some (Inr ()) \<longleftrightarrow>
     (\<exists>cb txs. block_transactions blk = cb # txs \<and> is_coinbase cb \<and> (\<forall>tx \<in> set txs. \<not> is_coinbase tx))"
  by (auto simp: check_only_one_coinbase_def find_check split: list.splits)

lemma length_validated:
  "length (validate_transactions_in_parallel sha vrf txs) =
     length (filter (\<lambda>tx. verify_account_tx_signature sha vrf tx = Inr ()) (drop 1 txs))"
proof -
  have "length (List.map_filter (\<lambda>((i, tx), res). if res = Inr () then Some (tx, i) else None)
        (zip cs (map (verify_account_tx_signature sha vrf) (map snd cs)))) =
      length (filter (\<lambda>tx. verify_account_tx_signature sha vrf tx = Inr ()) (map snd cs))" for cs :: "(nat \<times> transaction) list"
    by (induction cs) (auto simp: List.map_filter_def split: if_splits)
  moreover have "map snd (drop 1 (zip [0..<length txs] txs)) = drop 1 txs" by (simp flip: drop_map)
  ultimately show ?thesis
    unfolding validate_transactions_in_parallel_def Let_def verify_account_tx_signatures_batch_def by metis
qed

section \<open>Properties\<close>

text \<open>
  C15: A block body that is accepted in isolation has the Merkle root of its header, starts with its
  only coinbase transaction, and has only transactions that are accepted on their own, with
  distinct identifiers; no outpoint is spent twice or created in the block; and its masses are the
  sums of those of its transactions, without saturation, and within the limit.
\<close>

theorem body_isolation_sound:
  assumes "validate_body_in_isolation sha sha3 vrf tv mc max_block_mass blk = Some (Inr (c, t, s))" "max_block_mass < - 1"
  shows "calc_hash_merkle_root sha3 (block_transactions blk) = Some (hdr_hash_merkle_root (block_header blk)) \<and>
    (\<exists>cb txs. block_transactions blk = cb # txs \<and> is_coinbase cb \<and> (\<forall>tx \<in> set txs. \<not> is_coinbase tx)) \<and>
    (\<forall>tx \<in> set (block_transactions blk). validate_tx_in_isolation sha vrf tv tx = Inr ()) \<and>
    distinct (map (tx_id sha3) (block_transactions blk)) \<and> distinct (block_outpoints blk) \<and>
    set (block_outpoints blk) \<inter> block_created_outpoints sha3 blk = {} \<and>
    unat c = (\<Sum>tx\<leftarrow>block_transactions blk. unat (compute_mass (calc_non_contextual_masses mc tx))) \<and> c \<le> max_block_mass \<and>
    unat t = (\<Sum>tx\<leftarrow>block_transactions blk. unat (transient_mass (calc_non_contextual_masses mc tx))) \<and> t \<le> max_block_mass \<and>
    unat s = (\<Sum>tx\<leftarrow>block_transactions blk. unat (tx_mass tx)) \<and> s \<le> max_block_mass"
proof -
  have ok: "check_hash_merkle_root sha3 blk = Some (Inr ())" "check_only_one_coinbase blk = Some (Inr ())"
    "check_transactions_in_isolation sha sha3 vrf tv (block_transactions blk) = Inr ()"
    "check_block_mass mc max_block_mass blk = Inr (c, t, s)" "check_duplicate_transactions sha3 blk = Inr ()"
    "check_block_double_spends blk = Inr ()" "check_no_chained_transactions sha3 blk = Inr ()"
    using assms(1) by (auto simp: validate_body_in_isolation_def and_then_ok rbind_Inr_iff)
  note masses = check_masses_ok [OF ok(4) [unfolded check_block_mass_def] _ assms(2)]
  show ?thesis
    using ok(1-3,5-7) masses
    by (auto simp: one_coinbase_ok check_transactions_ok check_duplicate_transactions_def check_ids_ok
        check_block_double_spends_def check_double_spends_ok check_no_chained_ok check_hash_merkle_root_def split: if_splits)
qed

text \<open>
  C32: The checks on a block's signatures count instead of naming: they pass exactly when the
  transactions whose account signature fails are at most as many as the flash and identity
  transactions of the block, whichever they are, so every flash transaction lets one transaction
  without a valid signature pass.
\<close>

theorem signature_count_exact:
  "check_validated_count sha vrf (cb # txs) = Inr () \<longleftrightarrow>
     length (filter (\<lambda>tx. verify_account_tx_signature sha vrf tx \<noteq> Inr ()) txs) \<le>
     length (filter (\<lambda>tx. is_flash_payload (tx_payload tx) \<or> is_did_payload (tx_payload tx)) txs)"
proof -
  have "length (filter P txs) + length (filter (\<lambda>tx. \<not> P tx) txs) = length txs" for P :: "transaction \<Rightarrow> bool"
    by (simp add: sum_length_filter_compl)
  from this [of "\<lambda>tx. verify_account_tx_signature sha vrf tx = Inr ()"] show ?thesis
    by (auto simp: check_validated_count_def Let_def length_validated account_model_count_def)
qed


text \<open>A block with a coinbase transaction only.\<close>

definition demo_coinbase :: transaction where
  "demo_coinbase = transaction_new 0 [] [] 0 SUBNETWORK_ID_COINBASE 0 []"

definition demo_block :: block where
  "demo_block = \<lparr>block_header = \<lparr>hdr_hash = [], hdr_direct_parents = [], hdr_hash_merkle_root = tx_hash demo_digest demo_coinbase,
     hdr_account_commitment = [], hdr_daa_score = 0, hdr_blue_score = 0, hdr_pruning_point = []\<rparr>,
     block_transactions = [demo_coinbase]\<rparr>"

theorem body_isolation_sound_witness:
  "validate_body_in_isolation (\<lambda>b. b) demo_digest (\<lambda>_ _ _. False) demo_validator
      \<lparr>mass_per_tx_byte = 1, mass_per_script_pub_key_byte = 10, mass_per_sig_op = 1000, storage_mass_parameter = 10\<rparr> 500000 demo_block =
    Some (Inr (0, 0, 0)) \<and>
   calc_hash_merkle_root demo_digest (block_transactions demo_block) = Some (hdr_hash_merkle_root (block_header demo_block))"
proof -
  let ?mc = "\<lparr>mass_per_tx_byte = 1, mass_per_script_pub_key_byte = 10, mass_per_sig_op = 1000, storage_mass_parameter = 10\<rparr> :: mass_calculator"
  note cb = demo_coinbase_def transaction_new_def
  have coinbase: "is_coinbase demo_coinbase" by (simp add: cb is_coinbase_def)
  have iso: "validate_tx_in_isolation (\<lambda>b. b) (\<lambda>_ _ _. False) demo_validator demo_coinbase = Inr ()"
    using coinbase
    by (simp add: validate_tx_in_isolation_def check_transaction_inputs_in_isolation_def check_transaction_inputs_count_def
        check_transaction_signature_scripts_def check_transaction_outputs_in_isolation_def check_transaction_outputs_count_def
        check_transaction_script_public_keys_def check_coinbase_in_isolation_def check_transaction_output_value_ranges_def
        check_duplicate_transaction_inputs_def check_gas_def check_transaction_subnetwork_def check_transaction_version_def)
      (simp add: cb is_did_payload_def TX_VERSION_def)
  have "validate_body_in_isolation (\<lambda>b. b) demo_digest (\<lambda>_ _ _. False) demo_validator ?mc 500000 demo_block = Some (Inr (0, 0, 0))"
    using coinbase iso
    by (simp add: validate_body_in_isolation_def and_then_def demo_block_def check_has_transactions_def check_hash_merkle_root_def
        calc_hash_merkle_root_def calc_merkle_root_ref check_only_one_coinbase_def check_block_mass_def calc_non_contextual_masses_def
        check_duplicate_transactions_def check_block_double_spends_def check_no_chained_transactions_def block_outpoints_def sat_add64_def Let_def)
      (simp add: cb)
  then show ?thesis using body_isolation_sound by force
qed

end
