(* ===== verification/Flash_Blocks.thy ===== *)
theory Flash_Blocks
  imports Flash_Validation
begin

text \<open>
  Blocks of flash transactions: what a validated batch does to the balances, when disconnecting
  a block restores the accounts, and two kinds of blocks for which it does not.
\<close>

section \<open>Lists of flash transactions on maps of accounts\<close>

definition flash_ready :: "(bytes \<Rightarrow> hash) \<Rightarrow> script_public_key set \<Rightarrow> flash_transaction list \<Rightarrow> bool" where
  "flash_ready sha3 K txs \<longleftrightarrow>
     list_all (\<lambda>tx. sender_of sha3 tx \<in> K \<and> recipient_of tx \<in> K \<and> 20 \<le> length (fl_recipient tx)) txs"

definition flash_effects where
  "flash_effects sha3 bh txs m = fold (flash_effect sha3 bh) txs m"

definition unflash_effects where
  "unflash_effects sha3 bh txs m = fold (unflash_effect sha3 bh) txs m"

lemma length_filter_eq_id: "length (filter P xs) = length xs \<Longrightarrow> filter P xs = xs"
  by (metis filter_True length_filter_less less_irrefl)

context bank_contract
begin

lemma apply_flash_list_spec:
  "ok st \<Longrightarrow> flash_ready sha3 K txs \<Longrightarrow>
   \<exists>st'. apply_flash_list sha3 b bh txs st = Some st' \<and> ok st' \<and> accts st' = flash_effects sha3 bh txs (accts st)"
proof (induction txs arbitrary: st)
  case (Cons tx txs)
  then obtain st1 where "apply_flash_tx sha3 b tx bh st = Some st1" "ok st1" "accts st1 = flash_effect sha3 bh tx (accts st)"
    using apply_flash_spec [of st sha3 tx bh] by (auto simp: flash_ready_def)
  then show ?case using Cons(1) [of st1] Cons(3) by (simp add: flash_ready_def flash_effects_def)
qed (simp add: flash_effects_def)

lemma reorg_flash_block_spec:
  "ok st \<Longrightarrow> flash_ready sha3 K txs \<Longrightarrow>
   \<exists>st'. reorg_flash_block sha3 b bh txs st = Some st' \<and> ok st' \<and> accts st' = unflash_effects sha3 bh txs (accts st)"
proof (induction txs arbitrary: st)
  case (Cons tx txs)
  then obtain st1 where "reorg_flash_tx sha3 b bh tx st = Some st1" "ok st1" "accts st1 = unflash_effect sha3 bh tx (accts st)"
    using reorg_flash_spec [of st sha3 tx bh] by (auto simp: flash_ready_def)
  then show ?case using Cons(1) [of st1] Cons(3) by (simp add: flash_ready_def unflash_effects_def)
qed (simp add: unflash_effects_def)

end

section \<open>Debits and credits in a block\<close>

definition debit_of :: "flash_transaction \<Rightarrow> nat" where
  "debit_of tx = unat (fl_amount tx) + unat (fl_fee tx)"

definition debits_of :: "(bytes \<Rightarrow> hash) \<Rightarrow> script_public_key \<Rightarrow> flash_transaction list \<Rightarrow> nat" where
  "debits_of sha3 x txs = (\<Sum>tx\<leftarrow>filter (\<lambda>tx. sender_of sha3 tx = x) txs. debit_of tx)"

definition credits_of :: "script_public_key \<Rightarrow> flash_transaction list \<Rightarrow> nat" where
  "credits_of x txs = (\<Sum>tx\<leftarrow>filter (\<lambda>tx. recipient_of tx = x) txs. unat (fl_amount tx))"

abbreviation bal :: "(script_public_key \<Rightarrow> account_state) \<Rightarrow> script_public_key \<Rightarrow> nat" where
  "bal m x \<equiv> unat (acc_balance (m x))"

lemma debits_of_Cons: "debits_of sha3 x (tx # txs) = (if sender_of sha3 tx = x then debit_of tx else 0) + debits_of sha3 x txs"
  by (simp add: debits_of_def)

lemma credits_of_Cons: "credits_of x (tx # txs) = (if recipient_of tx = x then unat (fl_amount tx) else 0) + credits_of x txs"
  by (simp add: credits_of_def)

lemma no_payments [simp]: "debits_of sha3 x [] = 0" "credits_of x [] = 0"
  by (simp_all add: debits_of_def credits_of_def)

lemma bal_flash_effect:
  assumes "debit_of tx \<le> bal m (sender_of sha3 tx)" "bal m (recipient_of tx) + unat (fl_amount tx) < 2 ^ 64"
  shows "bal (flash_effect sha3 bh tx m) x + (if sender_of sha3 tx = x then debit_of tx else 0) =
    bal m x + (if recipient_of tx = x then unat (fl_amount tx) else 0)"
proof -
  have "debit_of tx < 18446744073709551616"
    using assms(1) unat_lt64 by (rule le_less_trans)
  then have d: "unat (sat_add64 (fl_amount tx) (fl_fee tx)) = debit_of tx"
    by (simp add: unat_sat_add64 debit_of_def)
  show ?thesis
    using assms d by (auto simp: flash_effect_def Let_def debit_flash_def credit_def record_flash_def unat_sat_sub64
        unat_sat_add64)
qed

text \<open>No debit and no credit of the block saturates.\<close>

definition covered :: "(bytes \<Rightarrow> hash) \<Rightarrow> flash_transaction list \<Rightarrow> (script_public_key \<Rightarrow> account_state) \<Rightarrow> bool" where
  "covered sha3 txs m \<longleftrightarrow> (\<forall>x. debits_of sha3 x txs \<le> bal m x \<and> bal m x + credits_of x txs < 2 ^ 64)"

lemma covered_step:
  assumes "covered sha3 (tx # txs) m"
  shows "covered sha3 txs (flash_effect sha3 bh tx m) \<and>
    (\<forall>x. bal (flash_effect sha3 bh tx m) x + (if sender_of sha3 tx = x then debit_of tx else 0) =
      bal m x + (if recipient_of tx = x then unat (fl_amount tx) else 0))"
proof -
  have a: "debit_of tx \<le> bal m (sender_of sha3 tx)"
    using assms by (auto simp: covered_def debits_of_Cons dest: spec [of _ "sender_of sha3 tx"])
  have b: "bal m (recipient_of tx) + unat (fl_amount tx) < 2 ^ 64"
    using assms by (auto simp: covered_def credits_of_Cons dest: spec [of _ "recipient_of tx"])
  note eq = bal_flash_effect [OF a b, of bh]
  have "debits_of sha3 x txs \<le> bal (flash_effect sha3 bh tx m) x \<and>
      bal (flash_effect sha3 bh tx m) x + credits_of x txs < 2 ^ 64" for x
    using assms eq [of x] by (auto simp: covered_def debits_of_Cons credits_of_Cons dest!: spec [of _ x] split: if_splits)
  then show ?thesis using eq by (simp add: covered_def)
qed

lemma flash_effects_balances:
  "covered sha3 txs m \<Longrightarrow> bal (flash_effects sha3 bh txs m) x + debits_of sha3 x txs = bal m x + credits_of x txs"
proof (induction txs arbitrary: m)
  case (Cons tx txs)
  have "bal (flash_effects sha3 bh txs (flash_effect sha3 bh tx m)) x + debits_of sha3 x txs =
      bal (flash_effect sha3 bh tx m) x + credits_of x txs"
    using Cons(1) covered_step [OF Cons(2), of bh] by blast
  moreover have "bal (flash_effect sha3 bh tx m) x + (if sender_of sha3 tx = x then debit_of tx else 0) =
      bal m x + (if recipient_of tx = x then unat (fl_amount tx) else 0)"
    using covered_step [OF Cons(2), of bh] by blast
  ultimately show ?case
    by (simp add: debits_of_Cons credits_of_Cons flash_effects_def split: if_splits)
qed (simp add: flash_effects_def debits_of_def credits_of_def)

lemma sum_debits:
  assumes "finite K" "flash_ready sha3 K txs"
  shows "(\<Sum>x\<in>K. debits_of sha3 x txs) = (\<Sum>tx\<leftarrow>txs. debit_of tx) \<and> (\<Sum>x\<in>K. credits_of x txs) = (\<Sum>tx\<leftarrow>txs. unat (fl_amount tx))"
  using assms(2)
proof (induction txs)
  case Nil
  then show ?case by (simp add: debits_of_def credits_of_def)
next
  case (Cons tx txs)
  then show ?case
    using assms(1) by (simp add: debits_of_Cons credits_of_Cons sum.distrib flash_ready_def)
qed

text \<open>A covered block moves value between accounts and burns its fees.\<close>

lemma flash_effects_total:
  assumes "finite K" "flash_ready sha3 K txs" "covered sha3 txs m"
  shows "(\<Sum>x\<in>K. bal (flash_effects sha3 bh txs m) x) + (\<Sum>tx\<leftarrow>txs. unat (fl_fee tx)) = (\<Sum>x\<in>K. bal m x)"
proof -
  have "(\<Sum>x\<in>K. bal (flash_effects sha3 bh txs m) x + debits_of sha3 x txs) = (\<Sum>x\<in>K. bal m x + credits_of x txs)"
    by (rule sum.cong) (simp_all add: flash_effects_balances [OF assms(3)])
  then have "(\<Sum>x\<in>K. bal (flash_effects sha3 bh txs m) x) + (\<Sum>tx\<leftarrow>txs. debit_of tx) =
      (\<Sum>x\<in>K. bal m x) + (\<Sum>tx\<leftarrow>txs. unat (fl_amount tx))"
    using sum_debits [OF assms(1,2)] by (simp add: sum.distrib)
  moreover have "(\<Sum>tx\<leftarrow>txs. debit_of tx) = (\<Sum>tx\<leftarrow>txs. unat (fl_amount tx)) + (\<Sum>tx\<leftarrow>txs. unat (fl_fee tx))"
    by (simp add: debit_of_def sum_list_addf)
  ultimately show ?thesis by simp
qed

section \<open>What validation establishes\<close>

definition lookup0 :: "('k \<times> u64) list \<Rightarrow> 'k \<Rightarrow> nat" where
  "lookup0 ds x = (case map_of ds x of None \<Rightarrow> 0 | Some v \<Rightarrow> unat v)"

lemma aggregate_debits_sound:
  "aggregate_debits sha3 txs ds = Inr ds' \<Longrightarrow> distinct (map fst ds) \<Longrightarrow>
   distinct (map fst ds') \<and> (\<forall>x. lookup0 ds' x = lookup0 ds x + debits_of sha3 x txs) \<and>
   fst ` set ds' = fst ` set ds \<union> sender_of sha3 ` set txs"
proof (induction txs arbitrary: ds)
  case Nil
  then show ?case by (simp add: debits_of_def)
next
  case (Cons tx txs debits)
  let ?x = "sender_of sha3 tx" and ?e = "case map_of debits (sender_of sha3 tx) of None \<Rightarrow> 0 | Some v \<Rightarrow> v"
  obtain v d where v: "checked_add64 ?e (fl_amount tx) = Some v" "checked_add64 v (fl_fee tx) = Some d"
    and rest: "aggregate_debits sha3 txs (index_insert ?x d debits) = Inr ds'"
    using Cons(2) by (auto simp: sender_of_p2pkh Let_def split: option.splits Option.bind_splits)
  have d: "unat d = unat ?e + debit_of tx"
    using checked_add64_unat [OF v(1)] checked_add64_unat [OF v(2)] by (simp add: debit_of_def)
  have e: "unat ?e = lookup0 debits ?x" by (simp add: lookup0_def split: option.split)
  have IH: "distinct (map fst ds') \<and> (\<forall>x. lookup0 ds' x = lookup0 (index_insert ?x d debits) x + debits_of sha3 x txs) \<and>
      fst ` set ds' = fst ` set (index_insert ?x d debits) \<union> sender_of sha3 ` set txs"
    using Cons(1) [OF rest] Cons(3) by (simp add: distinct_index_insert)
  have "lookup0 (index_insert ?x d debits) x = lookup0 debits x + (if ?x = x then debit_of tx else 0)" for x
    using d e by (auto simp: lookup0_def index_insert_lookup)
  with IH show ?case by (auto simp: index_insert_keys debits_of_Cons)
qed

text \<open>The reads of the validation leave the accounts as they are.\<close>

context bank_contract
begin

lemma read_account_spec:
  "ok st \<Longrightarrow> spk \<in> K \<Longrightarrow> \<exists>st'. read_account b spk st = (Inr (accts st spk), st') \<and> ok st' \<and> accts st' = accts st"
  using get_spec [of st spk] by (auto simp: read_account_def)

lemma check_debits_spec:
  "ok st \<Longrightarrow> fst ` set ds \<subseteq> K \<Longrightarrow> check_debits b ds st = (Inr u, st') \<Longrightarrow>
   ok st' \<and> accts st' = accts st \<and> (\<forall>(x, d)\<in>set ds. d \<le> acc_balance (accts st x))"
proof (induction ds arbitrary: st)
  case Nil
  then show ?case by (simp add: sret_def)
next
  case (Cons xd ds)
  obtain x d where xd: "xd = (x, d)" by (cases xd)
  obtain st1 where r: "read_account b x st = (Inr (accts st x), st1)" "ok st1" "accts st1 = accts st"
    using read_account_spec [OF Cons(2), of x] Cons(3) xd by auto
  have "\<not> acc_balance (accts st x) < d" "check_debits b ds st1 = (Inr u, st')"
    using Cons(4) r(1) xd by (auto simp: sbind_def sthrow_def split: if_splits)
  then show ?case using Cons(1) [OF r(2)] Cons(3) r(3) xd by auto
qed

lemma filter_eligible_spec:
  "ok st \<Longrightarrow> sender_of sha3 ` set txs \<subseteq> K \<Longrightarrow>
   \<exists>el st'. filter_eligible sha3 b daa seen txs st = (Inr el, st') \<and> ok st' \<and> accts st' = accts st \<and>
     set el \<subseteq> set txs \<and> distinct (map (flash_id sha3) el) \<and> flash_id sha3 ` set el \<inter> set seen = {} \<and>
     list_all (\<lambda>tx. daa \<le> fl_expiry_daa_score tx \<and> \<not> is_flash_replay (flash_id sha3 tx) (accts st (sender_of sha3 tx))) el"
proof (induction txs arbitrary: st seen)
  case Nil
  then show ?case by (simp add: sret_def)
next
  case (Cons tx txs)
  let ?fid = "flash_id sha3 tx"
  have K: "sender_of sha3 tx \<in> K" "sender_of sha3 ` set txs \<subseteq> K" using Cons(3) by auto
  obtain st1 where r: "read_account b (sender_of sha3 tx) st = (Inr (accts st (sender_of sha3 tx)), st1)"
    "ok st1" "accts st1 = accts st"
    using read_account_spec [OF Cons(2) K(1)] by blast
  consider "?fid \<in> set seen \<or> daa > fl_expiry_daa_score tx"
    | "?fid \<notin> set seen" "\<not> daa > fl_expiry_daa_score tx" "is_flash_replay ?fid (accts st (sender_of sha3 tx))"
    | "?fid \<notin> set seen" "\<not> daa > fl_expiry_daa_score tx" "\<not> is_flash_replay ?fid (accts st (sender_of sha3 tx))"
    by blast
  then show ?case
  proof cases
    case 1
    then show ?thesis
      using Cons(1) [OF Cons(2) K(2), of seen] Cons(1) [OF Cons(2) K(2), of "?fid # seen"]
      by (fastforce simp: Let_def)
  next
    case 2
    then have "filter_eligible sha3 b daa seen (tx # txs) st = filter_eligible sha3 b daa (?fid # seen) txs st1"
      using r(1) by (simp add: Let_def sbind_def sender_of_p2pkh)
    then show ?thesis using Cons(1) [OF r(2) K(2), of "?fid # seen"] r(3) by fastforce
  next
    case 3
    obtain el st2 where el: "filter_eligible sha3 b daa (?fid # seen) txs st1 = (Inr el, st2)" "ok st2" "accts st2 = accts st"
      "set el \<subseteq> set txs" "distinct (map (flash_id sha3) el)" "flash_id sha3 ` set el \<inter> set (?fid # seen) = {}"
      "list_all (\<lambda>tx. daa \<le> fl_expiry_daa_score tx \<and> \<not> is_flash_replay (flash_id sha3 tx) (accts st (sender_of sha3 tx))) el"
      using Cons(1) [OF r(2) K(2), of "?fid # seen"] r(3) by auto
    have "filter_eligible sha3 b daa seen (tx # txs) st = (Inr (tx # el), st2)"
      using 3 r(1) el(1) by (simp add: Let_def sbind_def sret_def sender_of_p2pkh)
    then show ?thesis
      using 3 el by (intro exI [of _ "tx # el"] exI [of _ st2]) (auto simp: not_less simp del: filter_eligible.simps)
  qed
qed

lemma validate_flash_transaction_spec:
  assumes "ok st" "sender_of sha3 tx \<in> K" "validate_flash_transaction sha3 vrf b tx daa st = (Inr u, st')"
  shows "ok st' \<and> accts st' = accts st \<and> vrf (fl_pubkey tx) (fl_signature tx) (flash_sighash sha3 tx) \<and>
    FLASH_MIN_FEE_KANA \<le> fl_fee tx \<and> daa \<le> fl_expiry_daa_score tx"
proof -
  obtain st1 where r: "read_account b (sender_of sha3 tx) st = (Inr (accts st (sender_of sha3 tx)), st1)"
    "ok st1" "accts st1 = accts st"
    using read_account_spec [OF assms(1,2)] by blast
  show ?thesis
    using assms(3) r
    by (auto simp: validate_flash_transaction_def sbind_def sthrow_def sret_def Let_def sender_of_p2pkh not_less
        split: if_splits option.splits)
qed

lemma validate_each_spec:
  "ok st \<Longrightarrow> sender_of sha3 ` set txs \<subseteq> K \<Longrightarrow> validate_each sha3 vrf b daa txs st = (Inr u, st') \<Longrightarrow>
   ok st' \<and> accts st' = accts st \<and>
   list_all (\<lambda>tx. vrf (fl_pubkey tx) (fl_signature tx) (flash_sighash sha3 tx) \<and> FLASH_MIN_FEE_KANA \<le> fl_fee tx) txs"
proof (induction txs arbitrary: st)
  case Nil
  then show ?case by (simp add: sret_def)
next
  case (Cons tx txs)
  obtain u1 st1 where v: "validate_flash_transaction sha3 vrf b tx daa st = (Inr u1, st1)"
    and rest: "validate_each sha3 vrf b daa txs st1 = (Inr u, st')"
    using Cons(4) by (auto simp: sbind_def split: prod.splits sum.splits)
  have "sender_of sha3 tx \<in> K" using Cons(3) by simp
  note one = validate_flash_transaction_spec [OF Cons(2) this v]
  show ?case using Cons(1) [OF _ _ rest] one Cons(3) by simp
qed

lemma validate_flash_batch_spec:
  assumes "ok st" "sender_of sha3 ` set txs \<subseteq> K" "validate_flash_batch sha3 vrf b txs daa st = (Inr el, st')"
  shows "ok st' \<and> accts st' = accts st \<and> set el \<subseteq> set txs \<and> distinct (map (flash_id sha3) el) \<and>
    (\<forall>x. debits_of sha3 x el \<le> bal (accts st) x) \<and>
    list_all (\<lambda>tx. vrf (fl_pubkey tx) (fl_signature tx) (flash_sighash sha3 tx) \<and> FLASH_MIN_FEE_KANA \<le> fl_fee tx \<and>
      daa \<le> fl_expiry_daa_score tx \<and> \<not> is_flash_replay (flash_id sha3 tx) (accts st (sender_of sha3 tx))) el"
proof (cases "txs = []")
  case True
  then show ?thesis using assms(1,3) by (simp add: validate_flash_batch_def sret_def debits_of_def)
next
  case False
  obtain e st1 where e: "filter_eligible sha3 b daa [] txs st = (Inr e, st1)" "ok st1" "accts st1 = accts st"
    "set e \<subseteq> set txs" "distinct (map (flash_id sha3) e)"
    "list_all (\<lambda>tx. daa \<le> fl_expiry_daa_score tx \<and> \<not> is_flash_replay (flash_id sha3 tx) (accts st (sender_of sha3 tx))) e"
    using filter_eligible_spec [OF assms(1,2), of daa "[]"] by blast
  show ?thesis
  proof (cases "e = []")
    case True
    then show ?thesis
      using assms(3) False e by (simp add: validate_flash_batch_def sbind_def sret_def debits_of_def)
  next
    case ne: False
    obtain ds st2 u v st3 where ds: "aggregate_debits sha3 e [] = Inr ds" "check_debits b ds st1 = (Inr u, st2)"
      "validate_each sha3 vrf b daa e st2 = (Inr v, st3)" "el = e" "st' = st3"
    proof -
      have "sbind (slift (aggregate_debits sha3 e [])) (\<lambda>debits. sbind (check_debits b debits) (\<lambda>_.
          sbind (validate_each sha3 vrf b daa e) (\<lambda>_. sret e))) st1 = (Inr el, st')"
        using assms(3) False ne e(1) by (simp add: validate_flash_batch_def sbind_def [of "filter_eligible sha3 b daa [] txs"])
      then show ?thesis
        unfolding sbind_Inr_iff slift_def sret_def by (elim exE conjE) (rule that, auto)
    qed
    have agg: "distinct (map fst ds)" "\<And>x. lookup0 ds x = debits_of sha3 x e" "fst ` set ds = sender_of sha3 ` set e"
      using aggregate_debits_sound [OF ds(1)] by (simp_all add: lookup0_def)
    have eK: "sender_of sha3 ` set e \<subseteq> K" using e(4) assms(2) by auto
    have chk: "ok st2" "accts st2 = accts st" "\<forall>(x, d)\<in>set ds. d \<le> acc_balance (accts st x)"
      using check_debits_spec [OF e(2) _ ds(2)] agg(3) eK e(3) by auto
    have each: "ok st3" "accts st3 = accts st"
      "list_all (\<lambda>tx. vrf (fl_pubkey tx) (fl_signature tx) (flash_sighash sha3 tx) \<and> FLASH_MIN_FEE_KANA \<le> fl_fee tx) e"
      using validate_each_spec [OF chk(1) eK ds(3)] chk(2) by auto
    have "debits_of sha3 x e \<le> bal (accts st) x" for x
    proof (cases "map_of ds x")
      case None
      then show ?thesis using agg(2) [of x] by (simp add: lookup0_def)
    next
      case (Some d)
      then have "(x, d) \<in> set ds" by (rule map_of_SomeD)
      then have "d \<le> acc_balance (accts st x)" using chk(3) by auto
      then show ?thesis using agg(2) [of x] Some by (simp add: lookup0_def word_le_nat_alt)
    qed
    then show ?thesis
      using each e(4-6) ds(4,5) by (auto simp: list_all_iff)
  qed
qed

text \<open>A single transaction that keeps the rules is accepted.\<close>

lemma validate_single:
  assumes "ok st" "sender_of sha3 tx \<in> K" "daa \<le> fl_expiry_daa_score tx" "FLASH_MIN_FEE_KANA \<le> fl_fee tx"
    "\<not> is_flash_replay (flash_id sha3 tx) (accts st (sender_of sha3 tx))"
    "vrf (fl_pubkey tx) (fl_signature tx) (flash_sighash sha3 tx)" "debit_of tx \<le> bal (accts st) (sender_of sha3 tx)"
  shows "\<exists>st'. validate_flash_batch sha3 vrf b [tx] daa st = (Inr [tx], st')"
proof -
  let ?x = "sender_of sha3 tx"
  obtain st1 where r1: "read_account b ?x st = (Inr (accts st ?x), st1)" "ok st1" "accts st1 = accts st"
    using read_account_spec [OF assms(1,2)] by blast
  obtain st2 where r2: "read_account b ?x st1 = (Inr (accts st ?x), st2)" "ok st2" "accts st2 = accts st"
    using read_account_spec [OF r1(2) assms(2)] r1(3) by auto
  obtain st3 where r3: "read_account b ?x st2 = (Inr (accts st ?x), st3)"
    using read_account_spec [OF r2(2) assms(2)] r2(3) by auto
  have lt: "debit_of tx < 18446744073709551616"
    using assms(7) unat_lt64 by (rule le_less_trans)
  obtain d where d: "checked_add64 0 (fl_amount tx) = Some (fl_amount tx)" "checked_add64 (fl_amount tx) (fl_fee tx) = Some d"
    using lt by (simp add: checked_add64_def debit_of_def)
  have le: "\<not> acc_balance (accts st ?x) < d"
    using checked_add64_unat [OF d(2)] assms(7) by (simp add: debit_of_def word_less_nat_alt)
  have "\<not> daa > fl_expiry_daa_score tx" "\<not> fl_fee tx < FLASH_MIN_FEE_KANA" using assms(3,4) by (simp_all add: not_less)
  then show ?thesis
    using assms(5,6) r1(1) r2(1) r3 d le
    by (simp add: validate_flash_batch_def validate_flash_transaction_def sbind_def sret_def slift_def Let_def
        sender_of_p2pkh index_insert_def)
qed

text \<open>An expired transaction before another one is dropped.\<close>

lemma validate_expired:
  assumes "validate_flash_batch sha3 vrf b [tx] daa st = (Inr [tx], st')" "daa > fl_expiry_daa_score bad"
    "flash_id sha3 bad \<noteq> flash_id sha3 tx"
  shows "validate_flash_batch sha3 vrf b [bad, tx] daa st = (Inr [tx], st')"
proof -
  have "filter_eligible sha3 b daa [] [bad, tx] = filter_eligible sha3 b daa [] [tx]"
    using assms(2,3) by (simp add: Let_def cong: if_cong)
  then show ?thesis using assms(1) by (simp add: validate_flash_batch_def del: filter_eligible.simps)
qed

lemma prune_spec:
  "ok st \<Longrightarrow> set spks \<subseteq> K \<Longrightarrow> ok (prune_flashes_for_accounts b spks daa st) \<and>
   accts (prune_flashes_for_accounts b spks daa st) =
     (\<lambda>x. if x \<in> set spks then prune_recent_flashes daa (accts st x) else accts st x)"
proof (induction spks arbitrary: st)
  case (Cons spk spks)
  obtain st1 where g: "bank_get b spk st = (accts st spk, st1)" "ok st1" "accts st1 = accts st"
    using get_spec [OF Cons(2), of spk] Cons(3) by auto
  let ?a = "prune_recent_flashes daa (accts st spk)"
  have same: "length (recent_flashes ?a) = length (recent_flashes (accts st spk)) \<Longrightarrow> ?a = accts st spk"
    using length_filter_eq_id [of "\<lambda>e. fe_expiry_daa_score e > sat_sub64 daa FLASH_PRUNE_BUFFER" "recent_flashes (accts st spk)"]
    by (simp add: prune_recent_flashes_def Let_def)
  obtain st2 where st2: "prune_flashes_for_accounts b (spk # spks) daa st = prune_flashes_for_accounts b spks daa st2"
    "ok st2" "accts st2 = (accts st)(spk := ?a)"
  proof (cases "length (recent_flashes ?a) = length (recent_flashes (accts st spk))")
    case True
    then show ?thesis using g same that [of st1] by (simp add: Let_def)
  next
    case False
    then have "recent_flashes (accts st spk) \<noteq> []" by (auto simp: prune_recent_flashes_def Let_def)
    then show ?thesis
      using False g set_spec [OF g(2), of spk ?a] Cons(3) that [of "bank_set b spk ?a st1"] by (simp add: Let_def)
  qed
  have "prune_recent_flashes daa ?a = ?a" by (simp add: prune_recent_flashes_def Let_def)
  then show ?case using Cons(1) [OF st2(2)] Cons(3) st2(1,3) by (auto simp: fun_eq_iff)
qed simp

end

section \<open>Concrete accounts\<close>

definition demo_sha :: "bytes \<Rightarrow> hash" where
  "demo_sha bs = take 32 (bs @ replicate 32 0)"

definition demo_spk :: "u8 \<Rightarrow> script_public_key" where
  "demo_spk n = \<lparr> spk_version = 0, spk_script = 0x14 # n # replicate 19 0 @ [0xac] \<rparr>"

definition demo_flash :: "u8 \<Rightarrow> u8 \<Rightarrow> u64 \<Rightarrow> flash_transaction" where
  "demo_flash sender recipient amount =
     \<lparr> fl_version = 1, fl_pubkey = [sender], fl_recipient = recipient # replicate 19 0, fl_amount = amount,
       fl_fee = 1000, fl_expiry_daa_score = 10, fl_salt = replicate 16 0, fl_signature = [] \<rparr>"

definition demo_accounts :: "account_state store" where
  "demo_accounts = access_new (Count 5) [7] [db_key [7] (account_key (demo_spk 1)) \<mapsto> account_state_new 5000]"

lemma demo_flash_ends [simp]:
  "sender_of demo_sha (demo_flash s r n) = demo_spk s" "recipient_of (demo_flash s r n) = demo_spk r"
  by (simp_all add: flash_pubkey_to_spk_def demo_sha_def demo_flash_def demo_spk_def recipient_of_def)

lemma demo_spk_inj [simp]: "demo_spk a = demo_spk b \<longleftrightarrow> a = b"
  by (simp add: demo_spk_def)

lemma demo_amounts [simp]: "fl_amount (demo_flash s r n) = n" "debit_of (demo_flash s r n) = unat n + 1000"
  "fl_fee (demo_flash s r n) = 1000" "fl_expiry_daa_score (demo_flash s r n) = 10"
  by (simp_all add: demo_flash_def debit_of_def)

lemma demo_ready:
  "flash_ready demo_sha (demo_spk ` A) []"
  "flash_ready demo_sha (demo_spk ` A) (demo_flash s r n # txs) \<longleftrightarrow> s \<in> A \<and> r \<in> A \<and> flash_ready demo_sha (demo_spk ` A) txs"
  by (auto simp: flash_ready_def image_iff) (auto simp: demo_flash_def)

lemma roomy_demo: "finite A \<Longrightarrow> card A < 5 \<Longrightarrow> roomy (demo_spk ` A) demo_accounts"
  unfolding demo_accounts_def by (intro roomy_new) (simp_all add: card_image inj_on_def)

lemma demo_accts: "db_accts demo_accounts x = (if x = demo_spk 1 then account_state_new 5000 else account_default)"
  by (simp add: db_accts_def demo_accounts_def view_def access_new_def)

section \<open>Validated batches\<close>



section \<open>Disconnecting a block\<close>

definition fresh_block :: "hash \<Rightarrow> account_state \<Rightarrow> bool" where
  "fresh_block bh a \<longleftrightarrow> list_all (\<lambda>e. fe_block_hash e \<noteq> bh) (recent_flashes a)"

lemma unat_debit:
  assumes "debit_of tx \<le> unat (n :: u64)"
  shows "unat (sat_add64 (fl_amount tx) (fl_fee tx)) = debit_of tx"
proof -
  have "debit_of tx < 18446744073709551616" using assms unat_lt64 by (rule le_less_trans)
  then show ?thesis by (simp add: unat_sat_add64 debit_of_def)
qed

lemma demo_balance: "bal (db_accts demo_accounts) x = (if x = demo_spk 1 then 5000 else 0)"
  by (simp add: demo_accts account_state_new_def account_default_def)

lemma demo_fresh: "fresh_block bh (db_accts demo_accounts x)"
  by (simp add: fresh_block_def demo_accts account_state_new_def account_default_def)

lemma demo_covered:
  "covered demo_sha txs (db_accts demo_accounts) \<longleftrightarrow>
     (\<forall>x. debits_of demo_sha x txs \<le> (if x = demo_spk 1 then 5000 else 0) \<and>
       (if x = demo_spk 1 then 5000 else 0) + credits_of x txs < 2 ^ 64)"
  by (simp only: covered_def demo_balance)

text \<open>The transactions of a list that are not the first of their sender.\<close>

fun repeats :: "(bytes \<Rightarrow> hash) \<Rightarrow> script_public_key set \<Rightarrow> flash_transaction list \<Rightarrow> flash_transaction list" where
  "repeats sha3 seen [] = []"
| "repeats sha3 seen (tx # txs) =
     (if sender_of sha3 tx \<in> seen then tx # repeats sha3 seen txs
      else repeats sha3 (insert (sender_of sha3 tx) seen) txs)"

lemma repeats_distinct:
  "distinct (map (sender_of sha3) txs) \<Longrightarrow> sender_of sha3 ` set txs \<inter> seen = {} \<Longrightarrow> repeats sha3 seen txs = []"
  by (induction txs arbitrary: seen) auto

text \<open>The entries a list of transactions leaves with an account.\<close>

definition entries_of :: "(bytes \<Rightarrow> hash) \<Rightarrow> hash \<Rightarrow> script_public_key \<Rightarrow> flash_transaction list \<Rightarrow> flash_entry list" where
  "entries_of sha3 bh x txs =
     map (\<lambda>tx. \<lparr> fe_flash_id = flash_id sha3 tx, fe_expiry_daa_score = fl_expiry_daa_score tx, fe_block_hash = bh \<rparr>)
       (filter (\<lambda>tx. sender_of sha3 tx = x) txs)"

lemma entries_of_simps [simp]:
  "entries_of sha3 bh x [] = []"
  "entries_of sha3 bh x (tx # txs) = (if sender_of sha3 tx = x then
     [\<lparr> fe_flash_id = flash_id sha3 tx, fe_expiry_daa_score = fl_expiry_daa_score tx, fe_block_hash = bh \<rparr>] else []) @
     entries_of sha3 bh x txs"
  by (simp_all add: entries_of_def)

lemma entries_of_block: "filter (\<lambda>e. fe_block_hash e \<noteq> bh) (entries_of sha3 bh x txs) = []"
  by (induction txs) simp_all

lemma flash_effects_entries:
  "recent_flashes (flash_effects sha3 bh txs m x) = recent_flashes (m x) @ entries_of sha3 bh x txs"
proof (induction txs arbitrary: m)
  case (Cons tx txs)
  have "recent_flashes (flash_effect sha3 bh tx m x) = recent_flashes (m x) @ entries_of sha3 bh x [tx]"
    by (auto simp: flash_effect_def Let_def debit_flash_def record_flash_def credit_def)
  then show ?case using Cons [of "flash_effect sha3 bh tx m"] by (simp add: flash_effects_def)
qed (simp add: flash_effects_def)

lemma fresh_filter: "fresh_block bh a \<Longrightarrow> filter (\<lambda>e. fe_block_hash e \<noteq> bh) (recent_flashes a) = recent_flashes a"
  by (simp add: fresh_block_def filter_id_conv list_all_iff)

text \<open>
  Unwinding one transaction.  \<open>left\<close> are the transactions whose effect the balances still hold.
\<close>

definition holds :: "(bytes \<Rightarrow> hash) \<Rightarrow> flash_transaction list \<Rightarrow> (script_public_key \<Rightarrow> account_state) \<Rightarrow>
    (script_public_key \<Rightarrow> account_state) \<Rightarrow> bool" where
  "holds sha3 left m m' \<longleftrightarrow> (\<forall>x. bal m' x + debits_of sha3 x left = bal m x + credits_of x left)"

lemma unat_credit: "unat n + unat k < 2 ^ 64 \<Longrightarrow> unat (sat_add64 n k) = unat n + unat k"
  by (simp add: unat_sat_add64)

lemma holds_undo:
  assumes h: "holds sha3 (tx # left) m m'" and c: "covered sha3 (tx # left) m"
    and m: "\<And>x. acc_balance (n x) = acc_balance (m' x)"
  shows "holds sha3 left m (let n' = n(sender_of sha3 tx := credit (sat_add64 (fl_amount tx) (fl_fee tx)) (n (sender_of sha3 tx)))
    in n'(recipient_of tx := uncredit (fl_amount tx) (n' (recipient_of tx))))"
proof -
  let ?s = "sender_of sha3 tx" and ?r = "recipient_of tx"
  have "debits_of sha3 ?s (tx # left) \<le> bal m ?s" using c by (simp add: covered_def)
  then have d: "unat (sat_add64 (fl_amount tx) (fl_fee tx)) = debit_of tx"
    by (intro unat_debit [of _ "acc_balance (m ?s)"]) (simp add: debits_of_Cons)
  have eq: "bal m' x + debits_of sha3 x (tx # left) = bal m x + credits_of x (tx # left)"
    and le: "debits_of sha3 x (tx # left) \<le> bal m x" and lt: "bal m x + credits_of x (tx # left) < 2 ^ 64" for x
    using h c by (simp_all add: holds_def covered_def)
  have s: "unat (sat_add64 (acc_balance (m' ?s)) (sat_add64 (fl_amount tx) (fl_fee tx))) = bal m' ?s + debit_of tx"
    using eq [of ?s] lt [of ?s] by (subst unat_credit) (simp_all add: d debits_of_Cons)
  show ?thesis
    unfolding holds_def
  proof
    fix x
    show "bal (let n' = n(?s := credit (sat_add64 (fl_amount tx) (fl_fee tx)) (n ?s))
        in n'(?r := uncredit (fl_amount tx) (n' ?r))) x + debits_of sha3 x left = bal m x + credits_of x left"
      using eq [of x] le [of x] s
      by (auto simp: Let_def m credit_def uncredit_def unat_sat_sub64 debits_of_Cons credits_of_Cons split: if_splits)
  qed
qed

lemma moved_middle:
  "debits_of sha3 x (kept @ tx # txs) = debits_of sha3 x (tx # kept @ txs)"
  "credits_of x (kept @ tx # txs) = credits_of x (tx # kept @ txs)"
  by (simp_all add: debits_of_def credits_of_def)

lemma covered_tl:
  assumes "covered sha3 (tx # txs) m"
  shows "covered sha3 txs m"
  unfolding covered_def
proof
  fix x
  have "debits_of sha3 x (tx # txs) \<le> bal m x \<and> bal m x + credits_of x (tx # txs) < 2 ^ 64"
    using assms by (simp only: covered_def)
  then show "debits_of sha3 x txs \<le> bal m x \<and> bal m x + credits_of x txs < 2 ^ 64"
    by (simp add: debits_of_Cons credits_of_Cons)
qed

lemma unflash_effects_holds:
  assumes "holds sha3 (kept @ txs) m m'" "covered sha3 (kept @ txs) m" "\<forall>x. fresh_block bh (m x)"
    and "\<forall>x. recent_flashes (m' x) = recent_flashes (m x) @ (if x \<in> seen then [] else entries_of sha3 bh x txs)"
  shows "holds sha3 (kept @ repeats sha3 seen txs) m (unflash_effects sha3 bh txs m') \<and>
    (\<forall>x. recent_flashes (unflash_effects sha3 bh txs m' x) = recent_flashes (m x))"
  using assms
proof (induction txs arbitrary: kept seen m')
  case Nil
  then show ?case by (auto simp: unflash_effects_def)
next
  case (Cons tx txs)
  let ?s = "sender_of sha3 tx" and ?r = "recipient_of tx"
  show ?case
  proof (cases "?s \<in> seen")
    case True
    then have "unflash_effect sha3 bh tx m' = m'"
      using Cons(4,5) by (simp add: unflash_effect_def reorg_block_flashes_def fresh_filter)
    moreover have "holds sha3 ((kept @ [tx]) @ repeats sha3 seen txs) m (unflash_effects sha3 bh txs m') \<and>
        (\<forall>x. recent_flashes (unflash_effects sha3 bh txs m' x) = recent_flashes (m x))"
      using Cons(2-5) True by (intro Cons(1)) auto
    ultimately show ?thesis using True by (simp add: unflash_effects_def)
  next
    case False
    let ?n = "m'(?s := (m' ?s)\<lparr>recent_flashes := recent_flashes (m ?s)\<rparr>)"
    have r: "reorg_block_flashes bh (m' ?s) = (True, ?n ?s)"
      using Cons(4,5) False by (simp add: reorg_block_flashes_def fresh_filter entries_of_block)
    let ?u = "unflash_effect sha3 bh tx m'"
    have u: "?u = (let n' = ?n(?s := credit (sat_add64 (fl_amount tx) (fl_fee tx)) (?n ?s))
        in n'(?r := uncredit (fl_amount tx) (n' ?r)))"
      using r by (simp add: unflash_effect_def Let_def)
    have c: "covered sha3 (tx # kept @ txs) m" using Cons(3) by (simp add: covered_def moved_middle)
    have "holds sha3 (tx # kept @ txs) m m'" using Cons(2) unfolding holds_def moved_middle .
    then have h: "holds sha3 (kept @ txs) m ?u"
      unfolding u using c by (rule holds_undo) simp
    have "recent_flashes (?u x) = recent_flashes (m x) @ (if x \<in> insert ?s seen then [] else entries_of sha3 bh x txs)" for x
      unfolding u using Cons(5) False by (auto simp: Let_def credit_def uncredit_def)
    then have "holds sha3 (kept @ repeats sha3 (insert ?s seen) txs) m (unflash_effects sha3 bh txs ?u) \<and>
        (\<forall>x. recent_flashes (unflash_effects sha3 bh txs ?u x) = recent_flashes (m x))"
      using Cons(4) h covered_tl [OF c] by (intro Cons(1)) blast+
    then show ?thesis using False by (simp add: unflash_effects_def)
  qed
qed

lemma flash_effects_holds: "covered sha3 txs m \<Longrightarrow> holds sha3 txs m (flash_effects sha3 bh txs m)"
  by (simp add: holds_def flash_effects_balances)

text \<open>Applying and disconnecting a block on the store of accounts.\<close>

lemma apply_then_reorg:
  assumes "roomy K st" "flash_ready sha3 K txs" "covered sha3 txs (db_accts st)" "\<forall>x. fresh_block bh (db_accts st x)"
  shows "\<exists>st1 st2. apply_flash_list sha3 (db_bank rnd) bh txs st = Some st1 \<and>
    reorg_flash_block sha3 (db_bank rnd) bh txs st1 = Some st2 \<and>
    holds sha3 (repeats sha3 {} txs) (db_accts st) (db_accts st2) \<and>
    (\<forall>x. recent_flashes (db_accts st2 x) = recent_flashes (db_accts st x))"
proof -
  obtain st1 where st1: "apply_flash_list sha3 (db_bank rnd) bh txs st = Some st1" "roomy K st1"
    "db_accts st1 = flash_effects sha3 bh txs (db_accts st)"
    using db.apply_flash_list_spec [OF assms(1,2)] by blast
  obtain st2 where st2: "reorg_flash_block sha3 (db_bank rnd) bh txs st1 = Some st2"
    "db_accts st2 = unflash_effects sha3 bh txs (db_accts st1)"
    using db.reorg_flash_block_spec [OF st1(2) assms(2)] by blast
  have "holds sha3 ([] @ repeats sha3 {} txs) (db_accts st) (unflash_effects sha3 bh txs (db_accts st1)) \<and>
      (\<forall>x. recent_flashes (unflash_effects sha3 bh txs (db_accts st1) x) = recent_flashes (db_accts st x))"
    using assms(3,4) st1(3) by (intro unflash_effects_holds) (simp_all add: flash_effects_holds flash_effects_entries)
  then show ?thesis using st1(1) st2 by auto
qed

text \<open>
  C24: Disconnecting a block undoes it when every account spends at most once in it.  With no debit
  beyond the balance before the block (as batch validation demands), no credit overflowing, and no
  entry of the block before it was applied, applying the flash transactions of a block and then
  disconnecting them returns every account, with its balance and its list of recent flash
  transactions, to what it was; also when the transactions feed each other, and although they are
  undone in the order in which they were applied.
\<close>

theorem flash_reorg_restores:
  assumes "roomy K st" "flash_ready sha3 K txs" "covered sha3 txs (db_accts st)" "\<forall>x. fresh_block bh (db_accts st x)"
    and "distinct (map (sender_of sha3) txs)"
  shows "\<exists>st1 st2. apply_flash_list sha3 (db_bank rnd) bh txs st = Some st1 \<and>
    reorg_flash_block sha3 (db_bank rnd) bh txs st1 = Some st2 \<and> db_accts st2 = db_accts st"
proof -
  obtain st1 st2 where st: "apply_flash_list sha3 (db_bank rnd) bh txs st = Some st1"
    "reorg_flash_block sha3 (db_bank rnd) bh txs st1 = Some st2"
    "holds sha3 (repeats sha3 {} txs) (db_accts st) (db_accts st2)"
    "\<And>x. recent_flashes (db_accts st2 x) = recent_flashes (db_accts st x)"
    using apply_then_reorg [OF assms(1-4), of rnd] by blast
  have "bal (db_accts st2) x = bal (db_accts st) x" for x
    using st(3) repeats_distinct [OF assms(5), of "{}"] by (simp add: holds_def debits_of_def credits_of_def)
  then have "db_accts st2 = db_accts st"
    using st(4) by (intro ext account_state.equality) (simp_all add: word_unat_eq_iff)
  then show ?thesis using st(1,2) by blast
qed

theorem flash_reorg_restores_witness:
  "\<exists>st1 st2. apply_flash_list demo_sha (db_bank (\<lambda>_ _. 0)) hash_default [demo_flash 1 2 300] demo_accounts = Some st1 \<and>
    reorg_flash_block demo_sha (db_bank (\<lambda>_ _. 0)) hash_default [demo_flash 1 2 300] st1 = Some st2 \<and>
    db_accts st2 = db_accts demo_accounts"
proof (rule flash_reorg_restores [where K = "demo_spk ` {1, 2}"])
  show "roomy (demo_spk ` {1, 2}) demo_accounts" by (rule roomy_demo) simp_all
  show "flash_ready demo_sha (demo_spk ` {1, 2}) [demo_flash 1 2 300]"
    by (simp only: demo_ready) simp
  show "covered demo_sha [demo_flash 1 2 300] (db_accts demo_accounts)" by (auto simp: demo_covered debits_of_Cons credits_of_Cons)
qed (simp_all add: demo_fresh)

text \<open>
  C25: Disconnecting a block undoes only the first flash transaction of every sender: the first one
  removes all entries of the block from the sender's account, so that the later ones find none and
  are skipped.  Under the hypotheses of the previous property, but for any senders, the balances
  afterwards are those before the block changed by exactly the repeated transactions, which stay
  paid, while no entry remains that would keep them from being applied again.
\<close>

theorem flash_reorg_repeats:
  assumes "roomy K st" "flash_ready sha3 K txs" "covered sha3 txs (db_accts st)" "\<forall>x. fresh_block bh (db_accts st x)"
  shows "\<exists>st1 st2. apply_flash_list sha3 (db_bank rnd) bh txs st = Some st1 \<and>
    reorg_flash_block sha3 (db_bank rnd) bh txs st1 = Some st2 \<and>
    (\<forall>x. bal (db_accts st2) x + debits_of sha3 x (repeats sha3 {} txs) =
           bal (db_accts st) x + credits_of x (repeats sha3 {} txs) \<and>
         recent_flashes (db_accts st2 x) = recent_flashes (db_accts st x))"
  using apply_then_reorg [OF assms, of rnd] by (simp add: holds_def) blast

theorem flash_reorg_repeats_witness:
  "\<exists>st1 st2. apply_flash_list demo_sha (db_bank (\<lambda>_ _. 0)) hash_default [demo_flash 1 2 300, demo_flash 1 3 700] demo_accounts = Some st1 \<and>
    reorg_flash_block demo_sha (db_bank (\<lambda>_ _. 0)) hash_default [demo_flash 1 2 300, demo_flash 1 3 700] st1 = Some st2 \<and>
    bal (db_accts st2) (demo_spk 1) = 3300 \<and> bal (db_accts st2) (demo_spk 3) = 700"
proof -
  let ?txs = "[demo_flash 1 2 300, demo_flash 1 3 700]"
  have "roomy (demo_spk ` {1, 2, 3}) demo_accounts" by (rule roomy_demo) simp_all
  moreover have "flash_ready demo_sha (demo_spk ` {1, 2, 3}) ?txs" by (simp only: demo_ready) simp
  moreover have "covered demo_sha ?txs (db_accts demo_accounts)" by (auto simp: demo_covered debits_of_Cons credits_of_Cons)
  ultimately obtain st1 st2 where st: "apply_flash_list demo_sha (db_bank (\<lambda>_ _. 0)) hash_default ?txs demo_accounts = Some st1"
    "reorg_flash_block demo_sha (db_bank (\<lambda>_ _. 0)) hash_default ?txs st1 = Some st2"
    "\<And>x. bal (db_accts st2) x + debits_of demo_sha x (repeats demo_sha {} ?txs) =
      bal (db_accts demo_accounts) x + credits_of x (repeats demo_sha {} ?txs)"
    using flash_reorg_repeats [of _ demo_accounts demo_sha ?txs hash_default "\<lambda>_ _. 0"] demo_fresh by blast
  then have "bal (db_accts st2) (demo_spk 1) = 3300" "bal (db_accts st2) (demo_spk 3) = 700"
    using st(3) [of "demo_spk 1"] st(3) [of "demo_spk 3"]
    by (simp_all add: debits_of_Cons credits_of_Cons demo_balance)
  then show ?thesis using st(1,2) by blast
qed

text \<open>
  Applying a block whose only accepted flash transaction is the second one, and disconnecting both.
\<close>

lemma reorg_removed: "e \<in> set (recent_flashes a) \<Longrightarrow> fe_block_hash e = bh \<Longrightarrow> fst (reorg_block_flashes bh a)"
  by (auto simp: reorg_block_flashes_def Let_def intro: length_filter_less)

lemma unflash_unapplied:
  assumes "fresh_block bh (m A)" "A = sender_of sha3 good" "A = sender_of sha3 bad"
    and "recipient_of bad \<noteq> A" "recipient_of good \<noteq> A" "recipient_of bad \<noteq> recipient_of good"
    and "debit_of good \<le> bal m A" "bal m A + debit_of bad < 2 ^ 64" "bal m (recipient_of good) + unat (fl_amount good) < 2 ^ 64"
    and n: "\<And>x. acc_balance (n x) = acc_balance (flash_effect sha3 bh good m x)"
    and r: "fst (reorg_block_flashes bh (n A))"
  shows "bal (unflash_effects sha3 bh [bad, good] n) A + debit_of good = bal m A + debit_of bad \<and>
    bal (unflash_effects sha3 bh [bad, good] n) (recipient_of good) = bal m (recipient_of good) + unat (fl_amount good) \<and>
    bal (unflash_effects sha3 bh [bad, good] n) (recipient_of bad) = bal m (recipient_of bad) - unat (fl_amount bad)"
proof -
  have bals: "bal n A + debit_of good = bal m A" "bal n (recipient_of good) = bal m (recipient_of good) + unat (fl_amount good)"
    "bal n (recipient_of bad) = bal m (recipient_of bad)"
    using bal_flash_effect [of good m sha3 bh A] bal_flash_effect [of good m sha3 bh "recipient_of good"]
      bal_flash_effect [of good m sha3 bh "recipient_of bad"] assms(2-9) by (simp_all add: n)
  let ?u = "unflash_effect sha3 bh bad n"
  obtain a where a: "reorg_block_flashes bh (n A) = (True, a)" "acc_balance a = acc_balance (n A)"
    "filter (\<lambda>e. fe_block_hash e \<noteq> bh) (recent_flashes a) = recent_flashes a"
    using r by (auto simp: reorg_block_flashes_def Let_def)
  have u: "?u = n(A := credit (sat_add64 (fl_amount bad) (fl_fee bad)) a,
      recipient_of bad := uncredit (fl_amount bad) (n (recipient_of bad)))"
    using a(1) assms(3,4) by (simp add: unflash_effect_def Let_def)
  have "\<not> fst (reorg_block_flashes bh (?u A))"
    using a(3) assms(4) by (simp add: u reorg_block_flashes_def credit_def)
  then have "unflash_effects sha3 bh [bad, good] n = ?u"
    using assms(2) by (auto simp: unflash_effects_def unflash_effect_def [of _ _ good] split: prod.split)
  moreover have d: "unat (sat_add64 (fl_amount bad) (fl_fee bad)) = debit_of bad"
    using assms(8) by (simp add: unat_sat_add64 debit_of_def)
  have "unat (sat_add64 (acc_balance (n A)) (sat_add64 (fl_amount bad) (fl_fee bad))) = bal n A + debit_of bad"
    using bals(1) assms(8) by (subst unat_credit) (simp_all add: d)
  ultimately show ?thesis
    using bals a(2) assms(4-6) by (simp add: u credit_def uncredit_def unat_sat_sub64)
qed

text \<open>
  C26: Disconnecting a block can refund payments that were never made.  Connecting a block drops the
  expired flash transactions, but disconnecting it unwinds all of them.  When a block holds an expired
  transaction and a valid one of the same sender (the expired one needs no valid signature, as none is
  checked), then connecting and disconnecting the block credits the sender with the amount and the
  fee of the expired transaction, takes that amount from the expired transaction's recipient, as far
  as it has it, and leaves the payment of the valid transaction made.
\<close>

theorem flash_reorg_mints:
  assumes "roomy K st" "List.map_filter from_transaction txs = [bad, good]" "flash_ready sha3 K [bad, good]"
    and "sender_of sha3 bad = A" "sender_of sha3 good = A" "flash_id sha3 bad \<noteq> flash_id sha3 good"
    and "recipient_of bad \<noteq> A" "recipient_of good \<noteq> A" "recipient_of bad \<noteq> recipient_of good"
    and "daa > fl_expiry_daa_score bad" "daa \<le> fl_expiry_daa_score good" "FLASH_MIN_FEE_KANA \<le> fl_fee good"
    and "\<not> is_flash_replay (flash_id sha3 good) (db_accts st A)" "vrf (fl_pubkey good) (fl_signature good) (flash_sighash sha3 good)"
    and "debit_of good \<le> bal (db_accts st) A" "bal (db_accts st) A + debit_of bad < 2 ^ 64"
      "bal (db_accts st) (recipient_of good) + unat (fl_amount good) < 2 ^ 64" "fresh_block bh (db_accts st A)"
  shows "\<exists>st1 st2. flash_apply_hook sha3 vrf (db_bank rnd) bh daa txs st = Some st1 \<and>
    flash_reorg_hook sha3 (db_bank rnd) bh txs st1 = Some st2 \<and>
    bal (db_accts st2) A + debit_of good = bal (db_accts st) A + debit_of bad \<and>
    bal (db_accts st2) (recipient_of good) = bal (db_accts st) (recipient_of good) + unat (fl_amount good) \<and>
    bal (db_accts st2) (recipient_of bad) = bal (db_accts st) (recipient_of bad) - unat (fl_amount bad)"
proof -
  let ?b = "db_bank rnd"
  have AK: "A \<in> K" "recipient_of good \<in> K" using assms(3,5) by (auto simp: flash_ready_def)
  obtain s1 where "validate_flash_batch sha3 vrf ?b [good] daa st = (Inr [good], s1)"
    using db.validate_single [OF assms(1), of sha3 good daa vrf rnd] assms AK by auto
  then have v: "validate_flash_batch sha3 vrf ?b [bad, good] daa st = (Inr [good], s1)"
    using db.validate_expired assms(6,10) by blast
  then have s1: "roomy K s1" "db_accts s1 = db_accts st"
    using db.validate_flash_batch_spec [OF assms(1) _ v] assms(4,5) AK by auto
  have "flash_ready sha3 K [good]" using assms(3) by (simp add: flash_ready_def)
  then obtain s2 where s2: "apply_flash_list sha3 ?b bh [good] s1 = Some s2" "roomy K s2"
    "db_accts s2 = flash_effect sha3 bh good (db_accts st)"
    using db.apply_flash_list_spec [OF s1(1)] s1(2) by (force simp: flash_effects_def)
  let ?aff = "affected_spks sha3 [good]"
  obtain s3 where s3: "s3 = prune_flashes_for_accounts ?b ?aff daa s2" by simp
  have p: "roomy K s3" "db_accts s3 = (\<lambda>x. if x \<in> set ?aff then prune_recent_flashes daa (db_accts s2 x) else db_accts s2 x)"
    using db.prune_spec [OF s2(2), of ?aff rnd daa] assms(5) AK s3 by (auto simp: affected_spks_def)
  have ap: "flash_apply_hook sha3 vrf ?b bh daa txs st = Some s3"
    using v s2(1) assms(2) s3 by (simp add: flash_apply_hook_def del: apply_flash_list.simps)
  obtain s4 where s4: "flash_reorg_hook sha3 ?b bh txs s3 = Some s4"
    "db_accts s4 = unflash_effects sha3 bh [bad, good] (db_accts s3)"
    using db.reorg_flash_block_spec [OF p(1) assms(3), of rnd bh] assms(2) by (auto simp: flash_reorg_hook_def)
  have "0 < unat daa" using assms(10) by (simp add: word_less_nat_alt)
  then have "sat_sub64 daa FLASH_PRUNE_BUFFER < fl_expiry_daa_score good"
    using assms(11) by (simp add: word_less_nat_alt word_le_nat_alt unat_sat_sub64 FLASH_PRUNE_BUFFER_def)
  then have r: "fst (reorg_block_flashes bh (db_accts s3 A))"
    using assms(5,8) p(2) s2(3) by (intro reorg_removed [of "\<lparr> fe_flash_id = flash_id sha3 good,
        fe_expiry_daa_score = fl_expiry_daa_score good, fe_block_hash = bh \<rparr>"])
      (simp_all add: affected_spks_def prune_recent_flashes_def Let_def flash_effect_def debit_flash_def record_flash_def)
  have n: "acc_balance (db_accts s3 x) = acc_balance (flash_effect sha3 bh good (db_accts st) x)" for x
    using p(2) s2(3) by (simp add: prune_recent_flashes_def Let_def)
  show ?thesis
    using ap s4(1) unflash_unapplied [OF assms(18) assms(5) [symmetric] assms(4) [symmetric] assms(7-9,15-17) n r] s4(2)
    by auto
qed

theorem flash_reorg_mints_witness:
  "\<exists>st1 st2. let txs = [to_transaction ((demo_flash 1 2 900)\<lparr>fl_expiry_daa_score := 1\<rparr>), to_transaction (demo_flash 1 3 300)] in
    flash_apply_hook demo_sha (\<lambda>_ _ _. True) (db_bank (\<lambda>_ _. 0)) hash_default 5 txs demo_accounts = Some st1 \<and>
    flash_reorg_hook demo_sha (db_bank (\<lambda>_ _. 0)) hash_default txs st1 = Some st2 \<and>
    bal (db_accts st2) (demo_spk 1) = 5600 \<and> bal (db_accts st2) (demo_spk 3) = 300"
proof -
  let ?bad = "(demo_flash 1 2 900)\<lparr>fl_expiry_daa_score := 1\<rparr>" and ?good = "demo_flash 1 3 300"
  let ?txs = "[to_transaction ?bad, to_transaction ?good]" and ?b = "db_bank (\<lambda>_ _. 0)"
  have bad: "sender_of demo_sha ?bad = demo_spk 1" "recipient_of ?bad = demo_spk 2" "debit_of ?bad = 1900"
    using demo_flash_ends [of 1 2 900] by (simp_all add: recipient_of_def debit_of_def)
  have "wf_flash ?bad" "wf_flash ?good" by (simp_all add: wf_flash_def demo_flash_def)
  then have txs: "List.map_filter from_transaction ?txs = [?bad, ?good]"
    by (simp add: map_filter_simps from_to_transaction)
  have ready: "flash_ready demo_sha (demo_spk ` {1, 2, 3}) [?bad, ?good]"
    using bad by (simp add: flash_ready_def) (simp add: demo_flash_def)
  have room: "roomy (demo_spk ` {1, 2, 3}) demo_accounts" by (rule roomy_demo) simp_all
  have ids: "flash_id demo_sha ?bad \<noteq> flash_id demo_sha ?good"
    by (simp add: flash_id_def demo_sha_def flash_preimage_def demo_flash_def ascii_def)
  have "\<exists>st1 st2. flash_apply_hook demo_sha (\<lambda>_ _ _. True) ?b hash_default 5 ?txs demo_accounts = Some st1 \<and>
    flash_reorg_hook demo_sha ?b hash_default ?txs st1 = Some st2 \<and>
    bal (db_accts st2) (demo_spk 1) + debit_of ?good = bal (db_accts demo_accounts) (demo_spk 1) + debit_of ?bad \<and>
    bal (db_accts st2) (recipient_of ?good) = bal (db_accts demo_accounts) (recipient_of ?good) + unat (fl_amount ?good) \<and>
    bal (db_accts st2) (recipient_of ?bad) = bal (db_accts demo_accounts) (recipient_of ?bad) - unat (fl_amount ?bad)"
    using ids bad by (intro flash_reorg_mints [OF room txs ready])
      (simp_all add: fresh_block_def FLASH_MIN_FEE_KANA_def is_flash_replay_def demo_accts account_state_new_def account_default_def)
  then show ?thesis by (auto simp: bad demo_balance Let_def)
qed

end
