(* ===== verification/Account_Changes.thy ===== *)
theory Account_Changes
  imports Block_Body Flash_Blocks Smt_Correct
begin

text \<open>
  The account commitment of a block (\<open>virtual_processor/account_changes.rs\<close>): the effects of a
  block on the accounts, their entry into the sparse Merkle tree, and proofs for light clients.
  The store of account states and the iteration order of the hash map are parameters.
\<close>

section \<open>Definitions\<close>

text \<open>The errors of the state store other than a missing key are one case.\<close>

datatype store_failure = NoSuchKey | OtherFailure

datatype account_error = SmtFailure smt_error | StoreFailure store_failure

type_synonym states_reader = "h256 \<Rightarrow> (store_failure, account_state) result"
type_synonym touched_accounts = "(script_public_key \<times> account_state) list"

definition account_key_hash :: "sponge \<Rightarrow> script_public_key \<Rightarrow> h256" where
  "account_key_hash P spk = hash_key P (u16_to_le (spk_version spk) @ spk_script spk)"

definition read_account_state ::
    "sponge \<Rightarrow> 's node_store \<Rightarrow> states_reader \<Rightarrow> h256 \<Rightarrow> 's \<Rightarrow> script_public_key \<Rightarrow> (account_error, account_state) result" where
  "read_account_state P ops states root s spk =
     (case smt_get ops s root (account_key_hash P spk) of
        Inl e \<Rightarrow> Inl (SmtFailure e)
      | Inr None \<Rightarrow> Inr account_default
      | Inr (Some state_hash) \<Rightarrow>
          (case states state_hash of
             Inr state \<Rightarrow> Inr state
           | Inl NoSuchKey \<Rightarrow> Inr account_default
           | Inl OtherFailure \<Rightarrow> Inl (StoreFailure OtherFailure)))"

definition touch :: "(script_public_key \<Rightarrow> (account_error, account_state) result) \<Rightarrow> script_public_key \<Rightarrow> touched_accounts \<Rightarrow>
    (account_error, touched_accounts) result" where
  "touch rd spk touched =
     (if map_of touched spk \<noteq> None then Inr touched
      else rbind (rd spk) (\<lambda>a. Inr (touched @ [(spk, a)])))"

definition modify :: "script_public_key \<Rightarrow> (account_state \<Rightarrow> account_state) \<Rightarrow> touched_accounts \<Rightarrow> touched_accounts" where
  "modify spk f touched = map (\<lambda>(k, a). (k, if k = spk then f a else a)) touched"

text \<open>\<open>None\<close> is the assertion on the length of a recipient.  The block hash of the entries is the default.\<close>

fun touch_flashes ::
    "(bytes \<Rightarrow> hash) \<Rightarrow> (script_public_key \<Rightarrow> (account_error, account_state) result) \<Rightarrow> flash_transaction list \<Rightarrow>
     touched_accounts \<Rightarrow> (account_error, touched_accounts) result option" where
  "touch_flashes sha3 rd [] touched = Some (Inr touched)"
| "touch_flashes sha3 rd (tx # txs) touched =
     (let sender_spk = flash_pubkey_to_spk sha3 (fl_pubkey tx) in
      case hash20_to_p2pkh_spk (fl_recipient tx) of
        None \<Rightarrow> None
      | Some recipient_spk \<Rightarrow>
          and_then (Some (touch rd sender_spk touched)) (\<lambda>touched.
          and_then (Some (touch rd recipient_spk touched)) (\<lambda>touched.
          let total_debit = sat_add64 (fl_amount tx) (fl_fee tx);
              touched = modify sender_spk (\<lambda>sender. sender\<lparr>
                acc_balance := sat_sub64 (acc_balance sender) total_debit,
                recent_flashes := recent_flashes sender @
                  [\<lparr>fe_flash_id = flash_id sha3 tx, fe_expiry_daa_score = fl_expiry_daa_score tx, fe_block_hash = ZERO_HASH\<rparr>]\<rparr>) touched;
              touched = modify recipient_spk (\<lambda>recipient. recipient\<lparr>
                acc_balance := sat_add64 (acc_balance recipient) (fl_amount tx)\<rparr>) touched
          in touch_flashes sha3 rd txs touched)))"

fun touch_rewards ::
    "(script_public_key \<Rightarrow> (account_error, account_state) result) \<Rightarrow> (script_public_key \<times> u64) list \<Rightarrow>
     touched_accounts \<Rightarrow> (account_error, touched_accounts) result" where
  "touch_rewards rd [] touched = Inr touched"
| "touch_rewards rd ((miner_spk, amount) # rewards) touched =
     rbind (touch rd miner_spk touched) (\<lambda>touched.
       touch_rewards rd rewards
         (modify miner_spk (\<lambda>miner. miner\<lparr>acc_balance := sat_add64 (acc_balance miner) amount\<rparr>) touched))"

definition leaf_of :: "(bytes \<Rightarrow> hash) \<Rightarrow> account_state \<Rightarrow> h256 option" where
  "leaf_of sha3 a = (if is_empty_account a then None else Some (content_hash sha3 a))"

definition compute_block_account_changes ::
    "sponge \<Rightarrow> (bytes \<Rightarrow> hash) \<Rightarrow> (touched_accounts \<Rightarrow> touched_accounts) \<Rightarrow> h256 \<Rightarrow> 's node_store \<Rightarrow> states_reader \<Rightarrow>
     flash_transaction list \<Rightarrow> (script_public_key \<times> u64) list \<Rightarrow> u64 \<Rightarrow> 's \<Rightarrow>
     ((account_error, h256 \<times> touched_accounts) result \<times> 's) option" where
  "compute_block_account_changes P sha3 iter parent_root ops states flash_txs rewards daa_score s =
     (let rd = read_account_state P ops states parent_root s in
      case and_then (touch_flashes sha3 rd flash_txs []) (\<lambda>touched. Some (touch_rewards rd rewards touched)) of
        None \<Rightarrow> None
      | Some (Inl e) \<Rightarrow> Some (Inl e, s)
      | Some (Inr touched) \<Rightarrow>
          (let touched = iter (map (\<lambda>(k, a). (k, prune_recent_flashes daa_score a)) touched) in
           Some (case update_many ops parent_root (map (\<lambda>(spk, a). (account_key_hash P spk, leaf_of sha3 a)) touched) s of
                   (Inl e, s') \<Rightarrow> (Inl (SmtFailure e), s')
                 | (Inr root, s') \<Rightarrow> (Inr (root, touched), s'))))"

text \<open>\<open>hex\<close> decodes a hexadecimal text into a given number of bytes.\<close>

definition treasury_spk_from_hex :: "(string \<Rightarrow> nat \<Rightarrow> bytes option) \<Rightarrow> string \<Rightarrow> script_public_key option" where
  "treasury_spk_from_hex hex txt =
     (if txt = [] then None
      else map_option (\<lambda>bs. \<lparr>spk_version = 0, spk_script = bs\<rparr>) (hex txt 1952))"

definition coinbase_rewards ::
    "(string \<Rightarrow> nat \<Rightarrow> bytes option) \<Rightarrow> coinbase_manager \<Rightarrow> string \<Rightarrow> transaction \<Rightarrow> (script_public_key \<times> u64) list" where
  "coinbase_rewards hex cm treasury_hex cb_tx =
     (case deserialize_coinbase_payload cm (tx_payload cb_tx) of
        Inl _ \<Rightarrow> []
      | Inr cb \<Rightarrow>
          (let tot = cb_subsidy cb in
           if tot > 0
           then let dev_fee = (if treasury_hex = [] then 0 else tot div 20);
                    miner_reward = tot - dev_fee
                in (md_script_public_key (cb_miner_data cb), miner_reward) #
                   (if dev_fee > 0
                    then (case treasury_spk_from_hex hex treasury_hex of Some spk \<Rightarrow> [(spk, dev_fee)] | None \<Rightarrow> [])
                    else [])
           else []))"

definition extract_block_effects ::
    "(string \<Rightarrow> nat \<Rightarrow> bytes option) \<Rightarrow> coinbase_manager \<Rightarrow> string \<Rightarrow> transaction list \<Rightarrow>
     flash_transaction list \<times> (script_public_key \<times> u64) list" where
  "extract_block_effects hex cm treasury_hex txs =
     (case txs of
        [] \<Rightarrow> ([], [])
      | cb_tx # rest \<Rightarrow> (List.map_filter from_transaction rest, coinbase_rewards hex cm treasury_hex cb_tx))"

subsection \<open>Proofs of accounts\<close>

datatype account_proof_terminal = APT_Empty | APT_Leaf h256 h256

record account_proof_flash_entry =
  apf_flash_id :: hash
  apf_expiry_daa_score :: u64

record account_proof_state =
  aps_balance :: u64
  aps_recent_flashes :: "account_proof_flash_entry list"

record account_proof_payload =
  app_siblings :: "h256 list"
  app_terminal :: account_proof_terminal

record account_proof =
  ap_block_hash :: hash
  ap_account_root :: hash
  ap_key :: h256
  ap_proof :: account_proof_payload
  ap_state :: "account_proof_state option"
  ap_state_hash :: h256

definition proof_state :: "account_state \<Rightarrow> account_proof_state" where
  "proof_state a = \<lparr>aps_balance = acc_balance a,
     aps_recent_flashes = map (\<lambda>f. \<lparr>apf_flash_id = fe_flash_id f, apf_expiry_daa_score = fe_expiry_daa_score f\<rparr>) (recent_flashes a)\<rparr>"

definition prove_account ::
    "sponge \<Rightarrow> 's node_store \<Rightarrow> states_reader \<Rightarrow> h256 \<Rightarrow> 's \<Rightarrow> script_public_key \<Rightarrow> (account_error, account_proof) result" where
  "prove_account P ops states root s spk =
     (let key = account_key_hash P spk in
      case prove ops s root key of
        Inl e \<Rightarrow> Inl (SmtFailure e)
      | Inr p \<Rightarrow>
          (let (state, state_hash) =
             (case terminal_of p of
                TermEmpty \<Rightarrow> (None, ZERO_HASH)
              | TermLeaf leaf_key v \<Rightarrow>
                  if leaf_key \<noteq> key then (None, ZERO_HASH)
                  else (case states v of Inr a \<Rightarrow> (Some (proof_state a), v) | Inl _ \<Rightarrow> (None, v)))
           in Inr \<lparr>ap_block_hash = ZERO_HASH, ap_account_root = root, ap_key = key,
                ap_proof = \<lparr>app_siblings = siblings p,
                  app_terminal = (case terminal_of p of TermEmpty \<Rightarrow> APT_Empty | TermLeaf k v \<Rightarrow> APT_Leaf k v)\<rparr>,
                ap_state = state, ap_state_hash = state_hash\<rparr>))"


section \<open>The effects of a block on accounts\<close>

definition reward_effects :: "(script_public_key \<times> u64) list \<Rightarrow> (script_public_key \<Rightarrow> account_state) \<Rightarrow> script_public_key \<Rightarrow> account_state" where
  "reward_effects rewards m = fold (\<lambda>(k, n) m. m(k := credit n (m k))) rewards m"

definition parties :: "(bytes \<Rightarrow> hash) \<Rightarrow> flash_transaction list \<Rightarrow> (script_public_key \<times> u64) list \<Rightarrow> script_public_key set" where
  "parties sha3 txs rewards = (\<Union>tx\<in>set txs. {sender_of sha3 tx, recipient_of tx}) \<union> fst ` set rewards"

definition block_effects ::
    "(bytes \<Rightarrow> hash) \<Rightarrow> flash_transaction list \<Rightarrow> (script_public_key \<times> u64) list \<Rightarrow> u64 \<Rightarrow>
     (script_public_key \<Rightarrow> account_state) \<Rightarrow> script_public_key \<Rightarrow> account_state" where
  "block_effects sha3 txs rewards daa m k =
     (let m' = reward_effects rewards (flash_effects sha3 ZERO_HASH txs m)
      in if k \<in> parties sha3 txs rewards then prune_recent_flashes daa (m' k) else m k)"

text \<open>The touched accounts have their current state, the others are as they are read.\<close>

definition tracks :: "(script_public_key \<Rightarrow> account_state) \<Rightarrow> touched_accounts \<Rightarrow> (script_public_key \<Rightarrow> account_state) \<Rightarrow> bool" where
  "tracks m0 touched m \<longleftrightarrow> distinct (map fst touched) \<and>
     (\<forall>k. m k = (case map_of touched k of Some a \<Rightarrow> a | None \<Rightarrow> m0 k))"

lemma tracks_touch:
  assumes "tracks m0 touched m" "\<And>k. rd k = Inr (m0 k)"
  shows "\<exists>touched'. touch rd k touched = Inr touched' \<and> tracks m0 touched' m \<and>
    fst ` set touched' = insert k (fst ` set touched)"
proof (cases "map_of touched k")
  case None
  then have "k \<notin> fst ` set touched" by (simp add: map_of_eq_None_iff)
  then show ?thesis
    using assms None by (intro exI [of _ "touched @ [(k, m0 k)]"])
      (auto simp: touch_def tracks_def map_add_def split: option.splits)
next
  case (Some a)
  then have "k \<in> fst ` set touched" by (metis map_of_eq_None_iff option.distinct(1))
  then show ?thesis using assms(1) Some by (auto simp: touch_def)
qed

lemma map_fst_modify: "map fst (modify k f touched) = map fst touched"
  by (auto simp: modify_def)

lemma map_of_modify: "map_of (modify k f touched) x = map_option (if x = k then f else id) (map_of touched x)"
  by (induction touched) (auto simp: modify_def)

lemma tracks_modify:
  assumes "tracks m0 touched m" "k \<in> fst ` set touched"
  shows "tracks m0 (modify k f touched) (m(k := f (m k)))" "fst ` set (modify k f touched) = fst ` set touched"
proof -
  have "fst ` set (modify k f touched) = set (map fst (modify k f touched))" by simp
  then show "fst ` set (modify k f touched) = fst ` set touched" by (simp only: map_fst_modify set_map)
  obtain a where "map_of touched k = Some a" using assms(2) by (metis map_of_eq_None_iff option.exhaust)
  then show "tracks m0 (modify k f touched) (m(k := f (m k)))"
    using assms(1) by (auto simp: tracks_def map_fst_modify map_of_modify split: option.splits)
qed

lemma touch_flashes_ok:
  assumes "\<And>k. rd k = Inr (m0 k)"
  shows "tracks m0 touched m \<Longrightarrow> \<forall>tx\<in>set txs. 20 \<le> length (fl_recipient tx) \<Longrightarrow>
    \<exists>touched'. touch_flashes sha3 rd txs touched = Some (Inr touched') \<and>
      tracks m0 touched' (flash_effects sha3 ZERO_HASH txs m) \<and>
      fst ` set touched' = fst ` set touched \<union> (\<Union>tx\<in>set txs. {sender_of sha3 tx, recipient_of tx})"
proof (induction txs arbitrary: touched m)
  case (Cons tx txs)
  let ?s = "sender_of sha3 tx" and ?r = "recipient_of tx"
  obtain t1 where t1: "touch rd ?s touched = Inr t1" "tracks m0 t1 m" "fst ` set t1 = insert ?s (fst ` set touched)"
    using tracks_touch [OF Cons.prems(1) assms] by blast
  obtain t2 where t2: "touch rd ?r t1 = Inr t2" "tracks m0 t2 m" "fst ` set t2 = insert ?r (fst ` set t1)"
    using tracks_touch [OF t1(2) assms] by blast
  define t3 where "t3 = modify ?s (debit_flash sha3 tx ZERO_HASH) t2"
  define t4 where "t4 = modify ?r (credit (fl_amount tx)) t3"
  have "?s \<in> fst ` set t2" using t1(3) t2(3) by simp
  note t3 = tracks_modify [OF t2(2) this, of "debit_flash sha3 tx ZERO_HASH", folded t3_def]
  have "?r \<in> fst ` set t3" using t2(3) t3(2) by simp
  note t4 = tracks_modify [OF t3(1) this, of "credit (fl_amount tx)", folded t4_def]
  have step: "touch_flashes sha3 rd (tx # txs) touched = touch_flashes sha3 rd txs t4"
    using hash20_recipient [of tx] Cons.prems(2) t1(1) t2(1)
    by (simp add: Let_def and_then_def t4_def t3_def debit_flash_def [abs_def] credit_def [abs_def] record_flash_def)
  have m: "(m(?s := debit_flash sha3 tx ZERO_HASH (m ?s)))(?r := credit (fl_amount tx) ((m(?s := debit_flash sha3 tx ZERO_HASH (m ?s))) ?r)) =
      flash_effect sha3 ZERO_HASH tx m"
    by (simp add: flash_effect_def Let_def)
  from Cons.IH [OF t4(1)] Cons.prems(2) obtain t' where "touch_flashes sha3 rd txs t4 = Some (Inr t')"
      "tracks m0 t' (flash_effects sha3 ZERO_HASH txs (flash_effect sha3 ZERO_HASH tx m))"
      "fst ` set t' = fst ` set t4 \<union> (\<Union>tx\<in>set txs. {sender_of sha3 tx, recipient_of tx})"
    unfolding m by auto
  then show ?case
    unfolding step using t1(3) t2(3) t3(2) t4(2) by (intro exI [of _ t']) (auto simp: flash_effects_def)
qed (auto simp: flash_effects_def)

lemma touch_rewards_ok:
  assumes "\<And>k. rd k = Inr (m0 k)"
  shows "tracks m0 touched m \<Longrightarrow>
    \<exists>touched'. touch_rewards rd rewards touched = Inr touched' \<and> tracks m0 touched' (reward_effects rewards m) \<and>
      fst ` set touched' = fst ` set touched \<union> fst ` set rewards"
proof (induction rewards arbitrary: touched m)
  case (Cons r rewards)
  obtain k n where r: "r = (k, n)" by (cases r)
  obtain t1 where t1: "touch rd k touched = Inr t1" "tracks m0 t1 m" "fst ` set t1 = insert k (fst ` set touched)"
    using tracks_touch [OF Cons.prems assms] by blast
  have "k \<in> fst ` set t1" using t1(3) by simp
  note t2 = tracks_modify [OF t1(2) this, of "credit n"]
  from Cons.IH [OF t2(1)] show ?case
    using t1 t2(2) by (auto simp: r reward_effects_def credit_def [abs_def] fun_upd_def)
qed (auto simp: reward_effects_def)

lemma tracks_Nil: "tracks m [] m"
  by (simp add: tracks_def)

text \<open>All accounts that a block touches, with their states after it.\<close>

lemma touched_after:
  assumes "\<And>k. rd k = Inr (m0 k)" "\<forall>tx\<in>set txs. 20 \<le> length (fl_recipient tx)"
  shows "\<exists>touched. and_then (touch_flashes sha3 rd txs []) (\<lambda>touched. Some (touch_rewards rd rewards touched)) = Some (Inr touched) \<and>
    distinct (map fst touched) \<and> fst ` set touched = parties sha3 txs rewards \<and>
    map (\<lambda>(k, a). (k, prune_recent_flashes daa a)) touched =
      map (\<lambda>k. (k, block_effects sha3 txs rewards daa m0 k)) (map fst touched)"
proof -
  obtain t1 where t1: "touch_flashes sha3 rd txs [] = Some (Inr t1)" "tracks m0 t1 (flash_effects sha3 ZERO_HASH txs m0)"
      "fst ` set t1 = (\<Union>tx\<in>set txs. {sender_of sha3 tx, recipient_of tx})"
    using touch_flashes_ok [of rd m0, OF assms(1) tracks_Nil assms(2), of sha3] by auto
  obtain t2 where t2: "touch_rewards rd rewards t1 = Inr t2"
      "tracks m0 t2 (reward_effects rewards (flash_effects sha3 ZERO_HASH txs m0))"
      "fst ` set t2 = fst ` set t1 \<union> fst ` set rewards"
    using touch_rewards_ok [of rd m0, OF assms(1) t1(2)] by blast
  have p: "fst ` set t2 = parties sha3 txs rewards" using t1(3) t2(3) by (simp add: parties_def)
  have "a = reward_effects rewards (flash_effects sha3 ZERO_HASH txs m0) k" if "(k, a) \<in> set t2" for k a
    using t2(2) that by (auto simp: tracks_def)
  then have "map (\<lambda>(k, a). (k, prune_recent_flashes daa a)) t2 = map (\<lambda>k. (k, block_effects sha3 txs rewards daa m0 k)) (map fst t2)"
    using p by (force simp: block_effects_def Let_def)
  then show ?thesis using t1(1) t2(1,2) p by (auto simp: and_then_def tracks_def)
qed


section \<open>The commitment\<close>

text \<open>The accounts that a tree commits to.\<close>

definition committed_account :: "sponge \<Rightarrow> states_reader \<Rightarrow> tree \<Rightarrow> script_public_key \<Rightarrow> account_state" where
  "committed_account P states t spk =
     (case tree_map t (account_key_hash P spk) of
        None \<Rightarrow> account_default
      | Some h \<Rightarrow> (case states h of Inr a \<Rightarrow> a | Inl _ \<Rightarrow> account_default))"

definition changes_of ::
    "sponge \<Rightarrow> (bytes \<Rightarrow> hash) \<Rightarrow> (script_public_key \<Rightarrow> account_state) \<Rightarrow> script_public_key list \<Rightarrow> (h256 \<times> h256 option) list" where
  "changes_of P sha3 m ks = map (\<lambda>k. (account_key_hash P k, leaf_of sha3 (m k))) ks"

definition reorders :: "(touched_accounts \<Rightarrow> touched_accounts) \<Rightarrow> bool" where
  "reorders iter \<longleftrightarrow> (\<forall>xs. distinct (map fst xs) \<longrightarrow> set (iter xs) = set xs \<and> distinct (map fst (iter xs)))"

context node_storage
begin

lemma read_account_ok:
  assumes "clean P (tree_nodes P t)" "canonical 0 t" "stored s t" "\<forall>h. states h \<noteq> Inl OtherFailure"
  shows "read_account_state P ops states (tree_hash P t) s spk = Inr (committed_account P states t spk)"
proof -
  let ?k = "account_key_hash P spk"
  have "smt_get ops s (tree_hash P t) ?k = Inr (tree_map t ?k)"
    using get_loop_ok [OF assms(1) subset_refl assms(2,3)] t_lookup_tree_map [OF assms(2)] by (simp add: smt_get_def)
  then show ?thesis
    using assms(4) by (auto simp: read_account_state_def committed_account_def split: option.split sum.split store_failure.split)
qed

end

lemma length_account_key: "(\<And>xs. length (P xs) = 4) \<Longrightarrow> length (account_key_hash P spk) = 32"
  by (simp add: account_key_hash_def hash_key_def Let_def goldilocks_to_bytes_def length_concat comp_def sum_list_triv)

lemma apply_changes_distinct:
  assumes "distinct (map key ks)"
  shows "\<forall>k\<in>set ks. apply_changes (map (\<lambda>k. (key k, val k)) ks) m (key k) = val k"
    "h \<notin> key ` set ks \<Longrightarrow> apply_changes (map (\<lambda>k. (key k, val k)) ks) m h = m h"
proof -
  show other: "h \<notin> key ` set ks \<Longrightarrow> apply_changes (map (\<lambda>k. (key k, val k)) ks) m h = m h" for h m ks
    by (induction ks arbitrary: m) auto
  show "\<forall>k\<in>set ks. apply_changes (map (\<lambda>k. (key k, val k)) ks) m (key k) = val k"
    using assms
  proof (induction ks arbitrary: m)
    case (Cons k ks)
    then show ?case using other [of "key k" ks] by auto
  qed simp
qed

lemma apply_changes_of:
  assumes "inj_on (account_key_hash P) K" "set ks = K" "distinct ks"
  shows "\<forall>k\<in>K. apply_changes (changes_of P sha3 m ks) f (account_key_hash P k) = leaf_of sha3 (m k)"
    "h \<notin> account_key_hash P ` K \<Longrightarrow> apply_changes (changes_of P sha3 m ks) f h = f h"
  using apply_changes_distinct(1) [of "account_key_hash P" ks "\<lambda>k. leaf_of sha3 (m k)" f]
    apply_changes_distinct(2) [of "account_key_hash P" ks h "\<lambda>k. leaf_of sha3 (m k)" f] assms
  by (auto simp: changes_of_def distinct_map)

lemma apply_changes_order:
  assumes "inj_on (account_key_hash P) K" "set ks = K" "distinct ks" "set ks' = K" "distinct ks'"
  shows "apply_changes (changes_of P sha3 m ks) f = apply_changes (changes_of P sha3 m ks') f"
proof
  fix h
  show "apply_changes (changes_of P sha3 m ks) f h = apply_changes (changes_of P sha3 m ks') f h"
    using apply_changes_of(1) [OF assms(1-3), of sha3 m f] apply_changes_of(1) [OF assms(1,4,5), of sha3 m f]
      apply_changes_of(2) [OF assms(1-3), of h sha3 m f] apply_changes_of(2) [OF assms(1,4,5), of h sha3 m f]
    by (cases "h \<in> account_key_hash P ` K") auto
qed

text \<open>One computation, for one iteration order of the hash map.\<close>

lemma compute_changes_ok:
  assumes clean: "clean P (tree_nodes P t)" "canonical 0 t" "stored_in P (overlay_store_ops P base) s t"
    and states: "\<forall>h. states h \<noteq> Inl OtherFailure" and rec: "\<forall>tx\<in>set txs. 20 \<le> length (fl_recipient tx)"
    and iter: "reorders iter" and sponge: "\<And>xs. length (P xs) = 4"
    and orders: "\<And>ks. distinct ks \<Longrightarrow> set ks = parties sha3 txs rewards \<Longrightarrow>
      clean P (\<Union> (tree_nodes P ` set (t_history (changes_of P sha3 (block_effects sha3 txs rewards daa (committed_account P states t)) ks) t)))"
  shows "\<exists>ks s'. distinct ks \<and> set ks = parties sha3 txs rewards \<and>
    compute_block_account_changes P sha3 iter (tree_hash P t) (overlay_store_ops P base) states txs rewards daa s =
      Some (Inr (tree_hash P (t_update_many (changes_of P sha3 (block_effects sha3 txs rewards daa (committed_account P states t)) ks) t),
        map (\<lambda>k. (k, block_effects sha3 txs rewards daa (committed_account P states t) k)) ks), s') \<and>
    stored_in P (overlay_store_ops P base) s' (t_update_many (changes_of P sha3 (block_effects sha3 txs rewards daa (committed_account P states t)) ks) t)"
proof -
  let ?m = "block_effects sha3 txs rewards daa (committed_account P states t)"
  let ?rd = "read_account_state P (overlay_store_ops P base) states (tree_hash P t) s"
  have rd: "?rd k = Inr (committed_account P states t k)" for k
    by (rule overlay.read_account_ok [OF clean states])
  obtain touched where touched: "and_then (touch_flashes sha3 ?rd txs []) (\<lambda>touched. Some (touch_rewards ?rd rewards touched)) = Some (Inr touched)"
      "distinct (map fst touched)" "fst ` set touched = parties sha3 txs rewards"
      "map (\<lambda>(k, a). (k, prune_recent_flashes daa a)) touched = map (\<lambda>k. (k, ?m k)) (map fst touched)"
    using touched_after [of ?rd "committed_account P states t", OF rd rec] by blast
  define xs where "xs = iter (map (\<lambda>k. (k, ?m k)) (map fst touched))"
  define ks where "ks = map fst xs"
  have it: "set xs = set (map (\<lambda>k. (k, ?m k)) (map fst touched))" "distinct ks"
    using iter touched(2) unfolding reorders_def xs_def ks_def by (auto simp: comp_def)
  then have xs: "xs = map (\<lambda>k. (k, ?m k)) ks"
    unfolding ks_def map_map by (intro map_idI [symmetric]) auto
  have ks: "set ks = parties sha3 txs rewards" using it(1) touched(3) unfolding ks_def set_map by (simp add: image_image)
  let ?cs = "changes_of P sha3 ?m ks"
  have "list_all (\<lambda>(key, val). length key = 32) ?cs"
    by (auto simp: changes_of_def list_all_iff length_account_key [OF sponge])
  note b = overlay.update_many_builds [OF orders [OF it(2) ks] subset_refl clean(2) this clean(3)]
  then obtain s' where s': "update_many (overlay_store_ops P base) (tree_hash P t) ?cs s = (Inr (tree_hash P (t_update_many ?cs t)), s')"
      "stored_in P (overlay_store_ops P base) s' (t_update_many ?cs t)"
    unfolding overlay.builds_def by blast
  have cs: "map (\<lambda>(spk, a). (account_key_hash P spk, leaf_of sha3 a)) xs = ?cs"
    unfolding xs changes_of_def by simp
  have "compute_block_account_changes P sha3 iter (tree_hash P t) (overlay_store_ops P base) states txs rewards daa s =
      Some (Inr (tree_hash P (t_update_many ?cs t), xs), s')"
    unfolding compute_block_account_changes_def Let_def touched(1) option.case sum.case touched(4) xs_def [symmetric] cs s'(1) prod.case ..
  then show ?thesis using it(2) ks s'(2) xs by blast
qed


section \<open>Properties\<close>

text \<open>
  C13: The account commitment of a block is the root of the parent's accounts with the block's
  effects: every account that the block touches has the leaf of its new state, all other leaves
  are kept, the returned changes are the touched accounts with their new states, and the root is
  the same for every iteration order of the hash map and every store.  The keys of the touched
  accounts must differ and the sponge must not collide on the nodes of the trees in between.
\<close>

theorem commitment_refines:
  assumes "canonical 0 t" "\<forall>xs. length (P xs) = 4"
    and "\<forall>h. states h \<noteq> Inl OtherFailure" "\<forall>tx\<in>set txs. 20 \<le> length (fl_recipient tx)"
    and "inj_on (account_key_hash P) (parties sha3 txs rewards)"
    and "\<forall>ks. distinct ks \<and> set ks = parties sha3 txs rewards \<longrightarrow>
      clean P (\<Union> (tree_nodes P ` set (t_history (changes_of P sha3 (block_effects sha3 txs rewards daa (committed_account P states t)) ks) t)))"
  shows "\<exists>t'. canonical 0 t' \<and>
    (\<forall>k\<in>parties sha3 txs rewards. tree_map t' (account_key_hash P k) =
       leaf_of sha3 (block_effects sha3 txs rewards daa (committed_account P states t) k)) \<and>
    (\<forall>h. h \<notin> account_key_hash P ` parties sha3 txs rewards \<longrightarrow> tree_map t' h = tree_map t h) \<and>
    (\<forall>iter base s. reorders iter \<longrightarrow> stored_in P (overlay_store_ops P base) s t \<longrightarrow>
      (\<exists>touched s'. compute_block_account_changes P sha3 iter (tree_hash P t) (overlay_store_ops P base) states txs rewards daa s =
          Some (Inr (tree_hash P t', touched), s') \<and>
        set touched = (\<lambda>k. (k, block_effects sha3 txs rewards daa (committed_account P states t) k)) ` parties sha3 txs rewards \<and>
        stored_in P (overlay_store_ops P base) s' t'))"
proof -
  let ?m = "block_effects sha3 txs rewards daa (committed_account P states t)" and ?K = "parties sha3 txs rewards"
  have orders: "clean P (\<Union> (tree_nodes P ` set (t_history (changes_of P sha3 ?m ks) t)))" if "distinct ks" "set ks = ?K" for ks
    using assms(6) that by blast
  have sponge: "length (P xs) = 4" for xs using assms(2) by blast
  obtain ks where ks: "set ks = ?K" "distinct ks"
    using finite_distinct_list [of ?K] by (auto simp: parties_def)
  have len: "list_all (\<lambda>(key, val). length key = 32) (changes_of P sha3 ?m ks)" for ks
    by (auto simp: changes_of_def list_all_iff length_account_key [OF sponge])
  note t = t_update_many_ok [OF assms(1) len]
  have "clean P (tree_nodes P t)"
    by (rule clean_subset [OF orders [OF ks(2,1)]]) (cases "changes_of P sha3 ?m ks", auto)
  note run = compute_changes_ok [OF this assms(1) _ assms(3,4) _ sponge orders]
  have same: "t_update_many (changes_of P sha3 ?m ks') t = t_update_many (changes_of P sha3 ?m ks) t"
    if "distinct ks'" "set ks' = ?K" for ks'
    using t [of ks] t [of ks'] apply_changes_order [OF assms(5) ks that(2,1), of sha3 ?m "tree_map t"] canonical_unique by metis
  let ?t = "t_update_many (changes_of P sha3 ?m ks) t"
  have "\<exists>touched s'. compute_block_account_changes P sha3 iter (tree_hash P t) (overlay_store_ops P base) states txs rewards daa s =
          Some (Inr (tree_hash P ?t, touched), s') \<and> set touched = (\<lambda>k. (k, ?m k)) ` ?K \<and>
        stored_in P (overlay_store_ops P base) s' ?t"
    if "reorders iter" "stored_in P (overlay_store_ops P base) s t" for iter base s
  proof -
    from run [OF that(2,1)] obtain ks' s' where "distinct ks'" "set ks' = ?K"
      "compute_block_account_changes P sha3 iter (tree_hash P t) (overlay_store_ops P base) states txs rewards daa s =
        Some (Inr (tree_hash P (t_update_many (changes_of P sha3 ?m ks') t), map (\<lambda>k. (k, ?m k)) ks'), s')"
      "stored_in P (overlay_store_ops P base) s' (t_update_many (changes_of P sha3 ?m ks') t)"
      by blast
    then show ?thesis using same [of ks'] by (intro exI [of _ "map (\<lambda>k. (k, ?m k)) ks'"] exI [of _ s']) simp
  qed
  then show ?thesis
    using t [of ks] apply_changes_of(1) [OF assms(5) ks, of sha3 ?m "tree_map t"]
      apply_changes_of(2) [OF assms(5) ks, of _ sha3 ?m "tree_map t"] by (intro exI [of _ ?t]) auto
qed

text \<open>
  C29: The commitment may depend on the iteration order of the hash map: the keys of accounts are
  padded with zeros, so an account and the one whose script has a zero byte appended share their
  leaf, and when a block rewards both with different amounts two iteration orders give different
  roots for the same changes.
\<close>

theorem commitment_order_dependent:
  assumes "(2 + length (spk_script spk)) mod 32 \<noteq> 0" "\<And>xs. length (P xs) = 4"
    and "spk' = spk\<lparr>spk_script := spk_script spk @ [0]\<rparr>" "0 < a" "0 < b"
    and "content_hash sha3 (account_state_new a) \<noteq> content_hash sha3 (account_state_new b)"
    and "clean P {Leaf (account_key_hash P spk) (content_hash sha3 (account_state_new n)) |n. n \<in> {a, b}}"
  shows "\<exists>root root' touched s1 s2.
    compute_block_account_changes P sha3 (\<lambda>xs. xs) EMPTY (overlay_store_ops P base) states [] [(spk, a), (spk', b)] daa s =
      Some (Inr (root, touched), s1) \<and>
    compute_block_account_changes P sha3 rev EMPTY (overlay_store_ops P base) states [] [(spk, a), (spk', b)] daa s =
      Some (Inr (root', rev touched), s2) \<and> root \<noteq> root'"
proof -
  let ?ops = "overlay_store_ops P base" and ?key = "account_key_hash P spk"
  let ?h = "\<lambda>n. content_hash sha3 (account_state_new n)"
  have key: "account_key_hash P spk' = ?key"
    using hash_key_append_zero [of "u16_to_le (spk_version spk) @ spk_script spk" P] assms(1)
    by (simp add: account_key_hash_def assms(3))
  have ne: "spk' \<noteq> spk" using assms(3) by (cases spk) simp
  have rd: "read_account_state P ?ops states EMPTY s k = Inr account_default" for k
    by (simp add: read_account_state_def smt_get_def get_loop.simps)
  have new: "sat_add64 0 n = n" for n by (simp add: sat_add64_def)
  have leaf: "leaf_of sha3 (prune_recent_flashes daa (account_state_new n)) = Some (?h n)" "prune_recent_flashes daa (account_state_new n) = account_state_new n"
    if "0 < n" for n
    using that by (simp_all add: leaf_of_def is_empty_account_def prune_recent_flashes_def account_state_new_def Let_def word_gt_0)
  have touched: "touch_rewards (read_account_state P ?ops states EMPTY s) [(spk, a), (spk', b)] [] =
      Inr [(spk, account_state_new a), (spk', account_state_new b)]"
    using ne by (simp add: touch_def rd modify_def account_default_def account_state_new_def new)
  have upd: "\<exists>s'. update_many ?ops EMPTY [(?key, Some (?h m)), (?key, Some (?h n))] s = (Inr (hash_leaf P ?key (?h n)), s')"
    if "m \<in> {a, b}" "n \<in> {a, b}" for m n
  proof -
    let ?cs = "[(?key, Some (?h m)), (?key, Some (?h n))]"
    have "\<Union> (tree_nodes P ` set (t_history ?cs TEmpty)) \<subseteq> {Leaf ?key (?h n) |n. n \<in> {a, b}}" using that by auto
    from overlay.update_many_builds [OF assms(7) this, of base s] show ?thesis
      using length_account_key [of P spk, OF assms(2)] unfolding overlay.builds_def by (auto simp: stored_in_def)
  qed
  obtain s1 s2 where "update_many ?ops EMPTY [(?key, Some (?h a)), (?key, Some (?h b))] s = (Inr (hash_leaf P ?key (?h b)), s1)"
      "update_many ?ops EMPTY [(?key, Some (?h b)), (?key, Some (?h a))] s = (Inr (hash_leaf P ?key (?h a)), s2)"
    using upd [of a b] upd [of b a] by blast
  moreover have "hash_leaf P ?key (?h a) \<noteq> hash_leaf P ?key (?h b)"
  proof
    assume "hash_leaf P ?key (?h a) = hash_leaf P ?key (?h b)"
    then have "Leaf ?key (?h a) = Leaf ?key (?h b)"
      by (intro clean_eqD [OF assms(7)]) (auto simp: node_hash_def)
    then show False using assms(6) by simp
  qed
  ultimately show ?thesis
    using touched leaf [OF assms(4)] leaf [OF assms(5)]
    by (simp add: compute_block_account_changes_def and_then_def Let_def key)
qed


text \<open>
  C30: No check relates the subsidy that a coinbase transaction claims to the one of its height:
  whatever amount it claims, the check in context passes, and the commitment's rewards pay exactly
  that amount to the miner and, one twentieth, to the treasury.
\<close>

theorem any_subsidy_paid:
  assumes "fits cm data" "cb_blue_score data = hdr_blue_score (block_header blk)" "block_transactions blk = cb # txs"
    and "serialize_coinbase_payload cm data = Inr (tx_payload cb)"
    and "calc_block_subsidy cm (hdr_daa_score (block_header blk)) = Some expected"
    and "0 < cb_subsidy data" "treasury_spk_from_hex hex treasury_hex = Some treasury"
  shows "check_coinbase_blue_score_and_subsidy cm blk = Some (Inr ()) \<and>
    (\<exists>rewards. snd (extract_block_effects hex cm treasury_hex (block_transactions blk)) = rewards \<and>
      fst ` set rewards \<subseteq> {md_script_public_key (cb_miner_data data), treasury} \<and>
      (\<Sum>(spk, n)\<leftarrow>rewards. unat n) = unat (cb_subsidy data))"
proof -
  have d: "deserialize_coinbase_payload cm (tx_payload cb) = Inr data"
    using payload_of_serialized [OF assms(1)] assms(4) by auto
  have hex: "treasury_hex \<noteq> []" using assms(7) by (auto simp: treasury_spk_from_hex_def)
  let ?s = "cb_subsidy data"
  have "unat (?s - ?s div 20) = unat ?s - unat ?s div 20"
    by (subst unat_sub64) (simp_all add: unat_div)
  moreover have "unat (?s div 20) = unat ?s div 20" by (simp add: unat_div)
  ultimately have sum: "unat (?s - ?s div 20) + unat (?s div 20) = unat ?s" by simp
  let ?miner = "md_script_public_key (cb_miner_data data)"
  have rewards: "snd (extract_block_effects hex cm treasury_hex (block_transactions blk)) =
      (?miner, ?s - ?s div 20) # (if ?s div 20 > 0 then [(treasury, ?s div 20)] else [])"
    using assms(6,7) d hex by (simp add: assms(3) extract_block_effects_def coinbase_rewards_def Let_def)
  have "?s div 20 > 0 \<or> unat (?s div 20) = 0" using word_gt_0 [of "?s div 20"] by auto
  then have "(\<Sum>(spk, n)\<leftarrow>snd (extract_block_effects hex cm treasury_hex (block_transactions blk)). unat n) = unat ?s"
    unfolding rewards using sum by (elim disjE) simp_all
  moreover have "fst ` set (snd (extract_block_effects hex cm treasury_hex (block_transactions blk))) \<subseteq> {?miner, treasury}"
    unfolding rewards by auto
  moreover have "check_coinbase_blue_score_and_subsidy cm blk = Some (Inr ())"
    using assms(2,5) d by (simp add: assms(3) check_coinbase_blue_score_and_subsidy_def)
  ultimately show ?thesis by blast
qed


definition smt_proof_of :: "account_proof \<Rightarrow> smt_proof" where
  "smt_proof_of p = \<lparr>siblings = app_siblings (ap_proof p),
     terminal_of = (case app_terminal (ap_proof p) of APT_Empty \<Rightarrow> TermEmpty | APT_Leaf k v \<Rightarrow> TermLeaf k v)\<rparr>"



section \<open>Witnesses\<close>

text \<open>A digest that reads the low byte of a balance off canonical bytes, and a sponge for small keys.\<close>

definition balance_digest :: "bytes \<Rightarrow> hash" where
  "balance_digest b = b ! 25 # replicate 31 0"

definition key_sponge :: sponge where
  "key_sponge xs = [1 + xs ! 4 + 256 * (if length xs > 8 then xs ! 8 else 0), 0, 0, 0]"

abbreviation account_one :: script_public_key where
  "account_one \<equiv> \<lparr>spk_version = 0, spk_script = [1]\<rparr>"

lemma small_word_low: "n < 256 \<Longrightarrow> small_word n = word_of_nat n # replicate 31 0"
proof -
  assume n: "n < 256"
  have "small_word n = word_of_nat (n mod 256) # le_bytes 7 (n div 256) @ replicate 24 0"
    using le_bytes.simps(2) [of 7 n] by (simp add: small_word_def)
  then show ?thesis using n by (simp add: le_bytes_0 flip: replicate_add)
qed

lemma content_demo: "n < 256 \<Longrightarrow> content_hash balance_digest (account_state_new (word_of_nat n)) = small_word n"
proof -
  assume n: "n < 256"
  have u: "unat (word_of_nat n :: u64) = n" using n by (simp add: unat_of_nat)
  have "le_bytes 8 n ! 0 = word_of_nat n" using le_bytes.simps(2) [of 7 n] n by simp
  moreover have "length (ascii ''SAHYADRI_ACCOUNT_STATE_V1'') = 25" by (simp add: ascii_def)
  ultimately show ?thesis
    by (simp add: content_hash_def balance_digest_def to_canonical_bytes_def account_state_new_def nth_append u64_to_le_def u small_word_low n)
qed

lemma key_one: "account_key_hash key_sponge account_one = small_word 65537"
proof -
  have "u16_to_le 0 @ [1] = [0, 0, 1]" by (simp add: u16_to_le_def numeral_2_eq_2)
  moreover have "pad32 [0, 0, 1] = [0, 0, 1] @ replicate 29 0" by (simp add: pad32_def)
  moreover have "chunks32 1 ([0, 0, 1] @ replicate 29 0) = [[0, 0, 1] @ replicate 29 0]" by simp
  moreover have "bytes_to_goldilocks ([0, 0, 1] @ replicate 29 0) = [65536, 0, 0, 0]"
    by (simp add: bytes_to_goldilocks_def upt_rec goldilocks_p_def)
  moreover have "length key_domain = 4" by (simp add: key_domain_def domain_from_bytes_def Let_def)
  ultimately show ?thesis
    by (simp add: account_key_hash_def hash_key_def key_sponge_def nth_append goldilocks_to_bytes_def small_word_def le_bytes_0
        flip: replicate_add)
qed

lemma leaf_one: "n < 256 \<Longrightarrow> hash_leaf key_sponge (small_word 65537) (small_word n) = small_word (65538 + 256 * n)"
proof -
  assume n: "n < 256"
  have len: "length leaf_domain = 4" by (simp add: leaf_domain_def domain_from_bytes_def Let_def)
  have f: "bytes_to_goldilocks (small_word 65537) = [65537, 0, 0, 0]" "bytes_to_goldilocks (small_word n) = [n, 0, 0, 0]"
    using n by (simp_all add: small_word_fields goldilocks_p_def)
  show ?thesis
    unfolding hash_leaf_def key_sponge_def f
    by (simp add: nth_append len goldilocks_to_bytes_def small_word_def le_bytes_0 flip: replicate_add)
qed

lemma clean_one: "N \<subseteq> {Leaf (small_word 65537) (small_word n) |n. n < 256} \<Longrightarrow> clean key_sponge N"
  by (rule clean_subset [of _ "{Leaf (small_word 65537) (small_word n) |n. n < 256}"])
    (auto simp: clean_def inj_on_def node_hash_def leaf_one small_word_inj simp flip: small_word_0)


abbreviation no_states :: states_reader where
  "no_states \<equiv> \<lambda>_. Inl NoSuchKey"

abbreviation demo_ops :: "mem_store overlay_store node_store" where
  "demo_ops \<equiv> overlay_store_ops key_sponge (mem_store_ops key_sponge)"

theorem commitment_refines_witness:
  "\<exists>t' touched s'. tree_map t' (small_word 65537) = Some (small_word 5) \<and>
     compute_block_account_changes key_sponge balance_digest (\<lambda>xs. xs) EMPTY demo_ops no_states [] [(account_one, 5)] 0
       (overlay_new Map.empty) = Some (Inr (tree_hash key_sponge t', touched), s')"
proof -
  let ?m = "block_effects balance_digest [] [(account_one, 5)] 0 (committed_account key_sponge no_states TEmpty)"
  have p: "parties balance_digest [] [(account_one, 5)] = {account_one}" by (simp add: parties_def)
  have "?m account_one = account_state_new (word_of_nat 5)"
    by (simp add: block_effects_def p reward_effects_def flash_effects_def committed_account_def account_default_def credit_def
        prune_recent_flashes_def account_state_new_def sat_add64_def Let_def)
  then have leaf: "leaf_of balance_digest (?m account_one) = Some (small_word 5)"
    using content_demo [of 5] by (simp add: leaf_of_def is_empty_account_def account_state_new_def)
  have ks: "ks = [account_one]" if "distinct ks" "set ks = {account_one}" for ks
    using that by (cases ks; cases "tl ks") auto
  have sponge: "\<forall>xs. length (key_sponge xs) = 4" by (simp add: key_sponge_def)
  have clean: "\<forall>ks. distinct ks \<and> set ks = parties balance_digest [] [(account_one, 5)] \<longrightarrow>
      clean key_sponge (\<Union> (tree_nodes key_sponge ` set (t_history (changes_of key_sponge balance_digest ?m ks) TEmpty)))"
  proof (intro allI impI, elim conjE)
    fix ks assume "distinct ks" "set ks = parties balance_digest [] [(account_one, 5)]"
    then have "ks = [account_one]" using ks by (simp only: p)
    then show "clean key_sponge (\<Union> (tree_nodes key_sponge ` set (t_history (changes_of key_sponge balance_digest ?m ks) TEmpty)))"
      by (intro clean_one) (auto simp: changes_of_def key_one leaf)
  qed
  have pre: "canonical 0 TEmpty" "\<forall>h. no_states h \<noteq> Inl OtherFailure" "\<forall>tx\<in>set []. 20 \<le> length (fl_recipient tx)"
    "inj_on (account_key_hash key_sponge) (parties balance_digest [] [(account_one, 5)])"
    by (simp_all add: p)
  obtain t' where t': "\<forall>k\<in>parties balance_digest [] [(account_one, 5)]. tree_map t' (account_key_hash key_sponge k) = leaf_of balance_digest (?m k)"
    and run: "\<forall>iter base (s :: mem_store overlay_store). reorders iter \<longrightarrow> stored_in key_sponge (overlay_store_ops key_sponge base) s TEmpty \<longrightarrow>
      (\<exists>touched s'. compute_block_account_changes key_sponge balance_digest iter (tree_hash key_sponge TEmpty)
          (overlay_store_ops key_sponge base) no_states [] [(account_one, 5)] 0 s = Some (Inr (tree_hash key_sponge t', touched), s') \<and>
        set touched = (\<lambda>k. (k, ?m k)) ` parties balance_digest [] [(account_one, 5)] \<and>
        stored_in key_sponge (overlay_store_ops key_sponge base) s' t')"
    using commitment_refines [OF pre(1) sponge pre(2-4) clean] by (elim exE conjE) (rule that)
  have "reorders (\<lambda>xs. xs)" "stored_in key_sponge demo_ops (overlay_new Map.empty) TEmpty"
    by (simp_all add: reorders_def stored_in_def)
  from run [rule_format, OF this] t' show ?thesis by (auto simp: key_one leaf p)
qed

theorem commitment_order_dependent_witness:
  "\<exists>root root' touched s1 s2.
    compute_block_account_changes key_sponge balance_digest (\<lambda>xs. xs) EMPTY demo_ops no_states []
      [(account_one, 1), (\<lparr>spk_version = 0, spk_script = [1, 0]\<rparr>, 2)] 0 (overlay_new Map.empty) = Some (Inr (root, touched), s1) \<and>
    compute_block_account_changes key_sponge balance_digest rev EMPTY demo_ops no_states []
      [(account_one, 1), (\<lparr>spk_version = 0, spk_script = [1, 0]\<rparr>, 2)] 0 (overlay_new Map.empty) = Some (Inr (root', rev touched), s2) \<and>
    root \<noteq> root'"
proof -
  have h: "content_hash balance_digest (account_state_new 1) = small_word 1" "content_hash balance_digest (account_state_new 2) = small_word 2"
    using content_demo [of 1] content_demo [of 2] by simp_all
  show ?thesis
  proof (rule commitment_order_dependent)
    show "clean key_sponge {Leaf (account_key_hash key_sponge account_one) (content_hash balance_digest (account_state_new n)) |n. n \<in> {1, 2}}"
      by (rule clean_one) (auto simp: key_one h)
  qed (simp_all add: key_sponge_def h small_word_inj)
qed

theorem any_subsidy_paid_witness:
  "let cm = \<lparr> cm_spk_max_len = 150, cm_max_payload_len = 204, cm_bps_history = forked_new_const 1 \<rparr>;
       data = \<lparr> cb_blue_score = 7, cb_subsidy = - 1, cb_miner_data = \<lparr> md_script_public_key = account_one, md_extra_data = [] \<rparr> \<rparr>
   in \<exists>blk. check_coinbase_blue_score_and_subsidy cm blk = Some (Inr ()) \<and>
     (\<Sum>(spk, n)\<leftarrow>snd (extract_block_effects (\<lambda>_ n. Some (replicate n 0)) cm ''00'' (block_transactions blk)). unat n) = 18446744073709551615"
proof -
  let ?cm = "\<lparr> cm_spk_max_len = 150, cm_max_payload_len = 204, cm_bps_history = forked_new_const 1 \<rparr> :: coinbase_manager"
  let ?data = "\<lparr> cb_blue_score = 7, cb_subsidy = - 1, cb_miner_data = \<lparr> md_script_public_key = account_one, md_extra_data = [] \<rparr> \<rparr>"
  have fits: "fits ?cm ?data" by (simp add: fits_def payload_lengths)
  then obtain payload where payload: "serialize_coinbase_payload ?cm ?data = Inr payload" using payload_of_serialized by blast
  let ?cb = "transaction_new 0 [] [] 0 SUBNETWORK_ID_COINBASE 0 payload"
  let ?blk = "\<lparr>block_header = \<lparr>hdr_hash = [], hdr_direct_parents = [], hdr_hash_merkle_root = [], hdr_account_commitment = [],
      hdr_daa_score = 0, hdr_blue_score = 7, hdr_pruning_point = []\<rparr>, block_transactions = [?cb]\<rparr>"
  have sub: "calc_block_subsidy ?cm 0 = Some 8318123"
    by (simp add: calc_block_subsidy_def forked_after_def forked_new_const_def Let_def)
  have "check_coinbase_blue_score_and_subsidy ?cm ?blk = Some (Inr ()) \<and>
    (\<exists>rewards. snd (extract_block_effects (\<lambda>_ n. Some (replicate n 0)) ?cm ''00'' (block_transactions ?blk)) = rewards \<and>
      fst ` set rewards \<subseteq> {md_script_public_key (cb_miner_data ?data), \<lparr>spk_version = 0, spk_script = replicate 1952 0\<rparr>} \<and>
      (\<Sum>(spk, n)\<leftarrow>rewards. unat n) = unat (cb_subsidy ?data))"
    by (rule any_subsidy_paid [OF fits, where cb = ?cb and txs = "[]" and expected = 8318123])
      (simp_all add: payload sub transaction_new_def treasury_spk_from_hex_def word_gt_0)
  then show ?thesis by (auto simp: Let_def intro!: exI [of _ ?blk])
qed



end
