(* ===== verification/Spec2Isabelle.thy ===== *)
theory Spec2Isabelle
  imports Sigop_Bound Signing Script_Builder Bech32 Smt_Correct Account_Changes
begin

text \<open>
  A verification library for the Sahyadri node (\<open>src/\<close>), a block-DAG node whose transactions
  are authorised by scripts, by Dilithium signatures and, for flash transactions, by accounts.

  \<^bold>\<open>Parts and their theories.\<close>

  \<^item> \<open>Prelude\<close>: machine integers, byte strings, results and a state monad with errors; \<open>Codec\<close>:
    locales for prefix-free byte encodings; \<open>Digits\<close>: digits of a number in a base.
  \<^item> Script numbers and the data stack (\<open>crypto/txscript/src/data_stack.rs\<close>): \<open>Script_Num\<close>,
    \<open>Data_Stack\<close>.
  \<^item> Opcodes (\<open>crypto/txscript/src/opcodes/\<close>): \<open>Opcodes\<close> has the table, parsing and
    serialisation, \<open>Opcode_Exec\<close> the effect of every opcode.
  \<^item> Transactions (\<open>consensus/core/src/tx.rs\<close>): \<open>Tx_Types\<close>; their signature hashes
    (\<open>consensus/core/src/hashing/\<close>): \<open>Sighash\<close>; signing (\<open>consensus/core/src/sign.rs\<close>): \<open>Signing\<close>.
  \<^item> The script engine (\<open>crypto/txscript/src/lib.rs\<close>, \<open>caches.rs\<close>, \<open>runtime_sig_op_counter.rs\<close>):
    \<open>Engine_State\<close> has the state and the signature checks, \<open>Sig_Cache\<close> the cache,
    \<open>Script_Engine\<close> the loop of \<open>execute\<close> and the static signature operation count.
    \<open>Engine_Frame\<close>, \<open>Engine_Memo\<close>, \<open>Engine_Safety\<close>, \<open>Push_Script\<close>, \<open>Sigop_Bound\<close> and
    \<open>Spendability\<close> are lemmas about it.
  \<^item> Script classes and addresses (\<open>script_class.rs\<close>, \<open>standard.rs\<close>, \<open>crypto/addresses/src/\<close>):
    \<open>Script_Class\<close>, \<open>Bech32\<close>; the script builder and multi-signature scripts
    (\<open>script_builder.rs\<close>, \<open>standard/multisig.rs\<close>): \<open>Script_Builder\<close>.

  \<^bold>\<open>Correspondence.\<close>  A Rust \<open>u8\<close> to \<open>u64\<close> is a word of its width; \<open>i64\<close> and \<open>i32\<close> are
  integers with their range checked where the code checks it; a byte vector is a list of \<open>u8\<close>.
  A \<open>Result\<close> is a sum with the error on the left.  A panic is \<open>None\<close>, and in the engine, whose
  methods take \<open>&mut self\<close>, an error of its own.  The engine is a function on a record
  of its fields.  Functions of other crates (SHA3-256, BLAKE2b, Dilithium, the random draw of the
  cache) are parameters, collected in the record \<open>crypto\<close>.

  \<^bold>\<open>What is shown.\<close>  The engine never panics, spends at most the signature operations that were
  counted statically, and gives the same verdict with and without its caches; outputs that
  \<open>is_unspendable\<close> holds for are never spent; a pay-to-script-hash spend runs the redeem script.
  Signature hashes commit to what they should.  Encodings of numbers, scripts, addresses and
  flash transactions are read back.  The errors that the code makes are theorems too: outputs of
  key addresses cannot be spent because of the element size limit, the signature operation count
  panics on \<open>Op16\<close>, and the flash digest is ambiguous.

  \<^bold>\<open>Bounds.\<close>  Every function terminates; loops recurse on the remaining script or list.

  \<^bold>\<open>Not modelled.\<close>  The database, the asynchronous services (RPC, peer-to-peer, mining), the
  wallet and the zero-knowledge circuits: they are I/O or calls of other crates.
\<close>

section \<open>Executing a transaction input\<close>

text \<open>A concrete input.\<close>

definition demo_vm :: "bytes \<Rightarrow> bytes \<Rightarrow> reused_values \<Rightarrow> sig_cache \<Rightarrow> vm option" where
  "demo_vm sig_script script rv cache =
     from_transaction_input (demo_spend sig_script script) (hd (tx_inputs (demo_transaction sig_script))) 0
       (hd (pop_entries (demo_spend sig_script script))) rv cache"

lemma demo_vm_Some: "\<exists>s. demo_vm sig_script script rv cache = Some s"
  by (simp add: demo_vm_def from_transaction_input_def demo_defs)

lemma demo_entry [simp]:
  "ru_script_public_key (hd (pop_entries (demo_spend sig_script script))) = \<lparr>spk_version = 0, spk_script = script\<rparr>"
  "signature_script (hd (tx_inputs (demo_transaction sig_script))) = sig_script"
  by (simp_all add: demo_defs)

text \<open>
  C1: The verdict of the script engine does not depend on the memo tables it runs with: with a
  signature cache that holds only verdicts of the verifier and partial hashes of the
  transaction, it returns the result, and leaves the stack, of an engine with empty tables.
\<close>

theorem execute_memo_irrelevant:
  assumes s: "from_transaction_input ptx input idx entry rv cache = Some s"
    and rv: "reused_ok (sha3_256 cr) (pop_tx ptx) rv"
    and cache: "distinct_keys cache" "agrees cache_lookup (verdict cr) cache"
  shows "\<exists>t. from_transaction_input ptx input idx entry reused_values_new (cache_new sz) = Some t \<and>
    fst (execute cr s) = fst (execute cr t) \<and> dstack (snd (execute cr s)) = dstack (snd (execute cr t))"
proof -
  let ?t = "with_env (cache_new sz) reused_values_new (vm_counter s) s"
  have t: "from_transaction_input ptx input idx entry reused_values_new (cache_new sz) = Some ?t"
    using s by (auto simp: from_transaction_input_def with_env_def split: if_splits)
  have "memo_ok cr s" using s rv cache by (auto simp: memo_ok_def from_transaction_input_def split: if_splits)
  moreover have "memo_ok cr ?t"
    using s by (auto simp: memo_ok_def from_transaction_input_def distinct_keys_def agrees_def cache_lookup_def
        cache_new_def split: if_splits)
  ultimately have twin: "twin cr s ?t" by (auto simp: twin_def)
  have "fst (execute cr ?t) = fst (execute cr s) \<and> twin cr (snd (execute cr s)) (snd (execute cr ?t))"
    using transparent_execute twin unfolding transparent_def by blast
  with t show ?thesis using twin_sel(1) by metis
qed

theorem execute_memo_irrelevant_witness:
  "\<exists>s t. demo_vm [] [0x51] reused_values_new (cache_new 3) = Some s \<and>
     demo_vm [] [0x51] reused_values_new (cache_new 7) = Some t \<and>
     fst (execute demo_crypto s) = fst (execute demo_crypto t)"
proof -
  obtain s where s: "demo_vm [] [0x51] reused_values_new (cache_new 3) = Some s" using demo_vm_Some by blast
  have "distinct_keys (cache_new 3 :: sig_cache)" "agrees cache_lookup (verdict demo_crypto) (cache_new 3)"
    by (simp_all add: distinct_keys_def agrees_def cache_lookup_def cache_new_def)
  from execute_memo_irrelevant [OF s [unfolded demo_vm_def] reused_ok_new this] s
  show ?thesis unfolding demo_vm_def by blast
qed



text \<open>
  C3: The static count of signature operations bounds what an execution spends, for ordinary
  and pay-to-script-hash outputs, whether the execution succeeds or fails.
\<close>

theorem sig_op_static_bound:
  assumes "from_transaction_input ptx input idx entry rv cache = Some s"
    and "get_sig_op_count_upper_bound (signature_script input) (ru_script_public_key entry) = Some n"
  shows "unat (used_sig_ops (vm_counter (snd (execute cr s)))) \<le> unat n"
  using assms by (auto intro!: used_sig_ops_bound [OF execute_used] simp: from_transaction_input_def split: if_splits)

theorem sig_op_static_bound_witness:
  "\<exists>s. demo_vm [0x51] [0x51, 0x51, 0xae] reused_values_new (cache_new 0) = Some s \<and>
     unat (used_sig_ops (vm_counter (snd (execute demo_crypto s)))) \<le> 1"
proof -
  obtain s where s: "demo_vm [0x51] [0x51, 0x51, 0xae] reused_values_new (cache_new 0) = Some s" using demo_vm_Some by blast
  have "get_sig_op_count_upper_bound [0x51] (\<lparr>spk_version = 0, spk_script = [0x51, 0x51, 0xae]\<rparr>) = Some 1"
    by code_simp
  then have "get_sig_op_count_upper_bound (signature_script (hd (tx_inputs (demo_transaction [0x51]))))
      (ru_script_public_key (hd (pop_entries (demo_spend [0x51] [0x51, 0x51, 0xae])))) = Some 1" by simp
  from sig_op_static_bound [OF s [unfolded demo_vm_def] this, of demo_crypto] s show ?thesis by auto
qed



text \<open>
  C6: No signature script spends an output of a key address: a Dilithium public key and
  signature take 1954 bytes or more, a script element at most 520, so that the script of every
  \<open>PubKey\<close>, \<open>PubKeyECDSA\<close> and \<open>PubKeyDilithium\<close> address fails in the engine.
\<close>

theorem key_outputs_unspendable:
  assumes s: "from_transaction_input ptx input idx entry rv cache = Some s"
    and spk: "pay_to_address_script a = Some (ru_script_public_key entry)" and ver: "addr_version a \<noteq> VScriptHash"
  shows "\<exists>e. fst (execute cr s) = Inl e"
proof -
  let ?key = "addr_payload a" and ?c = "if addr_version a = VPubKeyECDSA then OpCheckSigECDSA else OpCheckSig"
  note script = key_address_script [OF spk ver]
  have key: "0 < length ?key" "length ?key \<le> 75" "?c \<in> {OpCheckSig, OpCheckSigECDSA}"
    using script(1) by (cases "addr_version a"; simp)+
  show ?thesis
    by (rule execute_fails [OF s script(3)]) (simp_all only: script(2) list.distinct key_check_fails [OF key] not_False_eq_True)
qed

theorem key_outputs_unspendable_witness:
  "\<exists>s e. demo_vm [0x51] (0x14 # replicate 20 7 @ [0xac]) reused_values_new (cache_new 0) = Some s \<and>
     fst (execute demo_crypto s) = Inl e"
proof -
  let ?a = "\<lparr>addr_prefix = Mainnet, addr_version = VPubKeyDilithium, addr_payload = replicate 20 7\<rparr>"
  let ?script = "0x14 # replicate 20 7 @ [0xac]"
  obtain s where s: "demo_vm [0x51] ?script reused_values_new (cache_new 0) = Some s" using demo_vm_Some by blast
  have "pay_to_address_script ?a = Some (ru_script_public_key (hd (pop_entries (demo_spend [0x51] ?script))))"
    by (simp add: pay_to_address_script_def pay_to_pub_key_dilithium_def)
  from key_outputs_unspendable [OF s [unfolded demo_vm_def] this] s show ?thesis by simp
qed

text \<open>
  C34: Spending a pay-to-script-hash output runs its redeem script: with the signature script
  that the builder makes from some elements and the redeem script, on the output that pays to
  the script, execution is exactly the execution of the redeem script on these elements,
  followed by the final check of the stack.
\<close>

theorem p2sh_runs_redeem:
  assumes "from_transaction_input ptx input idx entry rv cache = Some s"
    and "pay_to_script_hash_script (sha3_256 cr) redeem = Some (ru_script_public_key entry)"
    and "add_all ds builder_new = Inr sig" "pay_to_script_hash_signature_script redeem sig = Inr (signature_script input)"
    and "redeem \<noteq> [0]" "length (signature_script input) \<le> MAX_SCRIPTS_SIZE" "length ds + 2 \<le> MAX_STACK_SIZE"
  shows "execute cr s = sbind (execute_script cr redeem False) (\<lambda>_. check_error_condition True)
    (s\<lparr>dstack := map (\<lambda>d. if d = [0] then [] else d) ds\<rparr>)"
  by (rule p2sh_execute [OF assms])

theorem p2sh_runs_redeem_witness:
  "\<exists>s. demo_vm [1, 0x51] ([0xaa, 0x20] @ demo_digest [0x51] @ [0x87]) reused_values_new (cache_new 0) = Some s \<and>
     execute demo_crypto s = sbind (execute_script demo_crypto [0x51] False) (\<lambda>_. check_error_condition True) s"
proof -
  let ?script = "[0xaa, 0x20] @ demo_digest [0x51] @ [0x87]"
  obtain s where s: "demo_vm [1, 0x51] ?script reused_values_new (cache_new 0) = Some s" using demo_vm_Some by blast
  have "add_all [] builder_new = Inr []" by code_simp
  moreover have "pay_to_script_hash_signature_script [0x51] [] = Inr (signature_script (hd (tx_inputs (demo_transaction [1, 0x51]))))"
    by (simp add: pay_to_script_hash_signature_script_def add_data_def canonical_data_size_def add_raw_data_def builder_new_def
        op_consts MAX_SCRIPTS_SIZE_def MAX_SCRIPT_ELEMENT_SIZE_def)
  moreover have "pay_to_script_hash_script (sha3_256 demo_crypto) [0x51] =
      Some (ru_script_public_key (hd (pop_entries (demo_spend [1, 0x51] ?script))))"
    by (simp add: pay_to_script_hash_script_def pay_to_script_hash_def demo_crypto_def demo_digest_def)
  ultimately have "execute demo_crypto s = sbind (execute_script demo_crypto [0x51] False) (\<lambda>_. check_error_condition True)
      (s\<lparr>dstack := map (\<lambda>d. if d = [0] then [] else d) []\<rparr>)"
    by (intro p2sh_runs_redeem [OF s [unfolded demo_vm_def]]) (simp_all add: MAX_SCRIPTS_SIZE_def MAX_STACK_SIZE_def)
  moreover have "s\<lparr>dstack := []\<rparr> = s" using s by (auto simp: demo_vm_def from_transaction_input_def split: if_splits)
  ultimately show ?thesis using s by simp
qed

section \<open>Signing\<close>

text \<open>
  C7: What the wallet library signs, its own verification accepts: for a key whose signatures
  verify, \<open>sign\<close> succeeds on a transaction whose inputs all pay to the key, and \<open>verify\<close>
  accepts the result.
\<close>

theorem sign_verify:
  assumes "key_ok dverify kp" "20 \<le> length (sha (kp_public kp))"
    and "length (tx_inputs (pop_tx ptx)) = length (pop_entries ptx)"
    and "list_all (\<lambda>entry. spk_script (ru_script_public_key entry) = build_expected_script sha (kp_public kp)) (pop_entries ptx)"
  shows "\<exists>p. sign sha3 ptx kp = Some p \<and> verify sha sha3 dverify p = Some (Inr ())"
  using sign_then_verify [OF assms, of sha3] by blast

definition demo_key :: keypair where
  "demo_key = \<lparr>kp_public = replicate 1952 0, kp_sign = \<lambda>_. Some (replicate 3309 0)\<rparr>"

lemma demo_key_ok: "key_ok (\<lambda>_ _ _. True) demo_key"
  by (simp add: key_ok_def demo_key_def PUBKEY_SIZE_def SIG_SIZE_def)

theorem sign_verify_witness:
  "\<exists>p. sign demo_digest (demo_spend [] (build_expected_script (\<lambda>_. replicate 32 5) (kp_public demo_key))) demo_key = Some p \<and>
     verify (\<lambda>_. replicate 32 5) demo_digest (\<lambda>_ _ _. True) p = Some (Inr ())"
  by (rule sign_verify [OF demo_key_ok]) (simp_all add: demo_defs)

text \<open>
  C8: The engine rejects what the wallet library signs: on every input that carries a
  signature script built from a Dilithium public key and signature, it fails with
  \<open>ElementTooBig(5262, 520)\<close>.
\<close>

theorem signed_input_too_big:
  assumes "length pk = PUBKEY_SIZE" "length sg = SIG_SIZE"
    and "from_transaction_input ptx input idx entry rv cache = Some s"
    and "signature_script input = build_sig_script pk sg t"
    and "spk_version (ru_script_public_key entry) = 0" "length (spk_script (ru_script_public_key entry)) \<le> MAX_SCRIPTS_SIZE"
  shows "fst (execute cr s) = Inl (ElementTooBig 5262 520)"
  by (rule signed_input_rejected [OF assms])

theorem signed_input_too_big_witness:
  "\<exists>s. demo_vm (build_sig_script (replicate 1952 0) (replicate 3309 0) SIG_HASH_ALL) [0x51] reused_values_new (cache_new 0) = Some s \<and>
     fst (execute demo_crypto s) = Inl (ElementTooBig 5262 520)"
proof -
  let ?sig = "build_sig_script (replicate 1952 0) (replicate 3309 0) SIG_HASH_ALL"
  obtain s where s: "demo_vm ?sig [0x51] reused_values_new (cache_new 0) = Some s" using demo_vm_Some by blast
  have "fst (execute demo_crypto s) = Inl (ElementTooBig 5262 520)"
    by (rule signed_input_too_big [OF _ _ s [unfolded demo_vm_def]])
       (simp_all add: PUBKEY_SIZE_def SIG_SIZE_def MAX_SCRIPTS_SIZE_def)
  with s show ?thesis by blast
qed

end
